(* ===== verification/Prelude.thy ===== *)
theory Prelude
  imports Main "HOL-Library.Word" "HOL-Library.AList" "HOL-Library.Char_ord"
    "HOL-Library.List_Lexorder" "HOL-Library.Product_Lexorder" "HOL-Library.Multiset"
begin

unbundle bit_operations_syntax

text \<open>
  Shared vocabulary of the development: the types that name the program's values, the Python
  containers the code uses (a \<open>dict\<close> is an association list with distinct keys, in insertion
  order; \<open>d[k] = v\<close> is \<^verbatim>\<open>AList.update\<close>, which overwrites in place or appends at the end), fallible
  calls as sums (\<open>Inl\<close> the raised error), and generic facts on folds, lists and maps that the
  component proofs share.

  Text is a list of code points below 256 (\<^typ>\<open>string\<close>): every string the code itself
  spells out is ASCII, and the code treats all further code points alike.
\<close>

named_theorems dict_simps \<open>facts on dictionaries as association lists\<close>
named_theorems fold_simps \<open>facts on folds over lists of operations\<close>

section \<open>Results\<close>

type_synonym ('e, 'a) result = "'e + 'a"

fun bind_result :: "('e, 'a) result \<Rightarrow> ('a \<Rightarrow> ('e, 'b) result) \<Rightarrow> ('e, 'b) result" where
  "bind_result (Inl e) f = Inl e"
| "bind_result (Inr x) f = f x"

lemma bind_result_Inr: "bind_result r f = Inr y \<longleftrightarrow> (\<exists>x. r = Inr x \<and> f x = Inr y)"
  by (cases r) auto

lemma bind_result_Inl: "bind_result r f = Inl e \<longleftrightarrow> r = Inl e \<or> (\<exists>x. r = Inr x \<and> f x = Inl e)"
  by (cases r) auto

section \<open>Dictionaries\<close>

type_synonym ('k, 'v) dict = "('k \<times> 'v) list"

definition dict_ok :: "('k, 'v) dict \<Rightarrow> bool" where
  "dict_ok d \<longleftrightarrow> distinct (map fst d)"

definition dict_map :: "('v \<Rightarrow> 'w) \<Rightarrow> ('k, 'v) dict \<Rightarrow> ('k, 'w) dict" where
  "dict_map f d = map (\<lambda>(k, v). (k, f v)) d"

lemma fst_dict_map [dict_simps, simp]: "map fst (dict_map f d) = map fst d"
  by (induction d) (auto simp: dict_map_def)

lemma dict_ok_dict_map [dict_simps, simp]: "dict_ok (dict_map f d) = dict_ok d"
  by (simp add: dict_ok_def)

lemma map_of_dict_map [dict_simps]: "map_of (dict_map f d) k = map_option f (map_of d k)"
  by (induction d) (auto simp: dict_map_def)

lemma dict_map_id: "(\<And>k v. (k, v) \<in> set d \<Longrightarrow> f v = v) \<Longrightarrow> dict_map f d = d"
  by (induction d) (auto simp: dict_map_def)

lemma map_add_map_of_absorb:
  "dom m \<subseteq> dom n \<Longrightarrow> m ++ n = n"
  by (rule ext) (force simp: map_add_def dom_def split: option.splits)

lemma map_add_same: "\<forall>k v. n k = Some v \<longrightarrow> m k = Some v \<Longrightarrow> m ++ n = m"
  by (rule ext) (auto simp: map_add_def split: option.splits)

section \<open>Folding a list of operations over a state\<close>

text \<open>
  \<open>run_ops f ps s\<close> applies the operations \<open>ps\<close> to \<open>s\<close> from the left; it is the shape of every
  loop of the program that threads a state through a list.
\<close>

fun run_ops :: "('p \<Rightarrow> 's \<Rightarrow> 's) \<Rightarrow> 'p list \<Rightarrow> 's \<Rightarrow> 's" where
  "run_ops f [] s = s"
| "run_ops f (p # ps) s = run_ops f ps (f p s)"

lemma run_ops_append [fold_simps, simp]: "run_ops f (ps @ qs) s = run_ops f qs (run_ops f ps s)"
  by (induction ps arbitrary: s) auto

lemma run_ops_concat [fold_simps]:
  "run_ops f (concat pss) s = run_ops (\<lambda>ps. run_ops f ps) pss s"
  by (induction pss arbitrary: s) auto

lemma run_ops_map [fold_simps]: "run_ops f (map g ps) s = run_ops (\<lambda>p. f (g p)) ps s"
  by (induction ps arbitrary: s) auto

lemma run_ops_invariant:
  "I s \<Longrightarrow> (\<And>p s. p \<in> set ps \<Longrightarrow> I s \<Longrightarrow> I (f p s)) \<Longrightarrow> I (run_ops f ps s)"
  by (induction ps arbitrary: s) auto

lemma run_ops_cong:
  "(\<And>p s. p \<in> set ps \<Longrightarrow> f p s = g p s) \<Longrightarrow> run_ops f ps s = run_ops g ps s"
  by (induction ps arbitrary: s) auto

section \<open>Slices\<close>

text \<open>
  \<open>chunks_of n xs\<close>: the consecutive slices \<open>xs[start : start + n]\<close> of
  \<open>for start in range(0, len(xs), n)\<close>. A size of 0 (which \<open>range\<close> refuses) is excluded by every
  caller; it yields the whole list here.
\<close>

function chunks_of :: "nat \<Rightarrow> 'a list \<Rightarrow> 'a list list" where
  "chunks_of n xs =
     (if xs = [] then [] else if n = 0 then [xs] else take n xs # chunks_of n (drop n xs))"
  by pat_completeness auto
termination
  by (relation "measure (\<lambda>(n, xs). length xs)") auto

declare chunks_of.simps [simp del]

lemma chunks_of_Nil [simp]: "chunks_of n [] = []"
  by (simp add: chunks_of.simps)

lemma concat_chunks_of [fold_simps, simp]: "concat (chunks_of n xs) = xs"
proof (induction n xs rule: chunks_of.induct)
  case (1 n xs)
  then show ?case
    by (cases "xs = []"; cases "n = 0")
      (simp_all add: chunks_of.simps [of n xs] chunks_of.simps [of 0 xs])
qed

lemma chunks_of_bound: "c \<in> set (chunks_of n xs) \<Longrightarrow> 0 < n \<Longrightarrow> length c \<le> n \<and> c \<noteq> []"
proof (induction n xs rule: chunks_of.induct)
  case (1 n xs)
  then show ?case
    by (cases "xs = []") (auto simp: chunks_of.simps [of n xs])
qed

lemma chunks_of_all: "c \<in> set (chunks_of n xs) \<Longrightarrow> x \<in> set c \<Longrightarrow> x \<in> set xs"
  by (metis concat_chunks_of in_set_conv_nth nth_mem UN_I set_concat)


section \<open>Grouping\<close>

text \<open>
  \<open>groupby f xs\<close> is \<^verbatim>\<open>itertools.groupby\<close>: maximal stretches of consecutive elements with equal keys.
  \<open>dict_push k x d\<close> is \<^verbatim>\<open>d.setdefault(k, []).append(x)\<close>, and \<open>group_by_key f xs\<close> pushes every element
  under its key, so keys keep the order in which they first appear.
\<close>

fun groupby :: "('a \<Rightarrow> 'k) \<Rightarrow> 'a list \<Rightarrow> 'a list list" where
  "groupby f [] = []"
| "groupby f (x # xs) =
     (case groupby f xs of
        [] \<Rightarrow> [[x]]
      | g # gs \<Rightarrow> if f (hd g) = f x then (x # g) # gs else [x] # g # gs)"

lemma concat_groupby [fold_simps, simp]: "concat (groupby f xs) = xs"
  by (induction xs) (auto split: list.splits)

lemma groupby_nonempty: "r \<in> set (groupby f xs) \<Longrightarrow> r \<noteq> []"
  by (induction xs arbitrary: r) (auto split: list.splits if_splits)

lemma groupby_same_key:
  "r \<in> set (groupby f xs) \<Longrightarrow> x \<in> set r \<Longrightarrow> f x = f (hd r)"
proof (induction xs arbitrary: r x)
  case (Cons z zs)
  show ?case
  proof (cases "groupby f zs")
    case Nil
    with Cons.prems show ?thesis by simp
  next
    case gs: (Cons g gs)
    from gs have old: "r' \<in> set (g # gs) \<Longrightarrow> y \<in> set r' \<Longrightarrow> f y = f (hd r')" for r' y
      using Cons.IH by simp
    from gs have "g \<noteq> []" using groupby_nonempty [of g f zs] by simp
    then show ?thesis
      using Cons.prems gs old [of g x] old [of r x] by (auto split: if_splits)
  qed
qed simp

definition dict_push :: "'k \<Rightarrow> 'a \<Rightarrow> ('k, 'a list) dict \<Rightarrow> ('k, 'a list) dict" where
  "dict_push k x d = AList.update k ((case map_of d k of None \<Rightarrow> [] | Some xs \<Rightarrow> xs) @ [x]) d"

fun push_all :: "('a \<Rightarrow> 'k) \<Rightarrow> 'a list \<Rightarrow> ('k, 'a list) dict \<Rightarrow> ('k, 'a list) dict" where
  "push_all f [] d = d"
| "push_all f (x # xs) d = push_all f xs (dict_push (f x) x d)"

definition group_by_key :: "('a \<Rightarrow> 'k) \<Rightarrow> 'a list \<Rightarrow> ('k, 'a list) dict" where
  "group_by_key f xs = push_all f xs []"

lemma mset_update_concat:
  "distinct (map fst d) \<Longrightarrow>
     mset (concat (map snd (AList.update k ((case map_of d k of None \<Rightarrow> [] | Some xs \<Rightarrow> xs) @ [x]) d)))
     = add_mset x (mset (concat (map snd d)))"
proof (induction d)
  case (Cons e d)
  obtain k' v where e: "e = (k', v)" by (cases e)
  show ?case
  proof (cases "k' = k")
    case True
    with e show ?thesis by simp
  next
    case False
    with e Cons show ?thesis by simp
  qed
qed simp

lemma dict_ok_push [dict_simps]: "dict_ok d \<Longrightarrow> dict_ok (dict_push k x d)"
  by (simp add: dict_ok_def dict_push_def distinct_update)

lemma mset_push_all:
  "dict_ok d \<Longrightarrow>
     mset (concat (map snd (push_all f xs d))) = mset xs + mset (concat (map snd d))"
proof (induction xs arbitrary: d)
  case (Cons x xs)
  then show ?case
    by (simp add: dict_ok_push) (simp add: dict_push_def mset_update_concat dict_ok_def)
qed simp

lemma mset_group_by_key: "mset (concat (map snd (group_by_key f xs))) = mset xs"
  by (simp add: group_by_key_def mset_push_all dict_ok_def)

lemma set_update_cases:
  "(k', v') \<in> set (AList.update k v d) \<Longrightarrow> (k', v') \<in> set d \<or> (k' = k \<and> v' = v)"
  by (induction d) (auto split: if_splits)

lemma dict_push_keys:
  assumes "\<forall>(k, ys) \<in> set d. \<forall>y \<in> set ys. f y = k"
  shows "\<forall>(k, ys) \<in> set (dict_push (f x) x d). \<forall>y \<in> set ys. f y = k"
proof (cases "map_of d (f x)")
  case None
  with assms show ?thesis by (fastforce simp: dict_push_def dest: set_update_cases)
next
  case (Some zs)
  then have "(f x, zs) \<in> set d" by (rule map_of_SomeD)
  with assms Some show ?thesis by (fastforce simp: dict_push_def dest: set_update_cases)
qed

lemma push_all_keys:
  "\<forall>(k, ys) \<in> set d. \<forall>y \<in> set ys. f y = k \<Longrightarrow>
     \<forall>(k, ys) \<in> set (push_all f xs d). \<forall>y \<in> set ys. f y = k"
proof (induction xs arbitrary: d)
  case (Cons x xs)
  from Cons.IH [OF dict_push_keys [OF Cons.prems]] show ?case by simp
qed simp

lemma group_by_key_keys:
  "(k, ys) \<in> set (group_by_key f xs) \<Longrightarrow> y \<in> set ys \<Longrightarrow> f y = k"
  using push_all_keys [of "[]" f xs] by (fastforce simp: group_by_key_def)

lemma group_by_key_single:
  assumes "\<And>x. x \<in> set xs \<Longrightarrow> f x = c" "xs \<noteq> []"
  shows "group_by_key f xs = [(c, xs)]"
proof -
  have "push_all f ys [(c, zs)] = [(c, zs @ ys)]" if "\<forall>y \<in> set ys. f y = c" for ys zs
    using that by (induction ys arbitrary: zs) (auto simp: dict_push_def)
  with assms show ?thesis
    by (cases xs) (auto simp: group_by_key_def dict_push_def)
qed

section \<open>Operations that tolerate reordering and repetition\<close>

text \<open>
  Three contracts on operations that are folded over a state. Under \<open>keyed_ops\<close> operations on distinct
  keys may be reordered. Under \<open>overwriting_ops\<close> an earlier run of some of the operations is wiped out
  by a later full run; under \<open>first_wins_ops\<close> a repeated operation has no further effect. The last two
  both give \<open>resumable\<close>: a run that was cut short can be started again from its first operation.
\<close>

locale keyed_ops =
  fixes f :: "'p \<Rightarrow> 's \<Rightarrow> 's" and key :: "'p \<Rightarrow> 'k"
  assumes commute: "key p \<noteq> key q \<Longrightarrow> f p (f q s) = f q (f p s)"
begin

lemma move: "key p \<notin> key ` set qs \<Longrightarrow> run_ops f qs (f p s) = f p (run_ops f qs s)"
proof (induction qs arbitrary: s)
  case (Cons q qs)
  then have "f q (f p s) = f p (f q s)" by (intro commute) auto
  with Cons show ?case by simp
qed simp

lemma reorder:
  "distinct (map key ps) \<Longrightarrow> mset ps = mset qs \<Longrightarrow> run_ops f ps s = run_ops f qs s"
proof (induction ps arbitrary: qs s)
  case (Cons p ps)
  then have "p \<in> set qs" by (metis list.set_intros(1) set_mset_mset)
  then obtain as bs where qs: "qs = as @ p # bs" by (meson split_list)
  with Cons.prems have m: "mset ps = mset (as @ bs)" by simp
  then have "set ps = set (as @ bs)" by (metis set_mset_mset)
  with Cons.prems have fresh: "key p \<notin> key ` set as" by auto
  have "run_ops f (p # ps) s = run_ops f (as @ bs) (f p s)"
    using Cons.IH [of "as @ bs" "f p s"] Cons.prems(1) m by simp
  also have "\<dots> = run_ops f bs (f p (run_ops f as s))"
    using move [OF fresh] by simp
  finally show ?case by (simp add: qs)
qed simp

end

locale resumable =
  fixes f :: "'p \<Rightarrow> 's \<Rightarrow> 's"
  assumes resume: "run_ops f (ps @ qs) (run_ops f ps s) = run_ops f (ps @ qs) s"
begin

lemma again: "run_ops f ps (run_ops f ps s) = run_ops f ps s"
  using resume [of ps "[]"] by simp

end

locale overwriting_ops =
  fixes f :: "'p \<Rightarrow> 's \<Rightarrow> 's"
  assumes idem: "f p (f p s) = f p s"
    and overwrite: "f p (f q (f p s)) = f p (f q s)"
begin

lemma overwrite_run: "f p (run_ops f qs (f p s)) = f p (run_ops f qs s)"
proof (induction qs arbitrary: s)
  case (Cons q qs)
  have "f p (run_ops f (q # qs) (f p s)) = f p (run_ops f qs (f p (f q (f p s))))"
    using Cons.IH [of "f q (f p s)"] by simp
  also have "\<dots> = f p (run_ops f qs (f p (f q s)))" by (simp add: overwrite)
  also have "\<dots> = f p (run_ops f (q # qs) s)" using Cons.IH by simp
  finally show ?case .
qed (simp add: idem)

lemma absorb: "set xs \<subseteq> set ys \<Longrightarrow> run_ops f ys (run_ops f xs s) = run_ops f ys s"
proof (induction xs arbitrary: s)
  case (Cons x xs)
  then obtain as bs where ys: "ys = as @ x # bs" by (meson list.set_intros(1) split_list subsetD)
  have "run_ops f ys (f x s) = run_ops f ys s" by (simp add: ys overwrite_run)
  with Cons show ?case by simp
qed simp

end

sublocale overwriting_ops \<subseteq> resumable
  by unfold_locales (rule absorb, simp)

locale first_wins_ops =
  fixes f :: "'p \<Rightarrow> 's \<Rightarrow> 's"
  assumes idem: "f p (f p s) = f p s"
    and settled: "f p (f q (f p s)) = f q (f p s)"
begin

lemma settled_run: "f p (run_ops f qs (f p s)) = run_ops f qs (f p s)"
proof -
  have "f p s = s \<Longrightarrow> f p (run_ops f qs s) = run_ops f qs s" for s
    by (induction qs arbitrary: s) (auto, metis settled)
  then show ?thesis by (simp add: idem)
qed

lemma noop_run: "set xs \<subseteq> set ys \<Longrightarrow> run_ops f xs (run_ops f ys s) = run_ops f ys s"
proof (induction xs)
  case (Cons x xs)
  then obtain as bs where ys: "ys = as @ x # bs" by (meson list.set_intros(1) split_list subsetD)
  have "f x (run_ops f ys s) = run_ops f ys s" by (simp add: ys settled_run)
  with Cons show ?case by simp
qed simp

end

sublocale first_wins_ops \<subseteq> resumable
  by unfold_locales (simp add: noop_run)

end
