(* ===== verification/Models.thy ===== *)
theory Models
  imports Prelude
begin

text \<open>
  The values and mutation primitives the Graph Write Gateway accepts
  (\<^verbatim>\<open>ps-service/src/ps_service/graph_gateway/models.py\<close>): Python property values, the property-map
  validation, the seven primitives as one tagged union, their field validation, and mutation groups.
  The last section shows that a validated property map is a fixed point of the validation and holds
  only storable values.
\<close>

section \<open>Property values\<close>

text \<open>
  A Python object as far as the code tells objects apart. A float is its IEEE-754 binary64 bit
  pattern, so two floats are the same stored value exactly if the words are equal.
\<close>

type_synonym f64 = "64 word"

datatype pyval =
    PNone
  | PBool bool
  | PInt int
  | PFloat f64
  | PStr string
  | PList "pyval list"
  | PTuple "pyval list"
  | PDict "(string \<times> pyval) list"

type_synonym props = "(string, pyval) dict"

datatype pytype = TNone | TBool | TInt | TFloat | TStr | TList | TTuple | TDict

fun py_type :: "pyval \<Rightarrow> pytype" where
  "py_type PNone = TNone"
| "py_type (PBool _) = TBool"
| "py_type (PInt _) = TInt"
| "py_type (PFloat _) = TFloat"
| "py_type (PStr _) = TStr"
| "py_type (PList _) = TList"
| "py_type (PTuple _) = TTuple"
| "py_type (PDict _) = TDict"

definition f64_exponent :: "f64 \<Rightarrow> f64" where
  "f64_exponent w = drop_bit 52 w AND 0x7FF"

definition f64_fraction :: "f64 \<Rightarrow> f64" where
  "f64_fraction w = take_bit 52 w"

definition f64_isfinite :: "f64 \<Rightarrow> bool" where
  "f64_isfinite w \<longleftrightarrow> f64_exponent w \<noteq> 0x7FF"

definition f64_isnan :: "f64 \<Rightarrow> bool" where
  "f64_isnan w \<longleftrightarrow> f64_exponent w = 0x7FF \<and> f64_fraction w \<noteq> 0"

definition int64_min :: int where
  "int64_min = - (2 ^ 63)"

definition int64_max :: int where
  "int64_max = 2 ^ 63 - 1"

definition in_int64 :: "int \<Rightarrow> bool" where
  "in_int64 i \<longleftrightarrow> int64_min \<le> i \<and> i \<le> int64_max"

fun is_valid_scalar :: "pyval \<Rightarrow> bool" where
  "is_valid_scalar (PBool _) = True"
| "is_valid_scalar (PStr _) = True"
| "is_valid_scalar (PInt i) = in_int64 i"
| "is_valid_scalar (PFloat w) = f64_isfinite w"
| "is_valid_scalar _ = False"

definition one_type :: "pyval list \<Rightarrow> bool" where
  "one_type vs \<longleftrightarrow> vs \<noteq> [] \<and> list_all (\<lambda>v. py_type v = py_type (hd vs)) vs"

definition is_valid_items :: "pyval list \<Rightarrow> bool" where
  "is_valid_items vs \<longleftrightarrow> one_type vs \<and> list_all is_valid_scalar vs"

fun is_valid_property_value :: "pyval \<Rightarrow> bool" where
  "is_valid_property_value (PList vs) = is_valid_items vs"
| "is_valid_property_value (PTuple vs) = is_valid_items vs"
| "is_valid_property_value v = is_valid_scalar v"

section \<open>Property maps\<close>

text \<open>
  \<open>py_space\<close>: the characters \<^verbatim>\<open>str.strip\<close> removes; \<open>regex_space\<close>: those \<^verbatim>\<open>\s\<close> matches in the field
  patterns (the two differ at code points 28 to 31).
\<close>

definition py_space :: "char \<Rightarrow> bool" where
  "py_space c \<longleftrightarrow>
     (let n = of_char c :: nat
      in (9 \<le> n \<and> n \<le> 13) \<or> (28 \<le> n \<and> n \<le> 32) \<or> n = 133 \<or> n = 160)"

definition regex_space :: "char \<Rightarrow> bool" where
  "regex_space c \<longleftrightarrow>
     (let n = of_char c :: nat in (9 \<le> n \<and> n \<le> 13) \<or> n = 32 \<or> n = 133 \<or> n = 160)"

definition py_blank :: "string \<Rightarrow> bool" where
  "py_blank s \<longleftrightarrow> list_all py_space s"

definition non_blank :: "string \<Rightarrow> bool" where
  "non_blank s \<longleftrightarrow> list_ex (\<lambda>c. \<not> regex_space c) s"

definition reserved_node_property_keys :: "string list" where
  "reserved_node_property_keys = [''id'', ''embedding'']"

definition reserved_edge_property_keys :: "string list" where
  "reserved_edge_property_keys = [''id'', ''embedding'', ''identity'']"

datatype property_error = BlankOrReservedKey | NotStorable string

fun to_list :: "pyval \<Rightarrow> pyval" where
  "to_list (PTuple vs) = PList vs"
| "to_list v = v"

fun check_properties :: "string list \<Rightarrow> props \<Rightarrow> (property_error, unit) result" where
  "check_properties reserved [] = Inr ()"
| "check_properties reserved ((k, v) # ps) =
     (if py_blank k \<or> k \<in> set reserved then Inl BlankOrReservedKey
      else if \<not> is_valid_property_value v then Inl (NotStorable k)
      else check_properties reserved ps)"

definition validate_property_map :: "string list \<Rightarrow> props \<Rightarrow> (property_error, props) result" where
  "validate_property_map reserved ps =
     (case check_properties reserved ps of
        Inl e \<Rightarrow> Inl e
      | Inr _ \<Rightarrow> Inr (dict_map to_list ps))"

section \<open>Primitives\<close>

record node_ref =
  ref_label :: string
  ref_id :: string

datatype primitive =
    UpsertNode string string props "f64 list option"
  | UpsertEdge string string node_ref node_ref props
  | MergeProperty string string props
  | RemoveProperty string string "string list"
  | DeleteNode string string
  | DeleteEdge string string node_ref node_ref
  | StampEdgeIdentity string string node_ref node_ref

text \<open>
  \<open>is_identifier\<close> is \<open>IDENTIFIER_PATTERN\<close>: a letter or underscore followed by at most 63 letters,
  digits or underscores.
\<close>

definition ascii_letter :: "char \<Rightarrow> bool" where
  "ascii_letter c \<longleftrightarrow>
     (let n = of_char c :: nat in (65 \<le> n \<and> n \<le> 90) \<or> (97 \<le> n \<and> n \<le> 122) \<or> n = 95)"

definition ascii_digit :: "char \<Rightarrow> bool" where
  "ascii_digit c \<longleftrightarrow> (let n = of_char c :: nat in 48 \<le> n \<and> n \<le> 57)"

fun is_identifier :: "string \<Rightarrow> bool" where
  "is_identifier [] = False"
| "is_identifier (c # cs) =
     (ascii_letter c \<and> list_all (\<lambda>d. ascii_letter d \<or> ascii_digit d) cs \<and> length cs \<le> 63)"

definition valid_ref :: "node_ref \<Rightarrow> bool" where
  "valid_ref r \<longleftrightarrow> is_identifier (ref_label r) \<and> non_blank (ref_id r)"

text \<open>
  Building a primitive runs the field validation of its model: the value with its properties
  normalised, or \<open>None\<close> where the model raises a \<^verbatim>\<open>ValidationError\<close>.
\<close>

definition valid_props :: "string list \<Rightarrow> props \<Rightarrow> props option" where
  "valid_props reserved ps =
     (case validate_property_map reserved ps of Inl _ \<Rightarrow> None | Inr ps' \<Rightarrow> Some ps')"

definition valid_edge_base :: "string \<Rightarrow> string \<Rightarrow> node_ref \<Rightarrow> node_ref \<Rightarrow> bool" where
  "valid_edge_base t i s d \<longleftrightarrow> is_identifier t \<and> non_blank i \<and> valid_ref s \<and> valid_ref d"

fun model_validate :: "primitive \<Rightarrow> primitive option" where
  "model_validate (UpsertNode l i ps e) =
     (if is_identifier l \<and> non_blank i \<and> e \<noteq> Some []
      then map_option (\<lambda>ps'. UpsertNode l i ps' e) (valid_props reserved_node_property_keys ps)
      else None)"
| "model_validate (UpsertEdge t i s d ps) =
     (if valid_edge_base t i s d
      then map_option (UpsertEdge t i s d) (valid_props reserved_edge_property_keys ps)
      else None)"
| "model_validate (MergeProperty l i ps) =
     (if is_identifier l \<and> non_blank i \<and> ps \<noteq> []
      then map_option (MergeProperty l i) (valid_props reserved_node_property_keys ps)
      else None)"
| "model_validate (RemoveProperty l i ks) =
     (if is_identifier l \<and> non_blank i \<and> ks \<noteq> [] \<and> list_all is_identifier ks \<and> distinct ks
         \<and> list_all (\<lambda>k. k \<notin> set reserved_node_property_keys) ks
      then Some (RemoveProperty l i ks) else None)"
| "model_validate (DeleteNode l i) =
     (if is_identifier l \<and> non_blank i then Some (DeleteNode l i) else None)"
| "model_validate (DeleteEdge t i s d) =
     (if valid_edge_base t i s d then Some (DeleteEdge t i s d) else None)"
| "model_validate (StampEdgeIdentity t i s d) =
     (if valid_edge_base t i s d then Some (StampEdgeIdentity t i s d) else None)"

text \<open>A primitive that exists in the program has passed its own validation.\<close>

fun prim_props :: "primitive \<Rightarrow> props" where
  "prim_props (UpsertNode _ _ ps _) = ps"
| "prim_props (UpsertEdge _ _ _ _ ps) = ps"
| "prim_props (MergeProperty _ _ ps) = ps"
| "prim_props _ = []"

definition wf_primitive :: "primitive \<Rightarrow> bool" where
  "wf_primitive p \<longleftrightarrow> model_validate p = Some p \<and> dict_ok (prim_props p)"

section \<open>Groups\<close>

record mutation_group =
  mg_graph :: string
  mg_audit_event_id :: "string option"
  mg_primitives :: "primitive list"
  mg_preconditions :: "nat list"
  mg_checkpoint_requested :: bool

record graph_leg =
  leg_graph :: string
  leg_primitives :: "primitive list"
  leg_preconditions :: "nat list"
  leg_replace :: bool
  leg_checkpoint_requested :: bool

fun is_upsert :: "primitive \<Rightarrow> bool" where
  "is_upsert (UpsertNode _ _ _ _) = True"
| "is_upsert (UpsertEdge _ _ _ _ _) = True"
| "is_upsert _ = False"

definition valid_group :: "mutation_group \<Rightarrow> bool" where
  "valid_group g \<longleftrightarrow>
     non_blank (mg_graph g) \<and> mg_primitives g \<noteq> [] \<and> list_all wf_primitive (mg_primitives g)"

definition valid_leg :: "graph_leg \<Rightarrow> bool" where
  "valid_leg l \<longleftrightarrow>
     non_blank (leg_graph l) \<and> leg_primitives l \<noteq> [] \<and> list_all wf_primitive (leg_primitives l)
     \<and> (leg_replace l \<longrightarrow> list_all is_upsert (leg_primitives l))"

definition as_group :: "graph_leg \<Rightarrow> string \<Rightarrow> mutation_group" where
  "as_group l audit =
     \<lparr>mg_graph = leg_graph l, mg_audit_event_id = Some audit,
      mg_primitives = leg_primitives l, mg_preconditions = leg_preconditions l,
      mg_checkpoint_requested = leg_checkpoint_requested l\<rparr>"

section \<open>Facts on validated values\<close>

lemma to_list_idem [simp]: "to_list (to_list v) = to_list v"
  by (cases v) auto

lemma valid_to_list [simp]: "is_valid_property_value (to_list v) = is_valid_property_value v"
  by (cases v) auto

lemma check_properties_Inr:
  "check_properties reserved ps = Inr u \<longleftrightarrow>
     (\<forall>(k, v) \<in> set ps. \<not> py_blank k \<and> k \<notin> set reserved \<and> is_valid_property_value v)"
  by (induction reserved ps rule: check_properties.induct) auto

lemma validate_property_map_Inr:
  "validate_property_map reserved ps = Inr ps' \<longleftrightarrow>
     (\<forall>(k, v) \<in> set ps. \<not> py_blank k \<and> k \<notin> set reserved \<and> is_valid_property_value v)
     \<and> ps' = dict_map to_list ps"
proof (cases "check_properties reserved ps")
  case (Inl e)
  with check_properties_Inr [of reserved ps "()"] show ?thesis
    by (auto simp: validate_property_map_def)
next
  case (Inr u)
  with check_properties_Inr [of reserved ps u] show ?thesis
    by (auto simp: validate_property_map_def)
qed

definition storable :: "pyval \<Rightarrow> bool" where
  "storable v \<longleftrightarrow> is_valid_property_value v \<and> to_list v = v"

lemma valid_props_fixed:
  assumes "valid_props reserved ps = Some ps"
  shows "\<forall>(k, v) \<in> set ps. k \<notin> set reserved \<and> storable v"
proof -
  from assms have all: "\<forall>(k, v) \<in> set ps. \<not> py_blank k \<and> k \<notin> set reserved \<and> is_valid_property_value v"
    and fix_: "dict_map to_list ps = ps"
    by (auto simp: valid_props_def validate_property_map_Inr split: sum.splits)
  have "to_list v = v" if "(k, v) \<in> set ps" for k v
  proof -
    from fix_ have "map (\<lambda>(k, v). (k, to_list v)) ps = map (\<lambda>x. x) ps"
      by (simp add: dict_map_def)
    then have "\<forall>x \<in> set ps. (\<lambda>(k, v). (k, to_list v)) x = x"
      by (simp only: map_eq_conv)
    with that show ?thesis by fastforce
  qed
  with all show ?thesis by (auto simp: storable_def)
qed

lemma wf_primitive_storable:
  "wf_primitive p \<Longrightarrow> (k, v) \<in> set (prim_props p) \<Longrightarrow> storable v"
  by (cases p) (auto simp: wf_primitive_def split: if_splits dest!: valid_props_fixed)

end
