(* ===== verification/Vocabulary.thy ===== *)
theory Vocabulary
  imports Models
begin

text \<open>
  The gateway's errors (\<^verbatim>\<open>graph_gateway/errors.py\<close>), its allow-list of node labels and relationship
  types (\<^verbatim>\<open>graph_gateway/label_allow_list.py\<close>, derived from the domain schema and the named exception
  sets), and the checks of a submitted group that need no graph (\<^verbatim>\<open>graph_gateway/validation.py\<close>).
\<close>

datatype gateway_error =
    UnlistedNameError
  | UnsafeIdentifierError
  | StaleGraphStateError string nat nat
  | MissingTargetError nat
  | GraphUnavailableError
  | GraphLogUnavailableError
  | GraphApplyError string "nat option"
  | GraphApplyBlockedError string
  | GraphReplayGatedError string "nat option"
  | GraphLogEntryDecodeError string nat
  | UnexpectedGraphReplyError
  | GraphLogPersistenceError
  | GraphLogPayloadError
  | SwapNotConfiguredError
  | StagedGroupNotCommittedError

text \<open>The subclasses of \<^verbatim>\<open>GraphWriteRejectedError\<close>: refused before anything is logged.\<close>

fun is_rejection :: "gateway_error \<Rightarrow> bool" where
  "is_rejection UnlistedNameError = True"
| "is_rejection (StaleGraphStateError _ _ _) = True"
| "is_rejection (MissingTargetError _) = True"
| "is_rejection SwapNotConfiguredError = True"
| "is_rejection _ = False"

section \<open>Allow-lists\<close>

definition schema_node_labels :: "string list" where
  "schema_node_labels =
     [''RegulatoryInstrument'', ''Role'', ''Requirement'', ''Obligation'', ''PracticeArea'',
      ''RiskPath'', ''Capability'', ''Policy'', ''Standard'', ''Control'']"

definition schema_edge_types :: "string list" where
  "schema_edge_types =
     [''DEFINES'', ''EXPRESSES'', ''SUPERSEDED_BY'', ''SUPERSEDED_BY'', ''TRANSPOSES'', ''HAS'',
      ''SATISFIED_BY'', ''REQUIRES'', ''COVERS'', ''OWNS'', ''MITIGATED_BY'', ''VERIFIED_BY'',
      ''GOVERNED_BY'', ''SUPPORTED_BY'', ''IMPLEMENTED_BY'']"

definition system_minted_edge_types :: "string list" where
  "system_minted_edge_types = [''SUPERSEDED_BY'', ''TRANSPOSES'']"

definition merge_marker_labels :: "string list" where
  "merge_marker_labels = [''MergedCapability'', ''MergedObligation'', ''MergedRole'']"

definition resolution_marker_labels :: "string list" where
  "resolution_marker_labels = [''ResolvedCapability'']"

definition redirect_marker_labels :: "string list" where
  "redirect_marker_labels = merge_marker_labels @ resolution_marker_labels"

definition operational_labels :: "string list" where
  "operational_labels = redirect_marker_labels @ [''PendingReview'', ''ReingestProgress'']"

definition replay_sentinel_labels :: "string list" where
  "replay_sentinel_labels = [''GraphReplayState'']"

definition cellar_eli_native_labels :: "string list" where
  "cellar_eli_native_labels =
     [''TITLE'', ''CHAPTER'', ''SECTION'', ''ARTICLE'', ''PARAGRAPH'', ''ANNEX'', ''RECITAL'']"

definition allowed_node_labels :: "string set" where
  "allowed_node_labels =
     set schema_node_labels \<union> set operational_labels \<union> set cellar_eli_native_labels"

definition allowed_relationship_types :: "string set" where
  "allowed_relationship_types = set schema_edge_types \<union> set system_minted_edge_types"

definition require_allowed_node_label :: "string \<Rightarrow> (gateway_error, string) result" where
  "require_allowed_node_label l =
     (if l \<in> allowed_node_labels then Inr l else Inl UnlistedNameError)"

definition require_allowed_relationship_type :: "string \<Rightarrow> (gateway_error, string) result" where
  "require_allowed_relationship_type t =
     (if t \<in> allowed_relationship_types then Inr t else Inl UnlistedNameError)"

section \<open>Validation of a group\<close>

fun node_labels :: "primitive \<Rightarrow> string list" where
  "node_labels (UpsertNode l _ _ _) = [l]"
| "node_labels (MergeProperty l _ _) = [l]"
| "node_labels (RemoveProperty l _ _) = [l]"
| "node_labels (DeleteNode l _) = [l]"
| "node_labels (UpsertEdge _ _ s d _) = [ref_label s, ref_label d]"
| "node_labels (DeleteEdge _ _ s d) = [ref_label s, ref_label d]"
| "node_labels (StampEdgeIdentity _ _ s d) = [ref_label s, ref_label d]"

fun relationship_types :: "primitive \<Rightarrow> string list" where
  "relationship_types (UpsertEdge t _ _ _ _) = [t]"
| "relationship_types (DeleteEdge t _ _ _) = [t]"
| "relationship_types (StampEdgeIdentity t _ _ _) = [t]"
| "relationship_types _ = []"

fun require_all :: "('a \<Rightarrow> ('e, 'b) result) \<Rightarrow> 'a list \<Rightarrow> ('e, unit) result" where
  "require_all f [] = Inr ()"
| "require_all f (x # xs) = bind_result (f x) (\<lambda>_. require_all f xs)"

definition require_names :: "primitive \<Rightarrow> (gateway_error, unit) result" where
  "require_names p =
     bind_result (require_all require_allowed_node_label (node_labels p))
       (\<lambda>_. require_all require_allowed_relationship_type (relationship_types p))"

definition validate_group :: "mutation_group \<Rightarrow> (gateway_error, unit) result" where
  "validate_group g = require_all require_names (mg_primitives g)"

definition require_precondition ::
    "string \<Rightarrow> nat \<Rightarrow> nat \<Rightarrow> (gateway_error, unit) result" where
  "require_precondition graph actual expected =
     (if actual \<noteq> expected then Inl (StaleGraphStateError graph expected actual) else Inr ())"

definition require_preconditions ::
    "mutation_group \<Rightarrow> (string \<Rightarrow> nat) \<Rightarrow> (gateway_error, unit) result" where
  "require_preconditions g last_position =
     require_all (require_precondition (mg_graph g) (last_position (mg_graph g)))
       (mg_preconditions g)"

section \<open>What the checks decide\<close>

definition listed_names :: "primitive \<Rightarrow> bool" where
  "listed_names p \<longleftrightarrow>
     set (node_labels p) \<subseteq> allowed_node_labels
     \<and> set (relationship_types p) \<subseteq> allowed_relationship_types"

lemma require_all_Inr:
  "require_all f xs = Inr u \<longleftrightarrow> (\<forall>x \<in> set xs. \<exists>y. f x = Inr y)"
  by (induction xs) (auto simp: bind_result_Inr)

lemma require_all_Inl:
  "require_all f xs = Inl e \<Longrightarrow> \<exists>x \<in> set xs. f x = Inl e"
  by (induction xs) (auto simp: bind_result_Inl)

lemma require_names_Inr: "require_names p = Inr u \<longleftrightarrow> listed_names p"
  by (auto simp: require_names_def bind_result_Inr require_all_Inr listed_names_def
      require_allowed_node_label_def require_allowed_relationship_type_def)

lemma validate_group_Inr:
  "validate_group g = Inr u \<longleftrightarrow> (\<forall>p \<in> set (mg_primitives g). listed_names p)"
  by (auto simp: validate_group_def require_all_Inr require_names_Inr)

lemma validate_group_Inl: "validate_group g = Inl e \<Longrightarrow> e = UnlistedNameError"
  by (auto simp: validate_group_def require_names_def bind_result_Inl
      require_allowed_node_label_def require_allowed_relationship_type_def
      dest!: require_all_Inl split: if_splits)

lemma require_preconditions_Inr:
  "require_preconditions g lp = Inr u \<longleftrightarrow> (\<forall>n \<in> set (mg_preconditions g). lp (mg_graph g) = n)"
  by (auto simp: require_preconditions_def require_all_Inr require_precondition_def)

lemma require_preconditions_Inl:
  "require_preconditions g lp = Inl e \<Longrightarrow>
     \<exists>n. n \<noteq> lp (mg_graph g) \<and> e = StaleGraphStateError (mg_graph g) n (lp (mg_graph g))"
  by (auto simp: require_preconditions_def require_precondition_def
      dest!: require_all_Inl split: if_splits)

lemma allowed_labels_identifiers: "l \<in> allowed_node_labels \<Longrightarrow> is_identifier l"
  by (auto simp: allowed_node_labels_def schema_node_labels_def operational_labels_def
      redirect_marker_labels_def merge_marker_labels_def resolution_marker_labels_def
      cellar_eli_native_labels_def ascii_letter_def ascii_digit_def Let_def)

lemma allowed_types_identifiers: "t \<in> allowed_relationship_types \<Longrightarrow> is_identifier t"
  by (auto simp: allowed_relationship_types_def schema_edge_types_def
      system_minted_edge_types_def ascii_letter_def ascii_digit_def Let_def)

lemma replay_sentinel_not_allowed:
  "l \<in> set replay_sentinel_labels \<Longrightarrow> l \<notin> allowed_node_labels"
  by (auto simp: replay_sentinel_labels_def allowed_node_labels_def schema_node_labels_def
      operational_labels_def redirect_marker_labels_def merge_marker_labels_def
      resolution_marker_labels_def cellar_eli_native_labels_def)

end
