(* ===== verification/Graph_Store.thy ===== *)
theory Graph_Store
  imports Vocabulary
begin

text \<open>
  The property graph FalkorDB holds, and the write statements the gateway sends to it
  (\<^verbatim>\<open>graph_gateway/cypher.py\<close>): the row builders, the query builders with their checks at the point of
  use, and the meaning of each Cypher template. A statement's \<open>UNWIND $rows\<close> processes its rows from
  the first to the last.

  A node carries one label and is found by its label and \<open>id\<close>, as the gateway writes it; edges are a
  multiset, since Cypher allows parallel ones in no particular order, and an edge written outside the
  gateway may have no identity.
\<close>

type_synonym nodekey = "string \<times> string"
type_synonym propmap = "string \<rightharpoonup> pyval"

record edge =
  e_type :: string
  e_source :: nodekey
  e_target :: nodekey
  e_identity :: "string option"
  e_props :: propmap

record graph =
  g_nodes :: "nodekey \<rightharpoonup> propmap"
  g_edges :: "edge multiset"

definition empty_graph :: graph where
  "empty_graph = \<lparr>g_nodes = Map.empty, g_edges = {#}\<rparr>"

definition ref_key :: "node_ref \<Rightarrow> nodekey" where
  "ref_key r = (ref_label r, ref_id r)"

section \<open>Rows and statements\<close>

type_synonym node_row = "string \<times> props \<times> f64 list option"
type_synonym edge_row = "string \<times> string \<times> string \<times> props"
type_synonym edge_id_row = "string \<times> string \<times> string"

datatype statement =
    NodeUpserts string "node_row list"
  | PropertyMerges string "(string \<times> props) list"
  | PropertyRemovals string "string list" "string list"
  | NodeDeletes string "string list"
  | EdgeUpserts string string string "edge_row list"
  | EdgeDeletes string string string "edge_id_row list"
  | EdgeStamps string string string "edge_id_row list"

fun upsert_node_rows :: "primitive list \<Rightarrow> node_row list" where
  "upsert_node_rows (UpsertNode l i ps e # qs) = (i, ps, e) # upsert_node_rows qs"
| "upsert_node_rows (_ # qs) = upsert_node_rows qs"
| "upsert_node_rows [] = []"

fun merge_property_rows :: "primitive list \<Rightarrow> (string \<times> props) list" where
  "merge_property_rows (MergeProperty l i ps # qs) = (i, ps) # merge_property_rows qs"
| "merge_property_rows (_ # qs) = merge_property_rows qs"
| "merge_property_rows [] = []"

fun removal_id_rows :: "primitive list \<Rightarrow> string list" where
  "removal_id_rows (RemoveProperty l i ks # qs) = i # removal_id_rows qs"
| "removal_id_rows (_ # qs) = removal_id_rows qs"
| "removal_id_rows [] = []"

fun deletion_id_rows :: "primitive list \<Rightarrow> string list" where
  "deletion_id_rows (DeleteNode l i # qs) = i # deletion_id_rows qs"
| "deletion_id_rows (_ # qs) = deletion_id_rows qs"
| "deletion_id_rows [] = []"

fun upsert_edge_rows :: "primitive list \<Rightarrow> edge_row list" where
  "upsert_edge_rows (UpsertEdge t i s d ps # qs) =
     (ref_id s, ref_id d, i, ps) # upsert_edge_rows qs"
| "upsert_edge_rows (_ # qs) = upsert_edge_rows qs"
| "upsert_edge_rows [] = []"

fun delete_edge_rows :: "primitive list \<Rightarrow> edge_id_row list" where
  "delete_edge_rows (DeleteEdge t i s d # qs) = (ref_id s, ref_id d, i) # delete_edge_rows qs"
| "delete_edge_rows (_ # qs) = delete_edge_rows qs"
| "delete_edge_rows [] = []"

fun stamp_edge_rows :: "primitive list \<Rightarrow> edge_id_row list" where
  "stamp_edge_rows (StampEdgeIdentity t i s d # qs) =
     (ref_id s, ref_id d, i) # stamp_edge_rows qs"
| "stamp_edge_rows (_ # qs) = stamp_edge_rows qs"
| "stamp_edge_rows [] = []"

section \<open>Query builders\<close>

definition require_safe_identifier :: "string \<Rightarrow> (gateway_error, string) result" where
  "require_safe_identifier n = (if is_identifier n then Inr n else Inl UnsafeIdentifierError)"

definition query_node_label :: "string \<Rightarrow> (gateway_error, string) result" where
  "query_node_label l = bind_result (require_allowed_node_label l) require_safe_identifier"

definition query_relationship_type :: "string \<Rightarrow> (gateway_error, string) result" where
  "query_relationship_type t =
     bind_result (require_allowed_relationship_type t) require_safe_identifier"

definition removable_key :: "string \<Rightarrow> (gateway_error, string) result" where
  "removable_key k =
     (if k \<in> set reserved_node_property_keys then Inl UnsafeIdentifierError
      else require_safe_identifier k)"

definition edge_text :: "string \<Rightarrow> string \<Rightarrow> string \<Rightarrow> (gateway_error, unit) result" where
  "edge_text t sl dl =
     bind_result (query_node_label sl) (\<lambda>_.
     bind_result (query_node_label dl) (\<lambda>_.
     bind_result (query_relationship_type t) (\<lambda>_. Inr ())))"

definition remove_property_query :: "string \<Rightarrow> string list \<Rightarrow> (gateway_error, unit) result" where
  "remove_property_query l ks =
     bind_result (require_all removable_key ks) (\<lambda>_.
     bind_result (query_node_label l) (\<lambda>_. Inr ()))"

section \<open>The meaning of the templates\<close>

definition embedding_key :: string where
  "embedding_key = ''embedding''"

definition float_list :: "f64 list \<Rightarrow> pyval" where
  "float_list ws = PList (map PFloat ws)"

text \<open>
  \<open>MERGE (n:L {id}) SET n += row.properties SET n.embedding = coalesce(row.embedding, n.embedding)\<close>.
\<close>

definition merged_node :: "propmap option \<Rightarrow> props \<Rightarrow> f64 list option \<Rightarrow> propmap" where
  "merged_node old ps emb =
     (let base = (case old of None \<Rightarrow> Map.empty | Some m \<Rightarrow> m) ++ map_of ps
      in case emb of None \<Rightarrow> base | Some ws \<Rightarrow> base(embedding_key \<mapsto> float_list ws))"

fun cy_upsert_node :: "string \<Rightarrow> node_row \<Rightarrow> graph \<Rightarrow> graph" where
  "cy_upsert_node l (i, ps, emb) g =
     g\<lparr>g_nodes := (g_nodes g)((l, i) \<mapsto> merged_node (g_nodes g (l, i)) ps emb)\<rparr>"

fun cy_merge_property :: "string \<Rightarrow> string \<times> props \<Rightarrow> graph \<Rightarrow> graph" where
  "cy_merge_property l (i, ps) g =
     (case g_nodes g (l, i) of
        None \<Rightarrow> g
      | Some m \<Rightarrow> g\<lparr>g_nodes := (g_nodes g)((l, i) \<mapsto> m ++ map_of ps)\<rparr>)"

definition cy_remove_property :: "string \<Rightarrow> string list \<Rightarrow> string \<Rightarrow> graph \<Rightarrow> graph" where
  "cy_remove_property l ks i g =
     (case g_nodes g (l, i) of
        None \<Rightarrow> g
      | Some m \<Rightarrow> g\<lparr>g_nodes := (g_nodes g)((l, i) \<mapsto> m |` (- set ks))\<rparr>)"

definition cy_delete_node :: "string \<Rightarrow> string \<Rightarrow> graph \<Rightarrow> graph" where
  "cy_delete_node l i g =
     (case g_nodes g (l, i) of
        None \<Rightarrow> g
      | Some _ \<Rightarrow>
          g\<lparr>g_nodes := (g_nodes g)((l, i) := None),
            g_edges := filter_mset (\<lambda>e. e_source e \<noteq> (l, i) \<and> e_target e \<noteq> (l, i)) (g_edges g)\<rparr>)"

definition edge_between :: "string \<Rightarrow> nodekey \<Rightarrow> nodekey \<Rightarrow> edge \<Rightarrow> bool" where
  "edge_between t s d e \<longleftrightarrow> e_type e = t \<and> e_source e = s \<and> e_target e = d"

definition edge_is :: "string \<Rightarrow> nodekey \<Rightarrow> nodekey \<Rightarrow> string \<Rightarrow> edge \<Rightarrow> bool" where
  "edge_is t s d i e \<longleftrightarrow> edge_between t s d e \<and> e_identity e = Some i"

fun cy_upsert_edge :: "string \<Rightarrow> string \<Rightarrow> string \<Rightarrow> edge_row \<Rightarrow> graph \<Rightarrow> graph" where
  "cy_upsert_edge t sl dl (si, ti, i, ps) g =
     (if g_nodes g (sl, si) = None \<or> g_nodes g (dl, ti) = None then g
      else if \<exists>e \<in># g_edges g. edge_is t (sl, si) (dl, ti) i e
      then g\<lparr>g_edges := image_mset (\<lambda>e. if edge_is t (sl, si) (dl, ti) i e
                                 then e\<lparr>e_props := e_props e ++ map_of ps\<rparr> else e) (g_edges g)\<rparr>
      else g\<lparr>g_edges := add_mset
              \<lparr>e_type = t, e_source = (sl, si), e_target = (dl, ti), e_identity = Some i,
                e_props = map_of ps\<rparr> (g_edges g)\<rparr>)"

fun cy_delete_edge :: "string \<Rightarrow> string \<Rightarrow> string \<Rightarrow> edge_id_row \<Rightarrow> graph \<Rightarrow> graph" where
  "cy_delete_edge t sl dl (si, ti, i) g =
     g\<lparr>g_edges := filter_mset (\<lambda>e. \<not> edge_is t (sl, si) (dl, ti) i e) (g_edges g)\<rparr>"

fun cy_stamp_edge :: "string \<Rightarrow> string \<Rightarrow> string \<Rightarrow> edge_id_row \<Rightarrow> graph \<Rightarrow> graph" where
  "cy_stamp_edge t sl dl (si, ti, i) g =
     g\<lparr>g_edges := image_mset (\<lambda>e. if edge_between t (sl, si) (dl, ti) e \<and> e_identity e = None
                           then e\<lparr>e_identity := Some i\<rparr> else e) (g_edges g)\<rparr>"

fun exec_statement :: "statement \<Rightarrow> graph \<Rightarrow> graph" where
  "exec_statement (NodeUpserts l rows) g = run_ops (cy_upsert_node l) rows g"
| "exec_statement (PropertyMerges l rows) g = run_ops (cy_merge_property l) rows g"
| "exec_statement (PropertyRemovals l ks ids) g = run_ops (cy_remove_property l ks) ids g"
| "exec_statement (NodeDeletes l ids) g = run_ops (cy_delete_node l) ids g"
| "exec_statement (EdgeUpserts t sl dl rows) g = run_ops (cy_upsert_edge t sl dl) rows g"
| "exec_statement (EdgeDeletes t sl dl rows) g = run_ops (cy_delete_edge t sl dl) rows g"
| "exec_statement (EdgeStamps t sl dl rows) g = run_ops (cy_stamp_edge t sl dl) rows g"

section \<open>The effect of one primitive\<close>

text \<open>
  What each primitive promises, independent of batching: one row of its own template. The applier is
  shown against this.
\<close>

fun apply_primitive :: "primitive \<Rightarrow> graph \<Rightarrow> graph" where
  "apply_primitive (UpsertNode l i ps e) = cy_upsert_node l (i, ps, e)"
| "apply_primitive (MergeProperty l i ps) = cy_merge_property l (i, ps)"
| "apply_primitive (RemoveProperty l i ks) = cy_remove_property l ks i"
| "apply_primitive (DeleteNode l i) = cy_delete_node l i"
| "apply_primitive (UpsertEdge t i s d ps) =
     cy_upsert_edge t (ref_label s) (ref_label d) (ref_id s, ref_id d, i, ps)"
| "apply_primitive (DeleteEdge t i s d) =
     cy_delete_edge t (ref_label s) (ref_label d) (ref_id s, ref_id d, i)"
| "apply_primitive (StampEdgeIdentity t i s d) =
     cy_stamp_edge t (ref_label s) (ref_label d) (ref_id s, ref_id d, i)"

abbreviation apply_all :: "primitive list \<Rightarrow> graph \<Rightarrow> graph" where
  "apply_all \<equiv> run_ops apply_primitive"

lemma ref_key_pair [simp]: "(ref_label r, ref_id r) = ref_key r"
  by (simp add: ref_key_def)

end
