(* ===== verification/Row_Laws.thy ===== *)
theory Row_Laws
  imports Graph_Store
begin

text \<open>
  The algebra of the rows the gateway's Cypher templates process: which of them absorb an earlier run of
  themselves, which commute, and how an edge upsert decomposes into creating the keyed edge and merging
  its properties. Every component that batches, repeats or reorders rows rests on these laws.
\<close>

section \<open>Rows run twice\<close>

lemma map_add_again: "((m ++ map_of ps) ++ n) ++ map_of ps = (m ++ n) ++ map_of ps"
  by (rule ext) (simp add: map_add_def split: option.splits)

lemma map_add_twice [simp]: "(m ++ map_of ps) ++ map_of ps = m ++ map_of ps"
  using map_add_again [of m ps Map.empty] by simp

lemma merged_node_again:
  "merged_node (Some (merged_node (Some (merged_node old ps e)) ps' e')) ps e
   = merged_node (Some (merged_node old ps' e')) ps e"
  by (rule ext) (auto simp: merged_node_def Let_def map_add_def split: option.splits)

lemma merged_node_twice [simp]:
  "merged_node (Some (merged_node old ps e)) ps e = merged_node old ps e"
  by (rule ext) (auto simp: merged_node_def Let_def map_add_def split: option.splits)

lemma upsert_node_again:
  "cy_upsert_node l r (cy_upsert_node l' r' (cy_upsert_node l r g))
   = cy_upsert_node l r (cy_upsert_node l' r' g)"
  by (cases r; cases r') (auto simp: merged_node_again fun_upd_twist)

lemma merge_property_again:
  "cy_merge_property l r (cy_merge_property l r' (cy_merge_property l r g))
   = cy_merge_property l r (cy_merge_property l r' g)"
  by (cases r; cases r') (auto simp: map_add_again fun_upd_twist split: option.splits)

lemma remove_property_again:
  "cy_remove_property l ks i (cy_remove_property l ks i' (cy_remove_property l ks i g))
   = cy_remove_property l ks i (cy_remove_property l ks i' g)"
  by (auto simp: cy_remove_property_def fun_upd_twist split: option.splits)

lemma delete_node_again:
  "cy_delete_node l i (cy_delete_node l i' (cy_delete_node l i g))
   = cy_delete_node l i (cy_delete_node l i' g)"
  by (auto simp: cy_delete_node_def fun_upd_twist filter_filter_mset conj_commute conj_left_commute
      split: option.splits)

lemma delete_edge_again:
  "cy_delete_edge t sl dl r (cy_delete_edge t sl dl r' (cy_delete_edge t sl dl r g))
   = cy_delete_edge t sl dl r (cy_delete_edge t sl dl r' g)"
  by (cases r; cases r')
    (auto simp: filter_filter_mset
      intro!: arg_cong [where f = "\<lambda>es. g\<lparr>g_edges := es\<rparr>"] filter_mset_cong)

lemma stamp_edge_settled:
  "cy_stamp_edge t sl dl r (cy_stamp_edge t sl dl r' (cy_stamp_edge t sl dl r g))
   = cy_stamp_edge t sl dl r' (cy_stamp_edge t sl dl r g)"
  by (cases r; cases r')
    (auto simp: multiset.map_comp edge_between_def
      intro!: arg_cong [where f = "\<lambda>es. g\<lparr>g_edges := es\<rparr>"] multiset.map_cong0)

text \<open>
  An edge upsert is in two moves: make sure an edge with the key is there, then merge the properties
  into every edge with the key.
\<close>

type_synonym edgekey = "string \<times> nodekey \<times> nodekey \<times> string option"

definition edge_key :: "edge \<Rightarrow> edgekey" where
  "edge_key e = (e_type e, e_source e, e_target e, e_identity e)"

definition bare_edge :: "edgekey \<Rightarrow> edge" where
  "bare_edge k = (case k of (t, s, d, i) \<Rightarrow>
     \<lparr>e_type = t, e_source = s, e_target = d, e_identity = i, e_props = Map.empty\<rparr>)"

definition ensure_edge :: "edgekey \<Rightarrow> edge multiset \<Rightarrow> edge multiset" where
  "ensure_edge k es = (if k \<in># image_mset edge_key es then es else add_mset (bare_edge k) es)"

definition merge_edge :: "edgekey \<Rightarrow> props \<Rightarrow> edge \<Rightarrow> edge" where
  "merge_edge k ps e = (if edge_key e = k then e\<lparr>e_props := e_props e ++ map_of ps\<rparr> else e)"

definition put_edge :: "edgekey \<Rightarrow> props \<Rightarrow> edge multiset \<Rightarrow> edge multiset" where
  "put_edge k ps es = image_mset (merge_edge k ps) (ensure_edge k es)"

lemma edge_is_key: "edge_is t s d i e \<longleftrightarrow> edge_key e = (t, s, d, Some i)"
  by (auto simp: edge_is_def edge_between_def edge_key_def)

lemma edge_key_props [simp]: "edge_key (e\<lparr>e_props := m\<rparr>) = edge_key e"
  by (simp add: edge_key_def)

lemma edge_key_bare [simp]: "edge_key (bare_edge k) = k"
  by (cases k) (simp add: edge_key_def bare_edge_def)

lemma edge_key_merge [simp]: "edge_key (merge_edge k ps e) = edge_key e"
  by (simp add: merge_edge_def)

lemma merge_edge_other: "edge_key e \<noteq> k \<Longrightarrow> merge_edge k ps e = e"
  by (simp add: merge_edge_def)

lemma keys_merge [simp]:
  "image_mset edge_key (image_mset (merge_edge k ps) es) = image_mset edge_key es"
  by (simp add: multiset.map_comp comp_def)

lemma merge_edge_bare: "merge_edge k ps (bare_edge k) = (bare_edge k)\<lparr>e_props := map_of ps\<rparr>"
  by (cases k) (simp add: merge_edge_def bare_edge_def edge_key_def)

lemma merge_edge_twice [simp]: "merge_edge k ps (merge_edge k ps e) = merge_edge k ps e"
  by (simp add: merge_edge_def)

lemma merge_edge_again:
  "merge_edge k ps (merge_edge k qs (merge_edge k ps e)) = merge_edge k ps (merge_edge k qs e)"
  by (simp add: merge_edge_def map_add_again)

lemma put_edge_new:
  "k \<notin># image_mset edge_key es \<Longrightarrow>
     put_edge k ps es = add_mset ((bare_edge k)\<lparr>e_props := map_of ps\<rparr>) es"
proof -
  assume new: "k \<notin># image_mset edge_key es"
  then have "image_mset (merge_edge k ps) es = image_mset (\<lambda>e. e) es"
    by (intro multiset.map_cong0 merge_edge_other) auto
  with new show ?thesis by (simp add: put_edge_def ensure_edge_def merge_edge_bare)
qed

lemma put_edge_old:
  "k \<in># image_mset edge_key es \<Longrightarrow> put_edge k ps es = image_mset (merge_edge k ps) es"
  by (simp add: put_edge_def ensure_edge_def)

lemma put_edge_keys: "k \<in># image_mset edge_key (put_edge k ps es)"
  by (simp add: put_edge_def ensure_edge_def del: in_image_mset)

lemma cy_upsert_edge_put:
  "cy_upsert_edge t sl dl (si, ti, i, ps) g =
     (if g_nodes g (sl, si) = None \<or> g_nodes g (dl, ti) = None then g
      else g\<lparr>g_edges := put_edge (t, (sl, si), (dl, ti), Some i) ps (g_edges g)\<rparr>)"
proof -
  have "(\<exists>e \<in># g_edges g. edge_is t (sl, si) (dl, ti) i e)
      \<longleftrightarrow> (t, (sl, si), (dl, ti), Some i) \<in># image_mset edge_key (g_edges g)"
    by (force simp: edge_is_key)
  then show ?thesis
    by (simp add: put_edge_new put_edge_old bare_edge_def edge_is_key merge_edge_def [abs_def]
        del: in_image_mset)
qed

lemma put_edge_commute:
  assumes "k \<noteq> k'"
  shows "put_edge k ps (put_edge k' qs es) = put_edge k' qs (put_edge k ps es)"
proof -
  have ensure: "ensure_edge j (image_mset (merge_edge j' rs) es)
      = image_mset (merge_edge j' rs) (ensure_edge j es)" if "j \<noteq> j'" for j j' rs es
    using that by (simp add: ensure_edge_def merge_edge_other del: in_image_mset)
  have "merge_edge k ps (merge_edge k' qs e) = merge_edge k' qs (merge_edge k ps e)" for e
    using assms by (simp add: merge_edge_def)
  then have merge: "image_mset (merge_edge k ps) (image_mset (merge_edge k' qs) es)
      = image_mset (merge_edge k' qs) (image_mset (merge_edge k ps) es)" for es
    by (simp add: multiset.map_comp comp_def)
  have "ensure_edge k (ensure_edge k' es) = ensure_edge k' (ensure_edge k es)"
    using assms by (auto simp: ensure_edge_def add_mset_commute)
  with assms show ?thesis by (simp add: put_edge_def ensure merge)
qed

lemma put_edge_twice: "put_edge k ps (put_edge k ps es) = put_edge k ps es"
  unfolding put_edge_old [OF put_edge_keys] by (simp add: put_edge_def multiset.map_comp comp_def)

lemma put_edge_again:
  "put_edge k ps (put_edge k' qs (put_edge k ps es)) = put_edge k ps (put_edge k' qs es)"
proof (cases "k = k'")
  case True
  have over: "put_edge k' as (put_edge k' bs es)
      = image_mset (merge_edge k' as) (put_edge k' bs es)" for as bs es
    by (rule put_edge_old [OF put_edge_keys])
  have "put_edge k' ps (put_edge k' qs (put_edge k' ps es))
      = image_mset (merge_edge k' ps) (image_mset (merge_edge k' qs) (put_edge k' ps es))"
    by (subst over [of ps qs "put_edge k' ps es"]) (simp only: over [of qs ps])
  also have "\<dots> = image_mset (merge_edge k' ps) (put_edge k' qs es)"
    by (simp add: put_edge_def multiset.map_comp comp_def merge_edge_again)
  finally show ?thesis by (simp add: True over)
next
  case False
  then show ?thesis by (simp add: put_edge_commute [of k k'] put_edge_twice)
qed

lemma upsert_edge_again:
  "cy_upsert_edge t sl dl r (cy_upsert_edge t sl dl r' (cy_upsert_edge t sl dl r g))
   = cy_upsert_edge t sl dl r (cy_upsert_edge t sl dl r' g)"
proof -
  obtain si ti i ps sj tj j qs where "r = (si, ti, i, ps)" "r' = (sj, tj, j, qs)"
    by (cases r; cases r')
  then show ?thesis
    by (auto simp: cy_upsert_edge_put put_edge_again put_edge_twice simp del: cy_upsert_edge.simps)
qed

lemma upsert_edge_twice: "cy_upsert_edge t sl dl r (cy_upsert_edge t sl dl r g) = cy_upsert_edge t sl dl r g"
  by (cases r) (auto simp: cy_upsert_edge_put put_edge_twice simp del: cy_upsert_edge.simps)

lemma stamp_edge_twice: "cy_stamp_edge t sl dl r (cy_stamp_edge t sl dl r g) = cy_stamp_edge t sl dl r g"
  by (cases r)
    (auto simp: multiset.map_comp intro!: arg_cong [where f = "\<lambda>es. g\<lparr>g_edges := es\<rparr>"] multiset.map_cong0)

lemma upsert_node_commute:
  assumes "(l, fst r) \<noteq> (l', fst r')"
  shows "cy_upsert_node l r (cy_upsert_node l' r' g) = cy_upsert_node l' r' (cy_upsert_node l r g)"
proof -
  obtain i ps e j qs f where "r = (i, ps, e)" "r' = (j, qs, f)" by (cases r; cases r')
  with assms show ?thesis using fun_upd_twist [of "(l, i)" "(l', j)" "g_nodes g"] by auto
qed

lemma apply_primitive_twice: "apply_primitive p (apply_primitive p g) = apply_primitive p g"
  by (cases p)
    (auto simp: upsert_edge_twice stamp_edge_twice cy_remove_property_def cy_delete_node_def
      filter_filter_mset simp del: cy_upsert_edge.simps cy_stamp_edge.simps split: option.splits)

end
