(* ===== verification/Applier.thy ===== *)
theory Applier
  imports Row_Laws
begin

text \<open>
  Applying decoded log entries in batched runs (\<^verbatim>\<open>graph_gateway/applier.py\<close>). A call to
  \<^verbatim>\<open>apply_decoded\<close> is the list of steps it performs, in order: one query per chunk and the report of
  a run's last position once its queries are done. FalkorDB going away, or the process dying, cuts
  the list after any step. The lemmas show that a complete call has the effect of the entries one at a
  time, and that re-applying what lies beyond the last report repairs an incomplete one.
\<close>

type_synonym positioned = "nat \<times> primitive"

section \<open>Runs\<close>

fun op_of :: "primitive \<Rightarrow> string" where
  "op_of (UpsertNode _ _ _ _) = ''upsert_node''"
| "op_of (UpsertEdge _ _ _ _ _) = ''upsert_edge''"
| "op_of (MergeProperty _ _ _) = ''merge_property''"
| "op_of (RemoveProperty _ _ _) = ''remove_property''"
| "op_of (DeleteNode _ _) = ''delete_node''"
| "op_of (DeleteEdge _ _ _ _) = ''delete_edge''"
| "op_of (StampEdgeIdentity _ _ _ _) = ''stamp_edge_identity''"

fun run_key :: "primitive \<Rightarrow> string list" where
  "run_key (UpsertNode l i ps e) = [op_of (UpsertNode l i ps e)]"
| "run_key (MergeProperty l i ps) = [op_of (MergeProperty l i ps), l]"
| "run_key (DeleteNode l i) = [op_of (DeleteNode l i), l]"
| "run_key (RemoveProperty l i ks) = op_of (RemoveProperty l i ks) # l # ks"
| "run_key (UpsertEdge t i s d ps) =
     [op_of (UpsertEdge t i s d ps), t, ref_label s, ref_label d]"
| "run_key (DeleteEdge t i s d) = [op_of (DeleteEdge t i s d), t, ref_label s, ref_label d]"
| "run_key (StampEdgeIdentity t i s d) =
     [op_of (StampEdgeIdentity t i s d), t, ref_label s, ref_label d]"

fun is_node_upsert :: "primitive \<Rightarrow> bool" where
  "is_node_upsert (UpsertNode _ _ _ _) = True"
| "is_node_upsert _ = False"

text \<open>\<open>None\<close> is the \<^verbatim>\<open>TypeError\<close> of \<^verbatim>\<open>_node_of\<close>.\<close>

fun node_of :: "primitive \<Rightarrow> nodekey option" where
  "node_of (UpsertNode l i _ _) = Some (l, i)"
| "node_of _ = None"

fun split_from ::
    "positioned list \<Rightarrow> nodekey set \<Rightarrow> positioned list \<Rightarrow> positioned list list option" where
  "split_from part seen [] = Some [part]"
| "split_from part seen (item # run) =
     (case node_of (snd item) of
        None \<Rightarrow> None
      | Some node \<Rightarrow>
          if node \<in> seen then map_option ((#) part) (split_from [item] {node} run)
          else split_from (part @ [item]) (insert node seen) run)"

definition split_at_repeated_nodes :: "positioned list \<Rightarrow> positioned list list option" where
  "split_at_repeated_nodes run = split_from [] {} run"

fun join_runs :: "positioned list list \<Rightarrow> positioned list list option" where
  "join_runs [] = Some []"
| "join_runs (run # rest) =
     (case (if is_node_upsert (snd (hd run)) then split_at_repeated_nodes run else Some [run]) of
        None \<Rightarrow> None
      | Some parts \<Rightarrow> map_option ((@) parts) (join_runs rest))"

definition runs :: "positioned list \<Rightarrow> positioned list list option" where
  "runs decoded = join_runs (groupby (\<lambda>item. run_key (snd item)) decoded)"

fun label_of :: "primitive \<Rightarrow> string" where
  "label_of (UpsertNode l _ _ _) = l"
| "label_of _ = ''''"

definition chunks_of_run :: "nat \<Rightarrow> positioned list \<Rightarrow> positioned list list" where
  "chunks_of_run n run =
     concat (map (\<lambda>(_, members). chunks_of n members)
       (group_by_key (\<lambda>item. label_of (snd item)) run))"

section \<open>Steps\<close>

fun chunk_statement :: "primitive \<Rightarrow> primitive list \<Rightarrow> (gateway_error, statement) result" where
  "chunk_statement (UpsertNode l _ _ _) chunk =
     bind_result (query_node_label l) (\<lambda>_. Inr (NodeUpserts l (upsert_node_rows chunk)))"
| "chunk_statement (MergeProperty l _ _) chunk =
     bind_result (query_node_label l) (\<lambda>_. Inr (PropertyMerges l (merge_property_rows chunk)))"
| "chunk_statement (RemoveProperty l _ ks) chunk =
     bind_result (remove_property_query l ks)
       (\<lambda>_. Inr (PropertyRemovals l ks (removal_id_rows chunk)))"
| "chunk_statement (DeleteNode l _) chunk =
     bind_result (query_node_label l) (\<lambda>_. Inr (NodeDeletes l (deletion_id_rows chunk)))"
| "chunk_statement (UpsertEdge t _ s d _) chunk =
     bind_result (edge_text t (ref_label s) (ref_label d))
       (\<lambda>_. Inr (EdgeUpserts t (ref_label s) (ref_label d) (upsert_edge_rows chunk)))"
| "chunk_statement (DeleteEdge t _ s d) chunk =
     bind_result (edge_text t (ref_label s) (ref_label d))
       (\<lambda>_. Inr (EdgeDeletes t (ref_label s) (ref_label d) (delete_edge_rows chunk)))"
| "chunk_statement (StampEdgeIdentity t _ s d) chunk =
     bind_result (edge_text t (ref_label s) (ref_label d))
       (\<lambda>_. Inr (EdgeStamps t (ref_label s) (ref_label d) (stamp_edge_rows chunk)))"

datatype apply_step = Query statement | RunApplied nat | Refuse gateway_error | Ill_Typed

definition apply_chunk :: "primitive list \<Rightarrow> apply_step" where
  "apply_chunk chunk = (case chunk_statement (hd chunk) chunk of Inl e \<Rightarrow> Refuse e | Inr q \<Rightarrow> Query q)"

definition run_steps :: "nat \<Rightarrow> positioned list \<Rightarrow> apply_step list" where
  "run_steps n run =
     map (\<lambda>chunk. apply_chunk (map snd chunk)) (chunks_of_run n run) @ [RunApplied (fst (last run))]"

definition apply_steps :: "nat \<Rightarrow> positioned list \<Rightarrow> apply_step list" where
  "apply_steps n decoded =
     (case runs decoded of None \<Rightarrow> [Ill_Typed] | Some rs \<Rightarrow> concat (map (run_steps n) rs))"

text \<open>
  The graph and the applied marker, which follows the reports. A step that raises ends the call: the
  second component is what it raises (\<open>None\<close>: the last step was reached).
\<close>

record apply_state =
  a_graph :: graph
  a_marker :: nat

fun do_steps :: "apply_step list \<Rightarrow> apply_state \<Rightarrow> apply_state \<times> apply_step option" where
  "do_steps [] st = (st, None)"
| "do_steps (Query q # rest) st = do_steps rest (st\<lparr>a_graph := exec_statement q (a_graph st)\<rparr>)"
| "do_steps (RunApplied p # rest) st = do_steps rest (st\<lparr>a_marker := p\<rparr>)"
| "do_steps (failed # rest) st = (st, Some failed)"

definition apply_decoded ::
    "nat \<Rightarrow> positioned list \<Rightarrow> apply_state \<Rightarrow> apply_state \<times> apply_step option" where
  "apply_decoded n decoded st = do_steps (apply_steps n decoded) st"

text \<open>The same call cut short after \<open>k\<close> steps.\<close>

definition apply_cut :: "nat \<Rightarrow> nat \<Rightarrow> positioned list \<Rightarrow> apply_state \<Rightarrow> apply_state" where
  "apply_cut k n decoded st = fst (do_steps (take k (apply_steps n decoded)) st)"

section \<open>One query per chunk has the effect of its primitives\<close>

definition same_query :: "primitive \<Rightarrow> primitive \<Rightarrow> bool" where
  "same_query p q \<longleftrightarrow> run_key p = run_key q \<and> label_of p = label_of q"

definition sendable :: "primitive \<Rightarrow> bool" where
  "sendable p \<longleftrightarrow> listed_names p \<and> wf_primitive p"

lemma listed_label:
  "l \<in> allowed_node_labels \<Longrightarrow> query_node_label l = Inr l"
  by (simp add: query_node_label_def require_allowed_node_label_def require_safe_identifier_def
      allowed_labels_identifiers)

lemma listed_type:
  "t \<in> allowed_relationship_types \<Longrightarrow> query_relationship_type t = Inr t"
  by (simp add: query_relationship_type_def require_allowed_relationship_type_def
      require_safe_identifier_def allowed_types_identifiers)

lemma sendable_statement: "sendable p \<Longrightarrow> \<exists>q. chunk_statement p chunk = Inr q"
  by (cases p)
    (auto simp: sendable_def listed_names_def listed_label listed_type edge_text_def
      remove_property_query_def bind_result_Inr require_all_Inr removable_key_def
      require_safe_identifier_def wf_primitive_def list_all_iff split: if_splits)

lemma same_query_iff:
  "same_query p (UpsertNode l i ps e) \<longleftrightarrow> (\<exists>i' ps' e'. p = UpsertNode l i' ps' e')"
  "same_query p (MergeProperty l i ps) \<longleftrightarrow> (\<exists>i' ps'. p = MergeProperty l i' ps')"
  "same_query p (RemoveProperty l i ks) \<longleftrightarrow> (\<exists>i'. p = RemoveProperty l i' ks)"
  "same_query p (DeleteNode l i) \<longleftrightarrow> (\<exists>i'. p = DeleteNode l i')"
  "same_query p (UpsertEdge t i s d ps) \<longleftrightarrow>
     (\<exists>i' s' d' ps'. p = UpsertEdge t i' s' d' ps' \<and> ref_label s' = ref_label s
        \<and> ref_label d' = ref_label d)"
  "same_query p (DeleteEdge t i s d) \<longleftrightarrow>
     (\<exists>i' s' d'. p = DeleteEdge t i' s' d' \<and> ref_label s' = ref_label s
        \<and> ref_label d' = ref_label d)"
  "same_query p (StampEdgeIdentity t i s d) \<longleftrightarrow>
     (\<exists>i' s' d'. p = StampEdgeIdentity t i' s' d' \<and> ref_label s' = ref_label s
        \<and> ref_label d' = ref_label d)"
  by (cases p; auto simp: same_query_def)+

lemmas row_semantics =
  cy_upsert_node.simps cy_merge_property.simps cy_upsert_edge.simps cy_delete_edge.simps
  cy_stamp_edge.simps

lemma rows_effect:
  assumes "rows [] = []"
    and "\<And>p qs. p \<in> set chunk \<Longrightarrow> \<exists>r. rows (p # qs) = r # rows qs \<and> f r = apply_primitive p"
  shows "run_ops f (rows chunk) g = apply_all chunk g"
  using assms(2)
proof (induction chunk arbitrary: g)
  case (Cons p chunk)
  then obtain r where "rows (p # chunk) = r # rows chunk" "f r = apply_primitive p"
    by (meson list.set_intros(1))
  with Cons show ?case by simp
qed (simp add: assms(1))

lemma chunk_statement_effect:
  assumes "chunk_statement first chunk = Inr q" "\<forall>p \<in> set chunk. same_query p first"
  shows "exec_statement q g = apply_all chunk g"
proof (cases first)
  case (UpsertNode l i ps e)
  with assms(2) have "run_ops (cy_upsert_node l) (upsert_node_rows chunk) g = apply_all chunk g"
    by (intro rows_effect [of upsert_node_rows]) (fastforce simp: same_query_iff simp del: row_semantics)+
  with assms(1) UpsertNode show ?thesis by (auto simp: bind_result_Inr)
next
  case (MergeProperty l i ps)
  with assms(2) have "run_ops (cy_merge_property l) (merge_property_rows chunk) g = apply_all chunk g"
    by (intro rows_effect [of merge_property_rows]) (fastforce simp: same_query_iff simp del: row_semantics)+
  with assms(1) MergeProperty show ?thesis by (auto simp: bind_result_Inr)
next
  case (RemoveProperty l i ks)
  with assms(2) have "run_ops (cy_remove_property l ks) (removal_id_rows chunk) g = apply_all chunk g"
    by (intro rows_effect [of removal_id_rows]) (fastforce simp: same_query_iff simp del: row_semantics)+
  with assms(1) RemoveProperty show ?thesis by (auto simp: bind_result_Inr)
next
  case (DeleteNode l i)
  with assms(2) have "run_ops (cy_delete_node l) (deletion_id_rows chunk) g = apply_all chunk g"
    by (intro rows_effect [of deletion_id_rows]) (fastforce simp: same_query_iff simp del: row_semantics)+
  with assms(1) DeleteNode show ?thesis by (auto simp: bind_result_Inr)
next
  case (UpsertEdge t i s d ps)
  with assms(2) have "run_ops (cy_upsert_edge t (ref_label s) (ref_label d)) (upsert_edge_rows chunk) g = apply_all chunk g"
    by (intro rows_effect [of upsert_edge_rows]) (fastforce simp: same_query_iff simp del: row_semantics)+
  with assms(1) UpsertEdge show ?thesis by (auto simp: bind_result_Inr)
next
  case (DeleteEdge t i s d)
  with assms(2) have "run_ops (cy_delete_edge t (ref_label s) (ref_label d)) (delete_edge_rows chunk) g = apply_all chunk g"
    by (intro rows_effect [of delete_edge_rows]) (fastforce simp: same_query_iff simp del: row_semantics)+
  with assms(1) DeleteEdge show ?thesis by (auto simp: bind_result_Inr)
next
  case (StampEdgeIdentity t i s d)
  with assms(2) have "run_ops (cy_stamp_edge t (ref_label s) (ref_label d)) (stamp_edge_rows chunk) g = apply_all chunk g"
    by (intro rows_effect [of stamp_edge_rows]) (fastforce simp: same_query_iff simp del: row_semantics)+
  with assms(1) StampEdgeIdentity show ?thesis by (auto simp: bind_result_Inr)
qed

lemma apply_chunk_Query:
  assumes "chunk \<noteq> []" "\<forall>p \<in> set chunk. same_query p (hd chunk) \<and> sendable p"
  shows "\<exists>q. apply_chunk chunk = Query q \<and> (\<forall>g. exec_statement q g = apply_all chunk g)"
proof -
  from assms have "sendable (hd chunk)" by simp
  then obtain q where q: "chunk_statement (hd chunk) chunk = Inr q"
    using sendable_statement by blast
  with assms show ?thesis by (auto simp: apply_chunk_def intro: chunk_statement_effect)
qed

section \<open>Runs cut the entries in order\<close>

lemma split_from_correct:
  assumes "\<forall>item \<in> set run. is_node_upsert (snd item)"
    and "\<forall>item \<in> set part. is_node_upsert (snd item)"
    and "seen = {node. Some node \<in> (\<lambda>item. node_of (snd item)) ` set part}"
    and "distinct (map (\<lambda>item. node_of (snd item)) part)" "part = [] \<longrightarrow> run \<noteq> []"
  shows "\<exists>parts. split_from part seen run = Some parts \<and> concat parts = part @ run
    \<and> (\<forall>r \<in> set parts. r \<noteq> [] \<and> distinct (map (\<lambda>item. node_of (snd item)) r))"
  using assms
proof (induction run arbitrary: part seen)
  case (Cons item run)
  then obtain node where node: "node_of (snd item) = Some node"
    by (cases "snd item") auto
  show ?case
  proof (cases "node \<in> seen")
    case True
    with Cons.prems have "part \<noteq> []" by auto
    with Cons.IH [of "[item]" "{node}"] Cons.prems True node show ?thesis by auto
  next
    case False
    then have "\<exists>parts. split_from (part @ [item]) (insert node seen) run = Some parts
        \<and> concat parts = (part @ [item]) @ run
        \<and> (\<forall>r \<in> set parts. r \<noteq> [] \<and> distinct (map (\<lambda>item. node_of (snd item)) r))"
      using Cons.prems node by (intro Cons.IH) auto
    with False node show ?thesis by auto
  qed
qed auto

definition homogeneous :: "positioned list \<Rightarrow> bool" where
  "homogeneous run \<longleftrightarrow> (\<forall>x \<in> set run. \<forall>y \<in> set run. run_key (snd x) = run_key (snd y))"

definition good_run :: "positioned list \<Rightarrow> bool" where
  "good_run run \<longleftrightarrow>
     run \<noteq> [] \<and> homogeneous run
     \<and> (is_node_upsert (snd (hd run)) \<longrightarrow> distinct (map (\<lambda>item. node_of (snd item)) run))"

lemma same_key_upsert: "run_key p = run_key q \<Longrightarrow> is_node_upsert p = is_node_upsert q"
  by (cases p; cases q) auto

lemma homogeneous_subset: "homogeneous r \<Longrightarrow> set p \<subseteq> set r \<Longrightarrow> homogeneous p"
  unfolding homogeneous_def by blast

lemma homogeneous_upserts:
  "homogeneous r \<Longrightarrow> r \<noteq> [] \<Longrightarrow> is_node_upsert (snd (hd r)) \<Longrightarrow> \<forall>x \<in> set r. is_node_upsert (snd x)"
  unfolding homogeneous_def using same_key_upsert list.set_sel(1) by blast

lemma join_runs_correct:
  "\<forall>r \<in> set rs. r \<noteq> [] \<and> homogeneous r \<Longrightarrow>
     \<exists>parts. join_runs rs = Some parts \<and> concat parts = concat rs \<and> (\<forall>r \<in> set parts. good_run r)"
proof (induction rs)
  case (Cons r rs)
  then obtain parts where IH: "join_runs rs = Some parts" "concat parts = concat rs"
    "\<forall>r \<in> set parts. good_run r" by auto
  from Cons.prems have r: "r \<noteq> []" "homogeneous r" by auto
  show ?case
  proof (cases "is_node_upsert (snd (hd r))")
    case True
    from homogeneous_upserts [OF r(2,1) True] r(1) obtain ps where
      ps: "split_from [] {} r = Some ps" "concat ps = r"
        "\<forall>p \<in> set ps. p \<noteq> [] \<and> distinct (map (\<lambda>item. node_of (snd item)) p)"
      using split_from_correct [of r "[]" "{}"] by auto
    have "good_run p" if "p \<in> set ps" for p
    proof -
      from that ps have "set p \<subseteq> set r" by auto
      with that ps(3) r(2) show ?thesis by (auto simp: good_run_def intro: homogeneous_subset)
    qed
    with True IH ps show ?thesis by (auto simp: split_at_repeated_nodes_def)
  next
    case False
    with IH r show ?thesis by (auto simp: good_run_def)
  qed
qed simp

lemma runs_correct:
  "\<exists>rs. runs decoded = Some rs \<and> concat rs = decoded \<and> (\<forall>r \<in> set rs. good_run r)"
proof -
  let ?rs = "groupby (\<lambda>item. run_key (snd item)) decoded"
  have "\<forall>r \<in> set ?rs. r \<noteq> [] \<and> homogeneous r"
  proof (intro ballI conjI)
    fix r assume r: "r \<in> set ?rs"
    then show "r \<noteq> []" by (rule groupby_nonempty)
    show "homogeneous r"
      unfolding homogeneous_def using groupby_same_key [OF r] by metis
  qed
  from join_runs_correct [OF this] show ?thesis by (simp add: runs_def)
qed

section \<open>Contracts of a run\<close>

text \<open>
  The primitives of one run, as operations that satisfy the prelude's contracts: all but identity stamps
  overwrite, stamps settle at their first row, and node upserts of distinct nodes commute. Primitives
  outside the run are mapped to the identity.
\<close>

fun is_stamp :: "primitive \<Rightarrow> bool" where
  "is_stamp (StampEdgeIdentity _ _ _ _) = True"
| "is_stamp _ = False"

definition write_run :: "string list \<Rightarrow> primitive \<Rightarrow> graph \<Rightarrow> graph" where
  "write_run k p g = (if run_key p = k \<and> \<not> is_stamp p then apply_primitive p g else g)"

definition stamp_run :: "string list \<Rightarrow> primitive \<Rightarrow> graph \<Rightarrow> graph" where
  "stamp_run k p g = (if run_key p = k \<and> is_stamp p then apply_primitive p g else g)"

definition upsert_run :: "primitive \<Rightarrow> graph \<Rightarrow> graph" where
  "upsert_run p g = (if is_node_upsert p then apply_primitive p g else g)"

lemma write_run_again:
  assumes "run_key p = run_key q" "\<not> is_stamp p"
  shows "apply_primitive p (apply_primitive q (apply_primitive p g))
    = apply_primitive p (apply_primitive q g)"
  using assms
  by (cases p; cases q)
    (simp_all add: upsert_node_again merge_property_again remove_property_again delete_node_again
      delete_edge_again upsert_edge_again del: row_semantics)

lemma same_key_stamp: "run_key p = run_key q \<Longrightarrow> is_stamp p = is_stamp q"
  by (cases p; cases q) auto

lemma upserts_commute:
  assumes "node_of p \<noteq> node_of q" "is_node_upsert p" "is_node_upsert q"
  shows "apply_primitive p (apply_primitive q g) = apply_primitive q (apply_primitive p g)"
  using assms by (cases p; cases q) (auto simp: upsert_node_commute simp del: row_semantics)

interpretation writes: overwriting_ops "write_run k" for k
proof
  fix p q g
  show "write_run k p (write_run k p g) = write_run k p g"
    by (simp add: write_run_def apply_primitive_twice)
  show "write_run k p (write_run k q (write_run k p g)) = write_run k p (write_run k q g)"
    by (simp add: write_run_def write_run_again apply_primitive_twice)
qed

interpretation stamps: first_wins_ops "stamp_run k" for k
proof
  fix p q g
  show "stamp_run k p (stamp_run k p g) = stamp_run k p g"
    by (simp add: stamp_run_def apply_primitive_twice)
  show "stamp_run k p (stamp_run k q (stamp_run k p g)) = stamp_run k q (stamp_run k p g)"
    by (cases p; cases q)
      (auto simp: stamp_run_def stamp_edge_settled stamp_edge_twice simp del: row_semantics)
qed

interpretation upserts: keyed_ops upsert_run node_of
  by unfold_locales (simp add: upsert_run_def upserts_commute)

lemma as_write_run:
  "\<forall>p \<in> set ps. run_key p = k \<and> \<not> is_stamp p \<Longrightarrow> apply_all ps g = run_ops (write_run k) ps g"
  by (rule run_ops_cong) (simp add: write_run_def)

lemma as_stamp_run:
  "\<forall>p \<in> set ps. run_key p = k \<and> is_stamp p \<Longrightarrow> apply_all ps g = run_ops (stamp_run k) ps g"
  by (rule run_ops_cong) (simp add: stamp_run_def)

lemma as_upsert_run:
  "\<forall>p \<in> set ps. is_node_upsert p \<Longrightarrow> apply_all ps g = run_ops upsert_run ps g"
  by (rule run_ops_cong) (simp add: upsert_run_def)

section \<open>The batches of a run\<close>

lemma chunks_of_run_mset: "mset (concat (chunks_of_run n run)) = mset run"
proof -
  have "concat (concat (map (\<lambda>(_, members). chunks_of n members) d)) = concat (map snd d)"
    for d :: "(string, positioned list) dict"
    by (induction d) auto
  then show ?thesis by (simp add: chunks_of_run_def mset_group_by_key)
qed

lemma chunks_of_run_single:
  assumes "good_run run" "\<not> is_node_upsert (snd (hd run))"
  shows "chunks_of_run n run = chunks_of n run"
proof -
  have "label_of (snd x) = ''''" if "x \<in> set run" for x
  proof -
    have "hd run \<in> set run" using assms by (simp add: good_run_def)
    with assms that have "run_key (snd x) = run_key (snd (hd run))"
      unfolding good_run_def homogeneous_def by blast
    with assms(2) have "\<not> is_node_upsert (snd x)" using same_key_upsert by blast
    then show ?thesis by (cases "snd x") auto
  qed
  with assms have "group_by_key (\<lambda>item. label_of (snd item)) run = [('''', run)]"
    by (intro group_by_key_single) (auto simp: good_run_def)
  then show ?thesis by (simp add: chunks_of_run_def)
qed

lemma chunk_of_run:
  assumes "homogeneous run" "c \<in> set (chunks_of_run n run)" "0 < n"
  shows "c \<noteq> [] \<and> length c \<le> n \<and> set c \<subseteq> set run
    \<and> (\<forall>p \<in> snd ` set c. same_query p (snd (hd c)))"
proof -
  from assms(2) obtain k members where
    m: "(k, members) \<in> set (group_by_key (\<lambda>item. label_of (snd item)) run)"
      "c \<in> set (chunks_of n members)"
    by (auto simp: chunks_of_run_def)
  have c: "c \<noteq> []" "length c \<le> n" using chunks_of_bound [OF m(2) assms(3)] by auto
  have "set c \<subseteq> set members" using chunks_of_all [OF m(2)] by blast
  then have label: "\<forall>x \<in> set c. label_of (snd x) = k"
    using group_by_key_keys [OF m(1)] by auto
  have "set c \<subseteq> set (concat (chunks_of_run n run))" using assms(2) by auto
  then have sub: "set c \<subseteq> set run" by (metis chunks_of_run_mset set_mset_mset)
  from c have "hd c \<in> set c" by simp
  have "same_query (snd x) (snd (hd c))" if "x \<in> set c" for x
    using assms(1) sub label that \<open>hd c \<in> set c\<close>
    unfolding same_query_def homogeneous_def by (metis subsetD)
  with c sub show ?thesis by auto
qed

lemma run_reordered:
  assumes "good_run run"
  shows "apply_all (map snd (concat (chunks_of_run n run))) g = apply_all (map snd run) g"
proof (cases "is_node_upsert (snd (hd run))")
  case False
  with assms show ?thesis by (simp add: chunks_of_run_single)
next
  case True
  have m: "mset (concat (chunks_of_run n run)) = mset run" by (rule chunks_of_run_mset)
  then have same_set: "set (concat (chunks_of_run n run)) = set run" by (metis set_mset_mset)
  have ups: "\<forall>x \<in> set run. is_node_upsert (snd x)"
    using assms True homogeneous_upserts by (auto simp: good_run_def)
  have "apply_all (map snd run) g = run_ops upsert_run (map snd run) g"
    using ups by (intro as_upsert_run) auto
  also have "\<dots> = run_ops upsert_run (map snd (concat (chunks_of_run n run))) g"
    using assms True m
    by (intro upserts.reorder) (simp_all add: good_run_def comp_def)
  also have "\<dots> = apply_all (map snd (concat (chunks_of_run n run))) g"
    using ups same_set by (intro as_upsert_run [symmetric]) auto
  finally show ?thesis by simp
qed

lemma run_repeated:
  assumes "good_run run"
  shows "apply_all (map snd run) (apply_all (map snd (concat (take j (chunks_of_run n run)))) g)
    = apply_all (map snd run) g"
proof -
  let ?part = "concat (take j (chunks_of_run n run))"
  let ?k = "run_key (snd (hd run))"
  have hd_in: "hd run \<in> set run" using assms by (simp add: good_run_def)
  have key: "\<forall>x \<in> set run. run_key (snd x) = ?k"
    using assms hd_in unfolding good_run_def homogeneous_def by blast
  have "set ?part \<subseteq> set (concat (chunks_of_run n run))" by (auto dest: in_set_takeD)
  then have part: "set ?part \<subseteq> set run" by (metis chunks_of_run_mset set_mset_mset)
  show ?thesis
  proof (cases "is_stamp (snd (hd run))")
    case False
    with key have "\<forall>x \<in> set run. run_key (snd x) = ?k \<and> \<not> is_stamp (snd x)"
      using same_key_stamp by blast
    with part have all: "\<forall>p \<in> snd ` set run. run_key p = ?k \<and> \<not> is_stamp p"
      "\<forall>p \<in> snd ` set ?part. run_key p = ?k \<and> \<not> is_stamp p" by blast+
    have "apply_all (map snd run) h = run_ops (write_run ?k) (map snd run) h" for h
      using all(1) by (intro as_write_run) auto
    moreover have "apply_all (map snd ?part) g = run_ops (write_run ?k) (map snd ?part) g"
      using all(2) by (intro as_write_run) auto
    ultimately show ?thesis using part by (simp add: writes.absorb image_mono)
  next
    case True
    with key have "\<forall>x \<in> set run. run_key (snd x) = ?k \<and> is_stamp (snd x)"
      using same_key_stamp by blast
    with part have all: "\<forall>p \<in> snd ` set run. run_key p = ?k \<and> is_stamp p"
      "\<forall>p \<in> snd ` set ?part. run_key p = ?k \<and> is_stamp p" by blast+
    have "\<not> is_node_upsert (snd (hd run))" using True by (cases "snd (hd run)") auto
    with assms have "concat (chunks_of_run n run) = run" by (simp add: chunks_of_run_single)
    then have "run = ?part @ concat (drop j (chunks_of_run n run))"
      by (metis append_take_drop_id concat_append)
    then obtain more where run: "map snd run = map snd ?part @ more" by (metis map_append)
    have "apply_all (map snd run) h = run_ops (stamp_run ?k) (map snd run) h" for h
      using all(1) by (intro as_stamp_run) auto
    moreover have "apply_all (map snd ?part) g = run_ops (stamp_run ?k) (map snd ?part) g"
      using all(2) by (intro as_stamp_run) auto
    ultimately show ?thesis using stamps.resume [of ?k "map snd ?part" more g, folded run] by simp
  qed
qed

section \<open>The steps of a call\<close>

definition good_chunk :: "primitive list \<Rightarrow> bool" where
  "good_chunk c \<longleftrightarrow> c \<noteq> [] \<and> (\<forall>p \<in> set c. same_query p (hd c) \<and> sendable p)"

lemma do_steps_chunks:
  "\<forall>c \<in> set cs. good_chunk c \<Longrightarrow>
     do_steps (map apply_chunk cs @ later) st
     = do_steps later (st\<lparr>a_graph := apply_all (concat cs) (a_graph st)\<rparr>)"
proof (induction cs arbitrary: st)
  case (Cons c cs)
  then obtain q where "apply_chunk c = Query q" "\<forall>g. exec_statement q g = apply_all c g"
    using apply_chunk_Query [of c] by (auto simp: good_chunk_def)
  with Cons show ?case by simp
qed simp

lemma chunks_good:
  assumes "good_run run" "\<forall>x \<in> set run. sendable (snd x)" "0 < n" "c \<in> set (chunks_of_run n run)"
  shows "good_chunk (map snd c)"
proof -
  have "c \<noteq> []" "set c \<subseteq> set run" "\<forall>p \<in> snd ` set c. same_query p (snd (hd c))"
    using chunk_of_run [of run c n] assms by (auto simp: good_run_def)
  with assms(2) show ?thesis by (auto simp: good_chunk_def hd_map)
qed

lemma run_steps_all:
  assumes "good_run run" "\<forall>x \<in> set run. sendable (snd x)" "0 < n"
  shows "do_steps (run_steps n run @ later) st
    = do_steps later \<lparr>a_graph = apply_all (map snd run) (a_graph st), a_marker = fst (last run)\<rparr>"
proof -
  have "do_steps (map apply_chunk (map (map snd) (chunks_of_run n run))
          @ RunApplied (fst (last run)) # later) st
      = do_steps (RunApplied (fst (last run)) # later)
          (st\<lparr>a_graph := apply_all (concat (map (map snd) (chunks_of_run n run))) (a_graph st)\<rparr>)"
    using chunks_good [OF assms] by (intro do_steps_chunks) auto
  moreover have "apply_all (concat (map (map snd) (chunks_of_run n run))) (a_graph st)
      = apply_all (map snd run) (a_graph st)"
    using run_reordered [OF assms(1)] by (simp add: map_concat)
  ultimately show ?thesis by (cases st) (simp add: run_steps_def comp_def)
qed

lemma run_steps_cut:
  assumes "good_run run" "\<forall>x \<in> set run. sendable (snd x)" "0 < n"
    and "k < length (run_steps n run)"
  shows "do_steps (take k (run_steps n run)) st
    = (st\<lparr>a_graph := apply_all (map snd (concat (take k (chunks_of_run n run)))) (a_graph st)\<rparr>, None)"
proof -
  have "take k (run_steps n run) = map apply_chunk (take k (map (map snd) (chunks_of_run n run))) @ []"
    using assms(4) by (simp add: run_steps_def take_map)
  moreover have "do_steps (map apply_chunk (take k (map (map snd) (chunks_of_run n run))) @ []) st
      = do_steps [] (st\<lparr>a_graph :=
          apply_all (concat (take k (map (map snd) (chunks_of_run n run)))) (a_graph st)\<rparr>)"
    using chunks_good [OF assms(1-3)]
    by (intro do_steps_chunks) (auto simp: take_map dest!: in_set_takeD)
  ultimately show ?thesis by (simp add: take_map map_concat)
qed

text \<open>The entries that lie beyond a marker, and the marker left by a complete call.\<close>

definition beyond :: "nat \<Rightarrow> positioned list \<Rightarrow> positioned list" where
  "beyond m decoded = filter (\<lambda>(position, _). m < position) decoded"

definition ascending_after :: "nat \<Rightarrow> positioned list \<Rightarrow> bool" where
  "ascending_after m decoded \<longleftrightarrow>
     sorted_wrt (<) (map fst decoded) \<and> (\<forall>(position, _) \<in> set decoded. m < position)"

lemma beyond_all: "ascending_after m decoded \<Longrightarrow> beyond m decoded = decoded"
  by (auto simp: beyond_def ascending_after_def filter_id_conv)

lemma ascending_after_append:
  "ascending_after m (xs @ ys) \<Longrightarrow> xs \<noteq> [] \<Longrightarrow> ascending_after (fst (last xs)) ys"
  by (cases xs rule: rev_cases)
    (auto simp: ascending_after_def sorted_wrt_append)

lemma beyond_done:
  assumes "ascending_after m (xs @ ys)" "xs \<noteq> []" "fst (last xs) \<le> p"
  shows "beyond p (xs @ ys) = beyond p ys"
proof -
  have "fst x \<le> fst (last xs)" if "x \<in> set xs" for x
    using assms(1,2) that
    by (cases xs rule: rev_cases) (auto simp: ascending_after_def sorted_wrt_append less_imp_le)
  with assms(3) show ?thesis by (fastforce simp: beyond_def filter_empty_conv)
qed

lemma ascending_after_le:
  "ascending_after m decoded \<Longrightarrow> p \<in> insert m (fst ` set decoded) \<Longrightarrow> m \<le> p"
  by (fastforce simp: ascending_after_def)

lemma apply_runs_all:
  assumes "\<forall>r \<in> set rs. good_run r" "\<forall>x \<in> set (concat rs). sendable (snd x)" "0 < n"
  shows "do_steps (concat (map (run_steps n) rs)) st =
    (\<lparr>a_graph = apply_all (map snd (concat rs)) (a_graph st),
      a_marker = (if rs = [] then a_marker st else fst (last (concat rs)))\<rparr>, None)"
  using assms
proof (induction rs arbitrary: st)
  case (Cons r rs)
  then have "r \<noteq> []" by (simp add: good_run_def)
  moreover have "concat rs \<noteq> []" if "rs \<noteq> []"
    using that Cons.prems(1) by (cases rs) (auto simp: good_run_def)
  ultimately show ?case
    using Cons by (simp add: run_steps_all)
qed simp

lemma apply_runs_cut:
  assumes "\<forall>r \<in> set rs. good_run r" "\<forall>x \<in> set (concat rs). sendable (snd x)" "0 < n"
    and "ascending_after (a_marker st) (concat rs)"
  shows "let st' = fst (do_steps (take k (concat (map (run_steps n) rs))) st)
    in apply_all (map snd (beyond (a_marker st') (concat rs))) (a_graph st')
         = apply_all (map snd (concat rs)) (a_graph st)
       \<and> a_marker st' \<in> insert (a_marker st) (fst ` set (concat rs))"
  using assms
proof (induction rs arbitrary: st k)
  case Nil
  then show ?case by (simp add: beyond_def)
next
  case (Cons r rs)
  have good: "good_run r" "r \<noteq> []" "\<forall>x \<in> set r. sendable (snd x)"
    using Cons.prems(1,2) by (auto simp: good_run_def)
  show ?case
  proof (cases "k < length (run_steps n r)")
    case True
    with good Cons.prems(3,4) show ?thesis
      by (simp add: run_steps_cut beyond_all run_repeated [OF good(1)])
  next
    case False
    define st1 where
      "st1 = \<lparr>a_graph = apply_all (map snd r) (a_graph st), a_marker = fst (last r)\<rparr>"
    let ?k = "k - length (run_steps n r)"
    let ?st' = "fst (do_steps (take ?k (concat (map (run_steps n) rs))) st1)"
    have after: "ascending_after (a_marker st1) (concat rs)"
      using Cons.prems(4) good(2) by (simp add: st1_def ascending_after_append)
    have IH: "apply_all (map snd (beyond (a_marker ?st') (concat rs))) (a_graph ?st')
          = apply_all (map snd (concat rs)) (a_graph st1)"
        "a_marker ?st' \<in> insert (a_marker st1) (fst ` set (concat rs))"
      using Cons.IH [of st1 ?k] Cons.prems after by (simp_all add: Let_def)
    have "fst (last r) \<le> a_marker ?st'"
      using ascending_after_le [OF after IH(2)] by (simp add: st1_def)
    then have "beyond (a_marker ?st') (r @ concat rs) = beyond (a_marker ?st') (concat rs)"
      using Cons.prems(4) good(2) by (intro beyond_done) auto
    moreover have "do_steps (take k (concat (map (run_steps n) (r # rs)))) st
        = do_steps (take ?k (concat (map (run_steps n) rs))) st1"
      using False good Cons.prems(3) by (simp add: run_steps_all st1_def)
    moreover have "a_marker ?st' \<in> fst ` set (concat (r # rs))"
    proof -
      have "a_marker st1 \<in> fst ` set r" using good(2) by (simp add: st1_def)
      with IH(2) show ?thesis
        by (simp only: concat.simps set_append image_Un Un_iff) (elim insertE; simp)
    qed
    ultimately show ?thesis using IH(1) by (simp add: Let_def) (simp add: st1_def)
  qed
qed

section \<open>Properties\<close>

text \<open>
  C8. A call of \<^verbatim>\<open>apply_decoded\<close> that FalkorDB answers throughout leaves the graph exactly as the
  entries applied one at a time in log order, whatever the batch size, although a run of node upserts is
  regrouped by label; it raises nothing and its last report is the position of the last entry.
\<close>

theorem apply_decoded_sequential:
  assumes "\<forall>(position, p) \<in> set decoded. listed_names p \<and> wf_primitive p"
    and "0 < batch_size" and "decoded \<noteq> []"
  shows "apply_decoded batch_size decoded st =
    (\<lparr>a_graph = apply_all (map snd decoded) (a_graph st), a_marker = fst (last decoded)\<rparr>, None)"
proof -
  obtain rs where rs: "runs decoded = Some rs" "concat rs = decoded" "\<forall>r \<in> set rs. good_run r"
    using runs_correct by blast
  with assms have "\<forall>x \<in> set (concat rs). sendable (snd x)" by (auto simp: sendable_def)
  with apply_runs_all [OF rs(3) _ assms(2)] rs assms(3) show ?thesis
    by (auto simp: apply_decoded_def apply_steps_def)
qed

text \<open>
  C13. However early a call is cut off (an outage, a crash, a reply lost after the query ran), applying
  the entries beyond the marker the call left behind, in full and from their first, yields the graph the
  uninterrupted call would have left. The marker only ever names an entry of the call or keeps its value.
\<close>

theorem apply_decoded_resumable:
  assumes "\<forall>(position, p) \<in> set decoded. listed_names p \<and> wf_primitive p"
    and "0 < batch_size" and "ascending_after (a_marker st) decoded"
  shows "apply_all (map snd (beyond (a_marker (apply_cut k batch_size decoded st)) decoded))
      (a_graph (apply_cut k batch_size decoded st))
    = apply_all (map snd decoded) (a_graph st)
    \<and> a_marker (apply_cut k batch_size decoded st) \<in> insert (a_marker st) (fst ` set decoded)"
proof -
  obtain rs where rs: "runs decoded = Some rs" "concat rs = decoded" "\<forall>r \<in> set rs. good_run r"
    using runs_correct by blast
  with assms have "\<forall>x \<in> set (concat rs). sendable (snd x)" by (auto simp: sendable_def)
  from apply_runs_cut [OF rs(3) this assms(2), of st k] assms(3) rs show ?thesis
    by (simp add: apply_cut_def apply_steps_def Let_def)
qed

definition sample_entries :: "positioned list" where
  "sample_entries =
     [(4, UpsertNode ''Policy'' ''p1'' [(''status'', PStr ''draft'')] None),
      (5, UpsertNode ''Role'' ''r1'' [(''name'', PStr ''Owner''), (''rank'', PInt 3)] None),
      (6, UpsertNode ''Policy'' ''p1'' [(''status'', PStr ''approved'')] (Some [0x3FF0000000000000])),
      (7, UpsertEdge ''OWNS'' ''e1'' \<lparr>ref_label = ''Role'', ref_id = ''r1''\<rparr>
            \<lparr>ref_label = ''Policy'', ref_id = ''p1''\<rparr> [(''since'', PInt 2024)]),
      (8, RemoveProperty ''Role'' ''r1'' [''rank''])]"

lemma sample_entries_ok:
  "list_all (\<lambda>(position, p). listed_names p \<and> wf_primitive p) sample_entries"
  "ascending_after 3 sample_entries" "sample_entries \<noteq> []" "fst (last sample_entries) = 8"
  by code_simp+

theorem apply_decoded_sequential_witness:
  "apply_decoded 2 sample_entries \<lparr>a_graph = empty_graph, a_marker = 3\<rparr> =
    (\<lparr>a_graph = apply_all (map snd sample_entries) empty_graph, a_marker = 8\<rparr>, None)"
  using apply_decoded_sequential [of sample_entries 2 "\<lparr>a_graph = empty_graph, a_marker = 3\<rparr>"]
    sample_entries_ok by (simp add: list_all_iff)

theorem apply_decoded_resumable_witness:
  "let st = apply_cut 3 2 sample_entries \<lparr>a_graph = empty_graph, a_marker = 3\<rparr>
   in apply_all (map snd (beyond (a_marker st) sample_entries)) (a_graph st)
        = apply_all (map snd sample_entries) empty_graph
      \<and> a_marker st \<in> insert 3 (fst ` set sample_entries)"
  using apply_decoded_resumable
      [of sample_entries 2 "\<lparr>a_graph = empty_graph, a_marker = 3\<rparr>" 3] sample_entries_ok
  by (simp add: list_all_iff Let_def)

end
