(* ===== verification/Graph_Reader.thy ===== *)
theory Graph_Reader
  imports Row_Laws
begin

text \<open>
  The batched reads of the state a group names (\<^verbatim>\<open>graph_gateway/graph_reader.py\<close>) and the comparison
  of stored values (\<^verbatim>\<open>graph_gateway/noop_filter.py\<close>). Where a read matches several parallel edges, the
  order of the reply is FalkorDB's: the edge reads take the edges in some order, and every fact below
  holds for each order. The lemmas reduce the batched reads to plain lookups.
\<close>

type_synonym reader_key = "string \<times> nodekey \<times> nodekey \<times> string"

definition unidentified :: string where
  "unidentified = ''''"

definition state_read_chunk_rows :: nat where
  "state_read_chunk_rows = 100"

section \<open>Node reads\<close>

definition ids_by_label :: "nodekey list \<Rightarrow> (string, string list) dict" where
  "ids_by_label nodes = dict_map (map snd) (group_by_key fst (sorted_list_of_set (set nodes)))"

definition read_nodes :: "graph \<Rightarrow> nodekey list \<Rightarrow> nat \<Rightarrow> nodekey \<rightharpoonup> propmap" where
  "read_nodes g nodes batch_size =
     run_ops (\<lambda>(label, ids).
       run_ops (run_ops (\<lambda>i found.
           case g_nodes g (label, i) of
             None \<Rightarrow> found
           | Some ps \<Rightarrow> found((label, i) \<mapsto> ps)))
         (chunks_of (min batch_size state_read_chunk_rows) ids))
       (ids_by_label nodes) Map.empty"

definition read_existing_nodes :: "graph \<Rightarrow> nodekey list \<Rightarrow> nat \<Rightarrow> nodekey set" where
  "read_existing_nodes g nodes batch_size =
     run_ops (\<lambda>(label, ids).
       run_ops (run_ops (\<lambda>i found.
           if g_nodes g (label, i) = None then found else insert (label, i) found))
         (chunks_of batch_size ids))
       (ids_by_label nodes) {}"

section \<open>Edge reads\<close>

text \<open>The rows one \<open>(source id, target id, identity)\<close> matches, in reply order; the last one stays.\<close>

definition keep_last :: "'k \<Rightarrow> edge list \<Rightarrow> ('k \<rightharpoonup> propmap) \<Rightarrow> 'k \<rightharpoonup> propmap" where
  "keep_last key matches found = run_ops (\<lambda>e found. found(key \<mapsto> e_props e)) matches found"

fun edge_shape :: "reader_key \<Rightarrow> string \<times> string \<times> string" where
  "edge_shape (t, (sl, si), (dl, di), i) = (t, sl, dl)"

fun edge_member :: "reader_key \<Rightarrow> string \<times> string \<times> string" where
  "edge_member (t, (sl, si), (dl, di), i) = (si, di, i)"

fun edge_state_row ::
    "edge list \<Rightarrow> string \<times> string \<times> string \<Rightarrow> string \<times> string \<times> string
     \<Rightarrow> (reader_key \<rightharpoonup> propmap) \<Rightarrow> reader_key \<rightharpoonup> propmap" where
  "edge_state_row es (t, sl, dl) (si, di, i) found =
     keep_last (t, (sl, si), (dl, di), i) (filter (edge_is t (sl, si) (dl, di) i) es) found"

fun unidentified_state_row ::
    "edge list \<Rightarrow> string \<times> string \<times> string \<Rightarrow> string \<times> string \<times> string
     \<Rightarrow> (reader_key \<rightharpoonup> propmap) \<Rightarrow> reader_key \<rightharpoonup> propmap" where
  "unidentified_state_row es (t, sl, dl) (si, di, i) found =
     keep_last (t, (sl, si), (dl, di), unidentified)
       (filter (\<lambda>e. edge_between t (sl, si) (dl, di) e \<and> e_identity e = None) es) found"

definition edges_by_shape ::
    "reader_key list \<Rightarrow> (string \<times> string \<times> string, (string \<times> string \<times> string) list) dict" where
  "edges_by_shape edges =
     dict_map (map edge_member) (group_by_key edge_shape (sorted_list_of_set (set edges)))"

definition read_edges :: "edge list \<Rightarrow> reader_key list \<Rightarrow> nat \<Rightarrow> reader_key \<rightharpoonup> propmap" where
  "read_edges es edges batch_size =
     run_ops (\<lambda>(shape, members).
       run_ops (run_ops (edge_state_row es shape)) (chunks_of batch_size members))
       (edges_by_shape edges) Map.empty"

definition read_unidentified_edges ::
    "edge list \<Rightarrow> reader_key list \<Rightarrow> nat \<Rightarrow> reader_key \<rightharpoonup> propmap" where
  "read_unidentified_edges es edges batch_size =
     run_ops (\<lambda>(shape, members).
       run_ops (run_ops (unidentified_state_row es shape)) (chunks_of batch_size members))
       (edges_by_shape edges) Map.empty"

section \<open>Reads are lookups\<close>

lemma grouped_run:
  "run_ops (\<lambda>(k, members). run_ops (run_ops (f k)) (chunks_of n members))
     (dict_map (map val) (group_by_key key xs)) s
   = run_ops (\<lambda>x. f (key x) (val x)) (concat (map snd (group_by_key key xs))) s"
proof -
  have "run_ops (\<lambda>(k, members). run_ops (run_ops (f k)) (chunks_of n members))
      (dict_map (map val) d) s = run_ops (\<lambda>x. f (key x) (val x)) (concat (map snd d)) s"
    if "\<forall>(k, ys) \<in> set d. \<forall>y \<in> set ys. key y = k" for d s
    using that
  proof (induction d arbitrary: s)
    case (Cons e d)
    obtain k ys where e: "e = (k, ys)" by (cases e)
    with Cons.prems have "\<forall>y \<in> set ys. key y = k" by auto
    then have "run_ops (f k) (map val ys) s = run_ops (\<lambda>x. f (key x) (val x)) ys s"
      by (auto simp: run_ops_map intro!: run_ops_cong)
    moreover have "run_ops (run_ops (f k)) (chunks_of n (map val ys)) s = run_ops (f k) (map val ys) s"
      using run_ops_concat [of "f k" "chunks_of n (map val ys)" s] by simp
    ultimately show ?case using Cons by (simp add: dict_map_def e)
  qed (simp add: dict_map_def)
  then show ?thesis using group_by_key_keys by fast
qed

lemma grouped_set:
  fixes key :: "'a::linorder \<Rightarrow> 'k"
  shows "set (concat (map snd (group_by_key key (sorted_list_of_set (set xs))))) = set xs"
  by (metis List.finite_set mset_group_by_key set_mset_mset set_sorted_list_of_set)

lemma run_ops_fill:
  "run_ops (\<lambda>x found. case v x of None \<Rightarrow> found | Some y \<Rightarrow> found(x \<mapsto> y)) xs m k =
     (if k \<in> set xs \<and> v k \<noteq> None then v k else m k)"
  by (induction xs arbitrary: m) (auto split: option.splits)

lemma run_ops_collect:
  "run_ops (\<lambda>x found. if P x then found else insert x found) xs S = S \<union> {x \<in> set xs. \<not> P x}"
  by (induction xs arbitrary: S) auto

lemma read_nodes_lookup: "read_nodes g nodes n k = (if k \<in> set nodes then g_nodes g k else None)"
proof -
  let ?xs = "concat (map snd (group_by_key fst (sorted_list_of_set (set nodes))))"
  have "read_nodes g nodes n
      = run_ops (\<lambda>x found. case g_nodes g x of None \<Rightarrow> found | Some ps \<Rightarrow> found(x \<mapsto> ps)) ?xs Map.empty"
    unfolding read_nodes_def ids_by_label_def
    by (subst grouped_run) (auto intro!: run_ops_cong split: option.split)
  then show ?thesis using grouped_set [of fst nodes] by (simp add: run_ops_fill)
qed

lemma read_existing_nodes_lookup:
  "read_existing_nodes g nodes n = {k \<in> set nodes. g_nodes g k \<noteq> None}"
proof -
  let ?xs = "concat (map snd (group_by_key fst (sorted_list_of_set (set nodes))))"
  have "read_existing_nodes g nodes n
      = run_ops (\<lambda>x found. if g_nodes g x = None then found else insert x found) ?xs {}"
    unfolding read_existing_nodes_def ids_by_label_def
    by (subst grouped_run) (auto intro!: run_ops_cong split: if_split)
  then show ?thesis using grouped_set [of fst nodes] by (simp only: run_ops_collect) simp
qed

definition last_match :: "(edge \<Rightarrow> bool) \<Rightarrow> edge list \<Rightarrow> propmap option" where
  "last_match P es = (case filter P es of [] \<Rightarrow> None | xs \<Rightarrow> Some (e_props (last xs)))"

lemma keep_last_match:
  "keep_last key (filter P es) found =
     (case last_match P es of None \<Rightarrow> found | Some ps \<Rightarrow> found(key \<mapsto> ps))"
proof -
  have "xs \<noteq> [] \<Longrightarrow> keep_last key xs found = found(key \<mapsto> e_props (last xs))" for xs found
    by (induction xs arbitrary: found) (auto simp: keep_last_def)
  then show ?thesis by (auto simp: last_match_def keep_last_def split: list.splits)
qed

lemma last_match_None: "last_match P es = None \<longleftrightarrow> (\<forall>e \<in> set es. \<not> P e)"
  by (auto simp: last_match_def filter_empty_conv split: list.splits)
    (metis filter_empty_conv list.distinct(1))

lemma last_match_Some: "last_match P es = Some ps \<Longrightarrow> \<exists>e \<in> set es. P e \<and> e_props e = ps"
proof -
  assume l: "last_match P es = Some ps"
  then have "filter P es \<noteq> []" "ps = e_props (last (filter P es))"
    by (auto simp: last_match_def split: list.splits)
  with last_in_set [of "filter P es"] show ?thesis by auto
qed

fun key_matches :: "reader_key \<Rightarrow> edge \<Rightarrow> bool" where
  "key_matches (t, s, d, i) e = edge_is t s d i e"

fun legacy_matches :: "reader_key \<Rightarrow> edge \<Rightarrow> bool" where
  "legacy_matches (t, s, d, i) e = (edge_between t s d e \<and> e_identity e = None)"

lemma edge_state_row_key:
  "edge_state_row es (edge_shape k) (edge_member k) found =
     (case last_match (key_matches k) es of None \<Rightarrow> found | Some ps \<Rightarrow> found(k \<mapsto> ps))"
proof -
  obtain t sl si dl di i where k: "k = (t, (sl, si), (dl, di), i)" by (cases k) auto
  have "key_matches k = edge_is t (sl, si) (dl, di) i" by (rule ext) (simp add: k)
  then show ?thesis by (simp add: k keep_last_match split: option.split)
qed

lemma unidentified_state_row_key:
  assumes "k = (t, s, d, unidentified)"
  shows "unidentified_state_row es (edge_shape k) (edge_member k) found =
     (case last_match (legacy_matches k) es of None \<Rightarrow> found | Some ps \<Rightarrow> found(k \<mapsto> ps))"
proof -
  have "legacy_matches k = (\<lambda>e. edge_between t s d e \<and> e_identity e = None)"
    by (rule ext) (simp add: assms)
  with assms show ?thesis
    by (cases s; cases d) (simp add: keep_last_match split: option.split)
qed

lemma read_edges_lookup:
  "read_edges es edges n k = (if k \<in> set edges then last_match (key_matches k) es else None)"
proof -
  let ?xs = "concat (map snd (group_by_key edge_shape (sorted_list_of_set (set edges))))"
  have "read_edges es edges n
      = run_ops (\<lambda>x found. case last_match (key_matches x) es of
                            None \<Rightarrow> found | Some ps \<Rightarrow> found(x \<mapsto> ps)) ?xs Map.empty"
    unfolding read_edges_def edges_by_shape_def
    by (subst grouped_run, rule run_ops_cong, rule edge_state_row_key)
  then show ?thesis using grouped_set [of edge_shape edges] by (simp add: run_ops_fill)
qed

lemma read_unidentified_lookup:
  assumes "\<forall>(t, s, d, i) \<in> set edges. i = unidentified"
  shows "read_unidentified_edges es edges n k =
    (if k \<in> set edges then last_match (legacy_matches k) es else None)"
proof -
  let ?xs = "concat (map snd (group_by_key edge_shape (sorted_list_of_set (set edges))))"
  have xs: "set ?xs = set edges" by (rule grouped_set)
  have "read_unidentified_edges es edges n
      = run_ops (\<lambda>x found. case last_match (legacy_matches x) es of
                            None \<Rightarrow> found | Some ps \<Rightarrow> found(x \<mapsto> ps)) ?xs Map.empty"
    unfolding read_unidentified_edges_def edges_by_shape_def
  proof (subst grouped_run, rule run_ops_cong)
    fix k found assume "k \<in> set ?xs"
    with xs assms obtain t s d where "k = (t, s, d, unidentified)" by blast
    then show "unidentified_state_row es (edge_shape k) (edge_member k) found =
        (case last_match (legacy_matches k) es of None \<Rightarrow> found | Some ps \<Rightarrow> found(k \<mapsto> ps))"
      by (rule unidentified_state_row_key)
  qed
  then show ?thesis using xs by (simp add: run_ops_fill)
qed

end
