(* ===== verification/Noop_Filter.thy ===== *)
theory Noop_Filter
  imports Graph_Reader
begin

text \<open>
  Dropping the mutations of a group that would not change the graph
  (\<^verbatim>\<open>graph_gateway/noop_filter.py\<close>): the overlay a group is walked over, and its refinement of the graph
  itself. The lemmas show that the walk rejects exactly at the first primitive whose target is
  missing, keeps exactly the primitives that change the graph at their turn, and so that logging only
  those leaves the same graph.
\<close>

section \<open>Comparing stored values\<close>

fun as_sequence :: "pyval \<Rightarrow> pyval list option" where
  "as_sequence (PList vs) = Some vs"
| "as_sequence (PTuple vs) = Some vs"
| "as_sequence _ = None"

text \<open>\<open>left.hex() == right.hex()\<close>: every NaN prints as \<^verbatim>\<open>nan\<close>, any other float by its bits.\<close>

definition same_hex :: "f64 \<Rightarrow> f64 \<Rightarrow> bool" where
  "same_hex v w \<longleftrightarrow> v = w \<or> (f64_isnan v \<and> f64_isnan w)"

function same_value :: "pyval \<Rightarrow> pyval \<Rightarrow> bool" where
  "same_value left right =
     (case (as_sequence left, as_sequence right) of
        (Some vs, Some ws) \<Rightarrow> length vs = length ws \<and> list_all (\<lambda>(v, w). same_value v w) (zip vs ws)
      | _ \<Rightarrow>
          (case (left, right) of
             (PFloat v, PFloat w) \<Rightarrow> same_hex v w
           | _ \<Rightarrow> py_type left = py_type right \<and> left = right))"
  by pat_completeness auto
termination
proof (relation "measure (\<lambda>(left, right). size left)")
  fix left right x y vs ws z v w
  assume "(x, y) = (as_sequence left, as_sequence right)" "x = Some vs" "y = Some ws"
    "z \<in> set (zip vs ws)" "(v, w) = z"
  then have "v \<in> set vs" "left = PList vs \<or> left = PTuple vs"
    by (cases left; auto dest: set_zip_leftD)+
  then show "((v, w), left, right) \<in> measure (\<lambda>(left, right). size left)"
    by (auto simp: less_Suc_eq_le size_list_estimation')
qed simp

declare same_value.simps [simp del]

definition already_holds :: "propmap \<Rightarrow> props \<Rightarrow> bool" where
  "already_holds current wanted \<longleftrightarrow>
     list_all (\<lambda>(key, v). case current key of None \<Rightarrow> False | Some c \<Rightarrow> same_value c v) wanted"

section \<open>What a group names\<close>

fun edge_key_of :: "primitive \<Rightarrow> reader_key option" where
  "edge_key_of (UpsertEdge t i s d _) = Some (t, ref_key s, ref_key d, i)"
| "edge_key_of (DeleteEdge t i s d) = Some (t, ref_key s, ref_key d, i)"
| "edge_key_of (StampEdgeIdentity t i s d) = Some (t, ref_key s, ref_key d, i)"
| "edge_key_of _ = None"

fun acted_on :: "primitive \<Rightarrow> nodekey list" where
  "acted_on (UpsertNode l i _ _) = [(l, i)]"
| "acted_on (MergeProperty l i _) = [(l, i)]"
| "acted_on (RemoveProperty l i _) = [(l, i)]"
| "acted_on (DeleteNode l i) = [(l, i)]"
| "acted_on _ = []"

fun endpoints :: "primitive \<Rightarrow> nodekey list" where
  "endpoints (UpsertEdge _ _ s d _) = [ref_key s, ref_key d]"
| "endpoints (DeleteEdge _ _ s d) = [ref_key s, ref_key d]"
| "endpoints _ = []"

fun named_edges :: "primitive \<Rightarrow> reader_key list" where
  "named_edges (UpsertEdge t i s d _) = [(t, ref_key s, ref_key d, i)]"
| "named_edges (DeleteEdge t i s d) = [(t, ref_key s, ref_key d, i)]"
| "named_edges _ = []"

fun stamped_edges :: "primitive \<Rightarrow> reader_key list" where
  "stamped_edges (StampEdgeIdentity t i s d) = [(t, ref_key s, ref_key d, unidentified)]"
| "stamped_edges _ = []"

definition over :: "('p \<Rightarrow> 'k list) \<Rightarrow> 'p list \<Rightarrow> 'k list" where
  "over f ps = concat (map f ps)"

section \<open>The overlay\<close>

record overlay =
  ov_nodes :: "nodekey \<rightharpoonup> propmap"
  ov_edges :: "reader_key \<rightharpoonup> propmap"

definition wanted_node :: "props \<Rightarrow> f64 list option \<Rightarrow> props" where
  "wanted_node ps emb =
     (case emb of None \<Rightarrow> ps | Some ws \<Rightarrow> AList.update embedding_key (float_list ws) ps)"

definition require_node :: "nat \<Rightarrow> nodekey \<Rightarrow> overlay \<Rightarrow> (gateway_error, propmap) result" where
  "require_node index key ov =
     (case ov_nodes ov key of None \<Rightarrow> Inl (MissingTargetError index) | Some ps \<Rightarrow> Inr ps)"

definition ov_upsert_node ::
    "string \<Rightarrow> string \<Rightarrow> props \<Rightarrow> f64 list option \<Rightarrow> overlay \<Rightarrow> overlay \<times> bool" where
  "ov_upsert_node l i ps emb ov =
     (let wanted = wanted_node ps emb; current = ov_nodes ov (l, i)
      in if current \<noteq> None \<and> already_holds (the current) wanted then (ov, False)
         else (ov\<lparr>ov_nodes := (ov_nodes ov)((l, i) \<mapsto>
                 (case current of None \<Rightarrow> Map.empty | Some m \<Rightarrow> m) ++ map_of wanted)\<rparr>, True))"

definition ov_merge_property ::
    "nat \<Rightarrow> string \<Rightarrow> string \<Rightarrow> props \<Rightarrow> overlay \<Rightarrow> (gateway_error, overlay \<times> bool) result" where
  "ov_merge_property index l i ps ov =
     bind_result (require_node index (l, i) ov) (\<lambda>current.
       if already_holds current ps then Inr (ov, False)
       else Inr (ov\<lparr>ov_nodes := (ov_nodes ov)((l, i) \<mapsto> current ++ map_of ps)\<rparr>, True))"

definition ov_remove_property :: "string \<Rightarrow> string \<Rightarrow> string list \<Rightarrow> overlay \<Rightarrow> overlay \<times> bool" where
  "ov_remove_property l i ks ov =
     (case ov_nodes ov (l, i) of
        None \<Rightarrow> (ov, False)
      | Some current \<Rightarrow>
          (let present = filter (\<lambda>k. current k \<noteq> None) ks
           in (ov\<lparr>ov_nodes := (ov_nodes ov)((l, i) \<mapsto> current |` (- set present))\<rparr>, present \<noteq> [])))"

definition ov_delete_node :: "string \<Rightarrow> string \<Rightarrow> overlay \<Rightarrow> overlay \<times> bool" where
  "ov_delete_node l i ov =
     (if ov_nodes ov (l, i) = None then (ov, False)
      else (\<lparr>ov_nodes = (ov_nodes ov)((l, i) := None),
             ov_edges = (\<lambda>(t, s, d, i'). if (l, i) \<in> {s, d} then None else ov_edges ov (t, s, d, i'))\<rparr>,
            True))"

definition ov_upsert_edge ::
    "nat \<Rightarrow> string \<Rightarrow> string \<Rightarrow> node_ref \<Rightarrow> node_ref \<Rightarrow> props \<Rightarrow> overlay
     \<Rightarrow> (gateway_error, overlay \<times> bool) result" where
  "ov_upsert_edge index t i s d ps ov =
     bind_result (require_node index (ref_key s) ov) (\<lambda>_.
     bind_result (require_node index (ref_key d) ov) (\<lambda>_.
       let key = (t, ref_key s, ref_key d, i); current = ov_edges ov key
       in if current \<noteq> None \<and> already_holds (the current) ps then Inr (ov, False)
          else Inr (ov\<lparr>ov_edges := (ov_edges ov)(key \<mapsto>
                      (case current of None \<Rightarrow> Map.empty | Some m \<Rightarrow> m) ++ map_of ps)\<rparr>, True)))"

definition ov_delete_edge :: "string \<Rightarrow> string \<Rightarrow> node_ref \<Rightarrow> node_ref \<Rightarrow> overlay \<Rightarrow> overlay \<times> bool" where
  "ov_delete_edge t i s d ov =
     (let key = (t, ref_key s, ref_key d, i)
      in (ov\<lparr>ov_edges := (ov_edges ov)(key := None)\<rparr>, ov_edges ov key \<noteq> None))"

definition ov_stamp :: "string \<Rightarrow> string \<Rightarrow> node_ref \<Rightarrow> node_ref \<Rightarrow> overlay \<Rightarrow> overlay \<times> bool" where
  "ov_stamp t i s d ov =
     (case ov_edges ov (t, ref_key s, ref_key d, unidentified) of
        None \<Rightarrow> (ov, False)
      | Some legacy \<Rightarrow>
          (let popped = (ov_edges ov)((t, ref_key s, ref_key d, unidentified) := None);
               key = (t, ref_key s, ref_key d, i)
           in (ov\<lparr>ov_edges := (if popped key = None then popped(key \<mapsto> legacy) else popped)\<rparr>, True)))"

fun ov_apply :: "nat \<Rightarrow> primitive \<Rightarrow> overlay \<Rightarrow> (gateway_error, overlay \<times> bool) result" where
  "ov_apply index (UpsertNode l i ps emb) ov = Inr (ov_upsert_node l i ps emb ov)"
| "ov_apply index (MergeProperty l i ps) ov = ov_merge_property index l i ps ov"
| "ov_apply index (RemoveProperty l i ks) ov = Inr (ov_remove_property l i ks ov)"
| "ov_apply index (DeleteNode l i) ov = Inr (ov_delete_node l i ov)"
| "ov_apply index (UpsertEdge t i s d ps) ov = ov_upsert_edge index t i s d ps ov"
| "ov_apply index (DeleteEdge t i s d) ov = Inr (ov_delete_edge t i s d ov)"
| "ov_apply index (StampEdgeIdentity t i s d) ov = Inr (ov_stamp t i s d ov)"

fun walk :: "nat \<Rightarrow> primitive list \<Rightarrow> overlay \<Rightarrow> (gateway_error, primitive list) result" where
  "walk index [] ov = Inr []"
| "walk index (p # ps) ov =
     bind_result (ov_apply index p ov) (\<lambda>(ov', changed).
     bind_result (walk (Suc index) ps ov') (\<lambda>kept.
       Inr (if changed then p # kept else kept)))"

text \<open>\<open>es\<close>: the edges of \<open>g\<close> in the order FalkorDB reports them.\<close>

definition read_overlay :: "graph \<Rightarrow> edge list \<Rightarrow> primitive list \<Rightarrow> nat \<Rightarrow> overlay" where
  "read_overlay g es ps batch_size =
     (let acted = over acted_on ps;
          ends = filter (\<lambda>k. k \<notin> set acted) (over endpoints ps);
          existing = read_existing_nodes g ends batch_size;
          nodes = read_nodes g acted batch_size;
          edges = read_edges es (over named_edges ps) batch_size;
          legacy = read_unidentified_edges es (over stamped_edges ps) batch_size
      in \<lparr>ov_nodes = (\<lambda>k. if k \<in> existing then Some Map.empty else nodes k),
          ov_edges = edges ++ legacy\<rparr>)"

definition select_effective_primitives ::
    "graph \<Rightarrow> edge list \<Rightarrow> primitive list \<Rightarrow> nat \<Rightarrow> (gateway_error, primitive list) result" where
  "select_effective_primitives g es ps batch_size = walk 0 ps (read_overlay g es ps batch_size)"

section \<open>Equality of stored values\<close>

fun plain :: "pyval \<Rightarrow> bool" where
  "plain (PFloat w) = (\<not> f64_isnan w)"
| "plain (PList vs) = list_all plain vs"
| "plain (PTuple vs) = False"
| "plain (PDict ps) = False"
| "plain _ = True"

lemma same_value_scalar:
  "as_sequence v = None \<Longrightarrow> same_value v w =
     (case (v, w) of
        (PFloat x, PFloat y) \<Rightarrow> same_hex x y
      | _ \<Rightarrow> py_type v = py_type w \<and> v = w)"
  by (simp add: same_value.simps [of v w])

lemma same_value_atom:
  assumes "as_sequence v = None" "plain v" "plain w"
  shows "same_value v w = (v = w)"
  unfolding same_value_scalar [OF assms(1)]
  using assms by (cases v; cases w; simp add: same_hex_def)

lemma same_value_plain: "plain v \<Longrightarrow> plain w \<Longrightarrow> same_value v w = (v = w)"
proof (induction v arbitrary: w)
  case (PList vs)
  show ?case
  proof (cases w)
    case (PList ws)
    have "same_value x y = (x = y)" if "(x, y) \<in> set (zip vs ws)" for x y
      using set_zip_leftD [OF that] set_zip_rightD [OF that] PList.IH [of x y] PList.prems PList
      by (auto simp: list_all_iff)
    then have "list_all (\<lambda>(x, y). same_value x y) (zip vs ws) = list_all (\<lambda>(x, y). x = y) (zip vs ws)"
      by (auto simp: list_all_iff)
    moreover have "length vs = length ws \<Longrightarrow> list_all (\<lambda>(x, y). x = y) (zip vs ws) = (vs = ws)"
      by (induction vs ws rule: list_induct2) auto
    ultimately show ?thesis using PList by (auto simp: same_value.simps [of "PList vs"])
  qed (use PList.prems in \<open>simp_all add: same_value.simps [of "PList vs"]\<close>)
qed (simp_all add: same_value_atom)

lemma finite_not_nan: "f64_isfinite w \<Longrightarrow> \<not> f64_isnan w"
  by (simp add: f64_isfinite_def f64_isnan_def)

lemma scalar_plain: "is_valid_scalar v \<Longrightarrow> plain v"
  by (cases v) (auto simp: finite_not_nan)

lemma storable_plain: "storable v \<Longrightarrow> plain v"
  by (cases v) (auto simp: storable_def finite_not_nan is_valid_items_def list_all_iff scalar_plain)

fun nan_free :: "primitive \<Rightarrow> bool" where
  "nan_free (UpsertNode l i ps (Some ws)) = list_all (\<lambda>w. \<not> f64_isnan w) ws"
| "nan_free _ = True"

definition plain_map :: "propmap \<Rightarrow> bool" where
  "plain_map m \<longleftrightarrow> (\<forall>v \<in> ran m. plain v)"

definition plain_state :: "graph \<Rightarrow> bool" where
  "plain_state g \<longleftrightarrow>
     (\<forall>m \<in> ran (g_nodes g). plain_map m) \<and> (\<forall>e \<in># g_edges g. plain_map (e_props e))"

definition plain_dict :: "props \<Rightarrow> bool" where
  "plain_dict ps \<longleftrightarrow> dict_ok ps \<and> (\<forall>(k, v) \<in> set ps. plain v)"

lemma plain_map_add: "plain_map m \<Longrightarrow> plain_dict ps \<Longrightarrow> plain_map (m ++ map_of ps)"
  by (fastforce simp: plain_map_def plain_dict_def ran_def map_add_def split: option.splits
      dest: map_of_SomeD)

lemma plain_map_empty [simp]: "plain_map Map.empty"
  by (simp add: plain_map_def)

lemma plain_map_restrict: "plain_map m \<Longrightarrow> plain_map (m |` A)"
  by (auto simp: plain_map_def ran_def restrict_map_def split: if_splits)

lemma already_holds_iff:
  assumes "plain_map m" "plain_dict ps"
  shows "already_holds m ps \<longleftrightarrow> m ++ map_of ps = m"
proof -
  have "(case m k of None \<Rightarrow> False | Some c \<Rightarrow> same_value c v) \<longleftrightarrow> m k = Some v"
    if "(k, v) \<in> set ps" for k v
  proof -
    from that assms(2) have "plain v" by (auto simp: plain_dict_def)
    moreover have "plain c" if "m k = Some c" for c
      using that assms(1) by (auto simp: plain_map_def ran_def)
    ultimately show ?thesis by (auto simp: same_value_plain split: option.splits)
  qed
  then have "already_holds m ps \<longleftrightarrow> (\<forall>(k, v) \<in> set ps. m k = Some v)"
    by (auto simp: already_holds_def list_all_iff)
  also have "\<dots> \<longleftrightarrow> (\<forall>k v. map_of ps k = Some v \<longrightarrow> m k = Some v)"
    using assms(2) by (auto simp: plain_dict_def dict_ok_def)
  also have "\<dots> \<longleftrightarrow> m ++ map_of ps = m"
    by (auto simp: map_add_def fun_eq_iff split: option.splits)
  finally show ?thesis .
qed

lemma wf_plain_dict: "wf_primitive p \<Longrightarrow> plain_dict (prim_props p)"
  using wf_primitive_storable storable_plain by (fastforce simp: plain_dict_def wf_primitive_def)

lemma plain_wanted_node:
  assumes "wf_primitive (UpsertNode l i ps emb)" "nan_free (UpsertNode l i ps emb)"
  shows "plain_dict (wanted_node ps emb)"
proof -
  have ps: "plain_dict ps" using wf_plain_dict [OF assms(1)] by simp
  show ?thesis
  proof (cases emb)
    case None
    with ps show ?thesis by (simp add: wanted_node_def)
  next
    case (Some ws)
    with assms(2) have "plain (float_list ws)" by (auto simp: float_list_def list_all_iff)
    with ps Some show ?thesis
      by (auto simp: plain_dict_def wanted_node_def dict_ok_def distinct_update dest: set_update_cases)
  qed
qed

lemma merged_node_wanted:
  "merged_node old ps emb = (case old of None \<Rightarrow> Map.empty | Some m \<Rightarrow> m) ++ map_of (wanted_node ps emb)"
  by (auto simp: merged_node_def wanted_node_def Let_def update_conv' split: option.splits)

section \<open>Edges with unique keys\<close>

abbreviation edge_keys :: "edge multiset \<Rightarrow> edgekey multiset" where
  "edge_keys es \<equiv> image_mset edge_key es"

definition unique_keys :: "edge multiset \<Rightarrow> bool" where
  "unique_keys es \<longleftrightarrow> (\<forall>k. count (edge_keys es) k \<le> 1)"

text \<open>\<open>edge_view es k v\<close>: the properties of the edge with key \<open>k\<close> are \<open>v\<close> (\<open>None\<close>: there is no edge).\<close>

definition edge_view :: "edge multiset \<Rightarrow> edgekey \<Rightarrow> propmap option \<Rightarrow> bool" where
  "edge_view es k v \<longleftrightarrow>
     (case v of None \<Rightarrow> k \<notin># edge_keys es | Some m \<Rightarrow> \<exists>e \<in># es. edge_key e = k \<and> e_props e = m)"

lemma unique_keys_add: "unique_keys (add_mset e es) \<longleftrightarrow> edge_key e \<notin># edge_keys es \<and> unique_keys es"
proof -
  have "(\<forall>k. (if a = k then Suc (c k) else c k) \<le> 1) \<longleftrightarrow> c a = 0 \<and> (\<forall>k. c k \<le> 1)"
    for a and c :: "edgekey \<Rightarrow> nat"
  proof safe
    fix k assume l: "\<forall>k. (if a = k then Suc (c k) else c k) \<le> 1"
    from l [rule_format, of a] show "c a = 0" by simp
    from l [rule_format, of k] show "c k \<le> 1" by (simp split: if_splits)
  qed auto
  from this [of "edge_key e" "count (edge_keys es)"] show ?thesis
    unfolding unique_keys_def image_mset_add_mset count_add_mset not_in_iff by auto
qed

lemma unique_keys_filter: "unique_keys es \<Longrightarrow> unique_keys (filter_mset Q es)"
  by (induction es) (auto simp: unique_keys_add image_iff)

lemma view_split:
  assumes "unique_keys es" "edge_view es k v"
  shows "(v = None \<and> k \<notin># edge_keys es) \<or>
    (\<exists>e es'. v = Some (e_props e) \<and> es = add_mset e es' \<and> edge_key e = k \<and> k \<notin># edge_keys es')"
proof (cases v)
  case None
  with assms(2) show ?thesis by (simp add: edge_view_def)
next
  case (Some m)
  with assms(2) obtain e where e: "e \<in># es" "edge_key e = k" "e_props e = m"
    by (auto simp: edge_view_def)
  from e(1) obtain es' where "es = add_mset e es'" by (meson mset_add)
  with assms(1) e Some show ?thesis by (auto simp: unique_keys_add)
qed

lemma view_add_other: "edge_key e \<noteq> k \<Longrightarrow> edge_view (add_mset e es) k v = edge_view es k v"
  by (auto simp: edge_view_def split: option.splits)

lemma view_add_same:
  assumes "edge_key e = k" "k \<notin># edge_keys es"
  shows "edge_view (add_mset e es) k v \<longleftrightarrow> v = Some (e_props e)"
proof -
  from assms(2) have "edge_key x \<noteq> k" if "x \<in># es" for x using that by auto
  with assms(1) show ?thesis by (cases v) (auto simp: edge_view_def)
qed

lemma view_absent: "k \<notin># edge_keys es \<Longrightarrow> edge_view es k v \<longleftrightarrow> v = None"
  by (force simp: edge_view_def split: option.splits)

lemma view_filter:
  assumes "edge_view es k v" "\<And>e. e \<in># es \<Longrightarrow> edge_key e = k \<Longrightarrow> Q e = b"
  shows "edge_view (filter_mset Q es) k (if b then v else None)"
  using assms by (cases v) (auto simp: edge_view_def)

lemma filter_key_split:
  "k \<notin># edge_keys es \<Longrightarrow> filter_mset (\<lambda>e. edge_key e \<noteq> k) es = es"
  by (auto simp: filter_mset_eq_conv)

lemma image_key_split:
  "k \<notin># edge_keys es \<Longrightarrow> image_mset (\<lambda>e. if edge_key e = k then f e else e) es = es"
proof -
  assume "k \<notin># edge_keys es"
  then have "image_mset (\<lambda>e. if edge_key e = k then f e else e) es = image_mset (\<lambda>e. e) es"
    by (intro multiset.map_cong0) auto
  then show ?thesis by simp
qed

lemma put_edge_split:
  assumes "edge_key e = k" "k \<notin># edge_keys es"
  shows "put_edge k ps (add_mset e es) = add_mset (e\<lparr>e_props := e_props e ++ map_of ps\<rparr>) es"
  using assms image_key_split [OF assms(2)]
  by (simp add: put_edge_old merge_edge_def [abs_def])

lemma put_edge_view:
  assumes "unique_keys es" "edge_view es k v"
  shows "edge_view (put_edge k ps es) k (Some ((case v of None \<Rightarrow> Map.empty | Some m \<Rightarrow> m) ++ map_of ps))"
    and "k' \<noteq> k \<Longrightarrow> edge_view (put_edge k ps es) k' w = edge_view es k' w"
    and "unique_keys (put_edge k ps es)"
    and "put_edge k ps es \<noteq> es \<longleftrightarrow> \<not> (\<exists>m. v = Some m \<and> m ++ map_of ps = m)"
proof -
  let ?all = "edge_view (put_edge k ps es) k
        (Some ((case v of None \<Rightarrow> Map.empty | Some m \<Rightarrow> m) ++ map_of ps))
      \<and> (\<forall>k' w. k' \<noteq> k \<longrightarrow> edge_view (put_edge k ps es) k' w = edge_view es k' w)
      \<and> unique_keys (put_edge k ps es)
      \<and> (put_edge k ps es \<noteq> es \<longleftrightarrow> \<not> (\<exists>m. v = Some m \<and> m ++ map_of ps = m))"
  from view_split [OF assms] have ?all
  proof (elim disjE exE conjE)
    assume v: "v = None" "k \<notin># edge_keys es"
    have "add_mset e es \<noteq> es" for e by (metis add_mset_add_single add_cancel_right_right multi_self_add_other_not_self)
    with v assms(1) show ?thesis
      by (simp add: put_edge_new view_add_same view_add_other unique_keys_add del: in_image_mset)
  next
    fix e es' assume v: "v = Some (e_props e)" "es = add_mset e es'" "edge_key e = k"
      "k \<notin># edge_keys es'"
    have "e\<lparr>e_props := m\<rparr> = e \<longleftrightarrow> m = e_props e" for m by (cases e) auto
    with v assms(1) show ?thesis
      by (simp add: put_edge_split view_add_same view_add_other unique_keys_add del: in_image_mset)
  qed
  then show "edge_view (put_edge k ps es) k (Some ((case v of None \<Rightarrow> Map.empty | Some m \<Rightarrow> m) ++ map_of ps))"
    "k' \<noteq> k \<Longrightarrow> edge_view (put_edge k ps es) k' w = edge_view es k' w"
    "unique_keys (put_edge k ps es)"
    "put_edge k ps es \<noteq> es \<longleftrightarrow> \<not> (\<exists>m. v = Some m \<and> m ++ map_of ps = m)"
    by blast+
qed

lemma legacy_edge_key: "edge_between t s d e \<and> e_identity e = None \<longleftrightarrow> edge_key e = (t, s, d, None)"
  by (auto simp: edge_between_def edge_key_def)

lemma stamp_split:
  assumes "edge_key e = (t, s, d, None)" "(t, s, d, None) \<notin># edge_keys es"
  shows "image_mset (\<lambda>e. if edge_key e = (t, s, d, None) then e\<lparr>e_identity := Some i\<rparr> else e) (add_mset e es)
    = add_mset (e\<lparr>e_identity := Some i\<rparr>) es"
  using assms image_key_split [OF assms(2)] by simp

section \<open>The overlay refines the graph\<close>

text \<open>
  \<open>sim ps ov g\<close>: on everything the primitives \<open>ps\<close> name, the overlay shows what \<open>g\<close> holds. An end point
  no node primitive names is only known to exist or not.
\<close>

definition sim :: "primitive list \<Rightarrow> overlay \<Rightarrow> graph \<Rightarrow> bool" where
  "sim ps ov g \<longleftrightarrow>
     (\<forall>k \<in> set (over acted_on ps). ov_nodes ov k = g_nodes g k)
     \<and> (\<forall>k \<in> set (over endpoints ps). ov_nodes ov k = None \<longleftrightarrow> g_nodes g k = None)
     \<and> (\<forall>(t, s, d, i) \<in> set (over named_edges ps).
          edge_view (g_edges g) (t, s, d, Some i) (ov_edges ov (t, s, d, i)))
     \<and> (\<forall>(t, s, d, i) \<in> set (over stamped_edges ps).
          edge_view (g_edges g) (t, s, d, None) (ov_edges ov (t, s, d, i)))"

fun missing_target :: "primitive \<Rightarrow> graph \<Rightarrow> bool" where
  "missing_target (MergeProperty l i ps) g = (g_nodes g (l, i) = None)"
| "missing_target (UpsertEdge t i s d ps) g =
     (g_nodes g (ref_key s) = None \<or> g_nodes g (ref_key d) = None)"
| "missing_target _ g = False"

text \<open>A stamp does not turn an identity-less edge into a second edge with an identity in use.\<close>

fun stamp_fresh :: "primitive \<Rightarrow> graph \<Rightarrow> bool" where
  "stamp_fresh (StampEdgeIdentity t i s d) g =
     (\<not> ((t, ref_key s, ref_key d, None) \<in># edge_keys (g_edges g)
         \<and> (t, ref_key s, ref_key d, Some i) \<in># edge_keys (g_edges g)))"
| "stamp_fresh _ g = True"

definition good_prim :: "primitive \<Rightarrow> bool" where
  "good_prim p \<longleftrightarrow> wf_primitive p \<and> nan_free p"

definition step_ok :: "primitive list \<Rightarrow> nat \<Rightarrow> primitive \<Rightarrow> overlay \<Rightarrow> graph \<Rightarrow> bool" where
  "step_ok ps n p ov g \<longleftrightarrow>
     (case ov_apply n p ov of
        Inl e \<Rightarrow> e = MissingTargetError n \<and> missing_target p g
      | Inr (ov', changed) \<Rightarrow>
          \<not> missing_target p g \<and> sim ps ov' (apply_primitive p g)
          \<and> (changed \<longleftrightarrow> apply_primitive p g \<noteq> g))"

lemma edges_update_iff: "g\<lparr>g_edges := es\<rparr> = g \<longleftrightarrow> es = g_edges g"
  by (cases g) auto

lemma over_member: "p \<in> set ps \<Longrightarrow> set (f p) \<subseteq> set (over f ps)"
  by (auto simp: over_def)

lemma blank_unidentified: "wf_primitive p \<Longrightarrow> (t, s, d, i) \<in> set (named_edges p) \<Longrightarrow> i \<noteq> unidentified"
  by (cases p) (auto simp: wf_primitive_def valid_edge_base_def non_blank_def unidentified_def
      split: if_splits)

lemma stamped_unidentified: "(t, s, d, i) \<in> set (over stamped_edges ps) \<Longrightarrow> i = unidentified"
proof -
  have "(t, s, d, i) \<in> set (stamped_edges p) \<Longrightarrow> i = unidentified" for p by (cases p) auto
  then show "(t, s, d, i) \<in> set (over stamped_edges ps) \<Longrightarrow> i = unidentified"
    by (auto simp: over_def)
qed

lemma named_identified:
  "\<forall>p \<in> set ps. wf_primitive p \<Longrightarrow> (t, s, d, i) \<in> set (over named_edges ps) \<Longrightarrow> i \<noteq> unidentified"
  unfolding over_def set_concat set_map using blank_unidentified by blast

lemma sim_nodes:
  assumes "sim ps ov g" "\<And>k. k \<noteq> key \<Longrightarrow> nodes' k = g_nodes g k"
    and "\<And>k. k \<noteq> key \<Longrightarrow> ovn' k = ov_nodes ov k" "ovn' key = nodes' key"
  shows "sim ps (ov\<lparr>ov_nodes := ovn'\<rparr>) (g\<lparr>g_nodes := nodes'\<rparr>)"
proof -
  have "ovn' k = nodes' k" if "k \<in> set (over acted_on ps)" for k
    using that assms by (cases "k = key") (auto simp: sim_def)
  moreover have "ovn' k = None \<longleftrightarrow> nodes' k = None" if "k \<in> set (over endpoints ps)" for k
    using that assms by (cases "k = key") (auto simp: sim_def)
  ultimately show ?thesis using assms(1) by (simp add: sim_def)
qed

lemma sim_edges:
  assumes "sim ps ov g" "\<forall>p \<in> set ps. wf_primitive p"
    and "\<And>t s d i. (t, s, d, i) \<in> set (over named_edges ps) \<Longrightarrow> i \<noteq> unidentified \<Longrightarrow>
      edge_view (g_edges g) (t, s, d, Some i) (ov_edges ov (t, s, d, i)) \<Longrightarrow>
      edge_view es (t, s, d, Some i) (ove (t, s, d, i))"
    and "\<And>t s d. (t, s, d, unidentified) \<in> set (over stamped_edges ps) \<Longrightarrow>
      edge_view (g_edges g) (t, s, d, None) (ov_edges ov (t, s, d, unidentified)) \<Longrightarrow>
      edge_view es (t, s, d, None) (ove (t, s, d, unidentified))"
  shows "sim ps (ov\<lparr>ov_edges := ove\<rparr>) (g\<lparr>g_edges := es\<rparr>)"
proof -
  have "edge_view es (t, s, d, Some i) (ove (t, s, d, i))"
    if "(t, s, d, i) \<in> set (over named_edges ps)" for t s d i
    using that assms(1) named_identified [OF assms(2) that] by (intro assms(3)) (auto simp: sim_def)
  moreover have "edge_view es (t, s, d, None) (ove (t, s, d, i))"
    if "(t, s, d, i) \<in> set (over stamped_edges ps)" for t s d i
    using that assms(1) stamped_unidentified [OF that] assms(4) [of t s d] by (auto simp: sim_def)
  ultimately show ?thesis using assms(1) by (auto simp: sim_def)
qed

lemma step_upsert_node:
  assumes "sim ps ov g" "plain_state g" "good_prim (UpsertNode l i qs emb)"
    and "UpsertNode l i qs emb \<in> set ps"
  shows "step_ok ps n (UpsertNode l i qs emb) ov g"
proof -
  have cur: "ov_nodes ov (l, i) = g_nodes g (l, i)"
    using assms(1) over_member [OF assms(4), of acted_on] by (auto simp: sim_def)
  have wanted: "plain_dict (wanted_node qs emb)"
    using assms(3) by (auto simp: good_prim_def intro: plain_wanted_node)
  define new where "new = merged_node (g_nodes g (l, i)) qs emb"
  have apply_: "apply_primitive (UpsertNode l i qs emb) g = g\<lparr>g_nodes := (g_nodes g)((l, i) \<mapsto> new)\<rparr>"
    by (simp add: new_def)
  have holds: "g_nodes g (l, i) \<noteq> None \<and> already_holds (the (g_nodes g (l, i))) (wanted_node qs emb)
      \<longleftrightarrow> g_nodes g (l, i) = Some new"
  proof (cases "g_nodes g (l, i)")
    case (Some m)
    with assms(2) have "plain_map m" by (auto simp: plain_state_def ran_def)
    with wanted Some show ?thesis
      by (auto simp: already_holds_iff new_def merged_node_wanted)
  qed simp
  have unchanged: "g_nodes g (l, i) = Some new \<longleftrightarrow> g\<lparr>g_nodes := (g_nodes g)((l, i) \<mapsto> new)\<rparr> = g"
    by (cases g) (auto simp: fun_eq_iff fun_upd_triv)
  have sim': "sim ps (ov\<lparr>ov_nodes := (ov_nodes ov)((l, i) \<mapsto> new)\<rparr>) (g\<lparr>g_nodes := (g_nodes g)((l, i) \<mapsto> new)\<rparr>)"
    by (rule sim_nodes [OF assms(1), of "(l, i)"]) auto
  have "ov_apply n (UpsertNode l i qs emb) ov =
      (if g_nodes g (l, i) = Some new then Inr (ov, False)
       else Inr (ov\<lparr>ov_nodes := (ov_nodes ov)((l, i) \<mapsto> new)\<rparr>, True))"
    using holds by (simp add: ov_upsert_node_def Let_def cur new_def merged_node_wanted)
  with sim' unchanged assms(1) show ?thesis
    by (auto simp: step_ok_def apply_ simp del: apply_primitive.simps)
qed

lemma step_merge_property:
  assumes "sim ps ov g" "plain_state g" "good_prim (MergeProperty l i qs)"
    and "MergeProperty l i qs \<in> set ps"
  shows "step_ok ps n (MergeProperty l i qs) ov g"
proof -
  have cur: "ov_nodes ov (l, i) = g_nodes g (l, i)"
    using assms(1) over_member [OF assms(4), of acted_on] by (auto simp: sim_def)
  have wanted: "plain_dict qs"
    using assms(3) wf_plain_dict [of "MergeProperty l i qs"] by (simp add: good_prim_def)
  show ?thesis
  proof (cases "g_nodes g (l, i)")
    case None
    then show ?thesis
      by (simp add: step_ok_def ov_merge_property_def require_node_def cur)
  next
    case (Some m)
    with assms(2) have "plain_map m" by (auto simp: plain_state_def ran_def)
    then have holds: "already_holds m qs \<longleftrightarrow> m ++ map_of qs = m"
      using wanted by (rule already_holds_iff)
    have unchanged: "m ++ map_of qs = m \<longleftrightarrow> g\<lparr>g_nodes := (g_nodes g)((l, i) \<mapsto> m ++ map_of qs)\<rparr> = g"
      using Some by (cases g) (auto simp: fun_eq_iff fun_upd_triv)
    have sim': "sim ps (ov\<lparr>ov_nodes := (ov_nodes ov)((l, i) \<mapsto> m ++ map_of qs)\<rparr>)
        (g\<lparr>g_nodes := (g_nodes g)((l, i) \<mapsto> m ++ map_of qs)\<rparr>)"
      by (rule sim_nodes [OF assms(1), of "(l, i)"]) auto
    with holds unchanged assms(1) Some show ?thesis
      by (auto simp: step_ok_def ov_merge_property_def require_node_def cur)
  qed
qed

lemma step_remove_property:
  assumes "sim ps ov g" "RemoveProperty l i ks \<in> set ps"
  shows "step_ok ps n (RemoveProperty l i ks) ov g"
proof -
  have cur: "ov_nodes ov (l, i) = g_nodes g (l, i)"
    using assms(1) over_member [OF assms(2), of acted_on] by (auto simp: sim_def)
  show ?thesis
  proof (cases "g_nodes g (l, i)")
    case None
    with assms(1) show ?thesis
      by (simp add: step_ok_def ov_remove_property_def cy_remove_property_def cur)
  next
    case (Some m)
    let ?present = "filter (\<lambda>k. m k \<noteq> None) ks"
    have same: "m |` (- set ?present) = m |` (- set ks)"
      by (rule ext) (auto simp: restrict_map_def)
    have "?present \<noteq> [] \<longleftrightarrow> m |` (- set ks) \<noteq> m"
      by (simp add: filter_empty_conv fun_eq_iff restrict_map_def) (metis not_None_eq)
    moreover have "m |` (- set ks) = m \<longleftrightarrow> g\<lparr>g_nodes := (g_nodes g)((l, i) \<mapsto> m |` (- set ks))\<rparr> = g"
      using Some by (cases g) (auto simp: fun_eq_iff fun_upd_triv)
    moreover have "sim ps (ov\<lparr>ov_nodes := (ov_nodes ov)((l, i) \<mapsto> m |` (- set ks))\<rparr>)
        (g\<lparr>g_nodes := (g_nodes g)((l, i) \<mapsto> m |` (- set ks))\<rparr>)"
      by (rule sim_nodes [OF assms(1), of "(l, i)"]) auto
    moreover have "ov_apply n (RemoveProperty l i ks) ov =
        Inr (ov\<lparr>ov_nodes := (ov_nodes ov)((l, i) \<mapsto> m |` (- set ks))\<rparr>, ?present \<noteq> [])"
      unfolding ov_apply.simps ov_remove_property_def cur Some Let_def option.case same by (rule refl)
    ultimately show ?thesis
      unfolding step_ok_def by (simp add: cy_remove_property_def Some)
  qed
qed

lemma step_delete_node:
  assumes "sim ps ov g" "\<forall>p \<in> set ps. wf_primitive p" "DeleteNode l i \<in> set ps"
  shows "step_ok ps n (DeleteNode l i) ov g"
proof -
  have cur: "ov_nodes ov (l, i) = g_nodes g (l, i)"
    using assms(1) over_member [OF assms(3), of acted_on] by (auto simp: sim_def)
  show ?thesis
  proof (cases "g_nodes g (l, i)")
    case None
    with assms(1) show ?thesis by (simp add: step_ok_def ov_delete_node_def cy_delete_node_def cur)
  next
    case (Some m)
    let ?Q = "\<lambda>e. e_source e \<noteq> (l, i) \<and> e_target e \<noteq> (l, i)"
    have view: "edge_view (filter_mset ?Q es) (t, s, d, o') (if (l, i) \<in> {s, d} then None else v)"
      if "edge_view es (t, s, d, o') v" for es t s d o' v
    proof -
      have "edge_view (filter_mset ?Q es) (t, s, d, o') (if (l, i) \<notin> {s, d} then v else None)"
        using that by (rule view_filter) (auto simp: edge_key_def)
      moreover have "(if \<not> b then x else y) = (if b then y else x)" for b and x y :: "propmap option"
        by simp
      ultimately show ?thesis by (simp only:)
    qed
    let ?ove = "\<lambda>(t, s, d, i'). if (l, i) \<in> {s, d} then None else ov_edges ov (t, s, d, i')"
    have "sim ps (ov\<lparr>ov_edges := ?ove\<rparr>) (g\<lparr>g_edges := filter_mset ?Q (g_edges g)\<rparr>)"
      by (rule sim_edges [OF assms(1,2)]; simp only: prod.case; rule view)
    then have "sim ps (ov\<lparr>ov_edges := ?ove, ov_nodes := (ov_nodes ov)((l, i) := None)\<rparr>)
        (g\<lparr>g_edges := filter_mset ?Q (g_edges g), g_nodes := (g_nodes g)((l, i) := None)\<rparr>)"
      by (rule sim_nodes [of _ _ _ "(l, i)"]) auto
    then have "sim ps \<lparr>ov_nodes = (ov_nodes ov)((l, i) := None), ov_edges = ?ove\<rparr>
        (g\<lparr>g_nodes := (g_nodes g)((l, i) := None), g_edges := filter_mset ?Q (g_edges g)\<rparr>)"
      by (cases ov; cases g) simp
    moreover have "g\<lparr>g_nodes := (g_nodes g)((l, i) := None), g_edges := es\<rparr> \<noteq> g" for es
      using Some by (cases g) (auto simp: fun_eq_iff)
    ultimately show ?thesis
      by (simp add: step_ok_def ov_delete_node_def cy_delete_node_def cur Some)
  qed
qed

lemma step_upsert_edge:
  assumes "sim ps ov g" "plain_state g" "unique_keys (g_edges g)" "\<forall>p \<in> set ps. wf_primitive p"
    and "UpsertEdge t i s d qs \<in> set ps"
  shows "step_ok ps n (UpsertEdge t i s d qs) ov g"
proof -
  let ?k = "(t, ref_key s, ref_key d, Some i)" and ?r = "(t, ref_key s, ref_key d, i)"
  have wf: "wf_primitive (UpsertEdge t i s d qs)" using assms(4,5) by blast
  have ends: "ov_nodes ov (ref_key s) = None \<longleftrightarrow> g_nodes g (ref_key s) = None"
    "ov_nodes ov (ref_key d) = None \<longleftrightarrow> g_nodes g (ref_key d) = None"
    using assms(1) over_member [OF assms(5), of endpoints] by (auto simp: sim_def)
  have view: "edge_view (g_edges g) ?k (ov_edges ov ?r)"
    using assms(1) over_member [OF assms(5), of named_edges] by (auto simp: sim_def)
  have i: "i \<noteq> unidentified" using blank_unidentified [OF wf] by simp
  show ?thesis
  proof (cases "g_nodes g (ref_key s) = None \<or> g_nodes g (ref_key d) = None")
    case True
    with ends show ?thesis
      by (auto simp: step_ok_def ov_upsert_edge_def require_node_def split: option.splits)
  next
    case False
    let ?es = "put_edge ?k qs (g_edges g)"
    let ?new = "(case ov_edges ov ?r of None \<Rightarrow> Map.empty | Some m \<Rightarrow> m) ++ map_of qs"
    note put = put_edge_view [OF assms(3) view, where ps = qs]
    have apply_: "apply_primitive (UpsertEdge t i s d qs) g = g\<lparr>g_edges := ?es\<rparr>"
      using False by (auto simp: cy_upsert_edge_put simp del: cy_upsert_edge.simps)
    have "plain_dict qs" using wf_plain_dict [OF wf] by simp
    moreover have "plain_map m" if "ov_edges ov ?r = Some m" for m
      using view that assms(2) by (auto simp: edge_view_def plain_state_def)
    ultimately have holds: "ov_edges ov ?r \<noteq> None \<and> already_holds (the (ov_edges ov ?r)) qs
        \<longleftrightarrow> (\<exists>m. ov_edges ov ?r = Some m \<and> m ++ map_of qs = m)"
      by (auto simp: already_holds_iff)
    have changed: "?es \<noteq> g_edges g \<longleftrightarrow> g\<lparr>g_edges := ?es\<rparr> \<noteq> g" by (simp add: edges_update_iff)
    have sim': "sim ps (ov\<lparr>ov_edges := (ov_edges ov)(?r \<mapsto> ?new)\<rparr>) (g\<lparr>g_edges := ?es\<rparr>)"
      using assms(1,4) put(1,2) i by (intro sim_edges) auto
    have "ov_apply n (UpsertEdge t i s d qs) ov =
        (if \<exists>m. ov_edges ov ?r = Some m \<and> m ++ map_of qs = m then Inr (ov, False)
         else Inr (ov\<lparr>ov_edges := (ov_edges ov)(?r \<mapsto> ?new)\<rparr>, True))"
      using holds False ends
      by (auto simp: ov_upsert_edge_def require_node_def Let_def split: option.splits)
    with False sim' changed put(4) assms(1) show ?thesis
      by (auto simp: step_ok_def apply_ simp del: apply_primitive.simps split: if_splits)
  qed
qed

lemma step_delete_edge:
  assumes "sim ps ov g" "unique_keys (g_edges g)" "\<forall>p \<in> set ps. wf_primitive p"
    and "DeleteEdge t i s d \<in> set ps"
  shows "step_ok ps n (DeleteEdge t i s d) ov g"
proof -
  let ?k = "(t, ref_key s, ref_key d, Some i)" and ?r = "(t, ref_key s, ref_key d, i)"
  let ?es = "filter_mset (\<lambda>e. edge_key e \<noteq> ?k) (g_edges g)"
  have wf: "wf_primitive (DeleteEdge t i s d)" using assms(3,4) by blast
  have view: "edge_view (g_edges g) ?k (ov_edges ov ?r)"
    using assms(1) over_member [OF assms(4), of named_edges] by (auto simp: sim_def)
  have i: "i \<noteq> unidentified" using blank_unidentified [OF wf] by simp
  have apply_: "apply_primitive (DeleteEdge t i s d) g = g\<lparr>g_edges := ?es\<rparr>"
    by (simp add: edge_is_key)
  have gone: "edge_view ?es ?k None"
    using view_filter [OF view, of "\<lambda>e. edge_key e \<noteq> ?k" False] by simp
  have kept: "edge_view (g_edges g) k v \<Longrightarrow> k \<noteq> ?k \<Longrightarrow> edge_view ?es k v" for k v
    using view_filter [of "g_edges g" k v "\<lambda>e. edge_key e \<noteq> ?k" True] by simp
  have sim': "sim ps (ov\<lparr>ov_edges := (ov_edges ov)(?r := None)\<rparr>) (g\<lparr>g_edges := ?es\<rparr>)"
    using assms(1,3) gone kept i by (intro sim_edges) auto
  have changed: "ov_edges ov ?r \<noteq> None \<longleftrightarrow> ?es \<noteq> g_edges g"
    using view_split [OF assms(2) view]
    by (auto simp: filter_key_split simp del: in_image_mset dest: arg_cong [where f = size])
  have "?es \<noteq> g_edges g \<longleftrightarrow> g\<lparr>g_edges := ?es\<rparr> \<noteq> g" by (simp add: edges_update_iff)
  with sim' changed show ?thesis
    by (simp add: step_ok_def apply_ ov_delete_edge_def Let_def del: apply_primitive.simps)
qed

lemma step_stamp:
  assumes "sim ps ov g" "unique_keys (g_edges g)" "\<forall>p \<in> set ps. wf_primitive p"
    and "StampEdgeIdentity t i s d \<in> set ps" "stamp_fresh (StampEdgeIdentity t i s d) g"
  shows "step_ok ps n (StampEdgeIdentity t i s d) ov g"
proof -
  let ?k = "(t, ref_key s, ref_key d, Some i)" and ?r = "(t, ref_key s, ref_key d, i)"
  let ?l = "(t, ref_key s, ref_key d, None)" and ?u = "(t, ref_key s, ref_key d, unidentified)"
  let ?es = "image_mset (\<lambda>e. if edge_key e = ?l then e\<lparr>e_identity := Some i\<rparr> else e) (g_edges g)"
  have view: "edge_view (g_edges g) ?l (ov_edges ov ?u)"
    using assms(1) over_member [OF assms(4), of stamped_edges] by (auto simp: sim_def)
  have wf: "wf_primitive (StampEdgeIdentity t i s d)" using assms(3,4) by blast
  then have i: "i \<noteq> unidentified"
    by (auto simp: wf_primitive_def valid_edge_base_def non_blank_def unidentified_def split: if_splits)
  have apply_: "apply_primitive (StampEdgeIdentity t i s d) g = g\<lparr>g_edges := ?es\<rparr>"
    by (simp add: legacy_edge_key)
  from view_split [OF assms(2) view] show ?thesis
  proof (elim disjE exE conjE)
    assume none: "ov_edges ov ?u = None" "?l \<notin># edge_keys (g_edges g)"
    then have "?es = g_edges g" by (simp add: image_key_split del: in_image_mset)
    then have "g\<lparr>g_edges := ?es\<rparr> = g" by (simp only: edges_update_iff)
    with none assms(1) show ?thesis
      by (simp add: step_ok_def apply_ ov_stamp_def del: apply_primitive.simps)
  next
    fix e es assume e: "ov_edges ov ?u = Some (e_props e)" "g_edges g = add_mset e es"
      "edge_key e = ?l" "?l \<notin># edge_keys es"
    then have es': "?es = add_mset (e\<lparr>e_identity := Some i\<rparr>) es" using stamp_split [OF e(3,4)] by simp
    have key': "edge_key (e\<lparr>e_identity := Some i\<rparr>) = ?k" using e(3) by (simp add: edge_key_def)
    from assms(5) e have fresh: "?k \<notin># edge_keys es" by auto
    let ?popped = "(ov_edges ov)(?u := None)"
    let ?ove = "if ?popped ?r = None then ?popped(?r \<mapsto> e_props e) else ?popped"
    have sim': "sim ps (ov\<lparr>ov_edges := ?ove\<rparr>) (g\<lparr>g_edges := ?es\<rparr>)"
    proof (rule sim_edges [OF assms(1,3)])
      fix t' s' d' i' assume "i' \<noteq> unidentified"
        and v: "edge_view (g_edges g) (t', s', d', Some i') (ov_edges ov (t', s', d', i'))"
      show "edge_view ?es (t', s', d', Some i') (?ove (t', s', d', i'))"
      proof (cases "(t', s', d', i') = ?r")
        case True
        with v e fresh have "ov_edges ov ?r = None" by (simp add: view_add_other view_absent del: in_image_mset)
        with True i fresh key' es' show ?thesis by (simp add: view_add_same del: in_image_mset)
      next
        case False
        with v e key' es' \<open>i' \<noteq> unidentified\<close> show ?thesis by (auto simp: view_add_other)
      qed
    next
      fix t' s' d'
      assume v: "edge_view (g_edges g) (t', s', d', None) (ov_edges ov (t', s', d', unidentified))"
      show "edge_view ?es (t', s', d', None) (?ove (t', s', d', unidentified))"
      proof (cases "(t', s', d') = (t, ref_key s, ref_key d)")
        case True
        with i e(4) key' es' show ?thesis by (simp add: view_add_other view_absent del: in_image_mset)
      next
        case False
        with v e key' es' show ?thesis by (auto simp: view_add_other)
      qed
    qed
    have "?l \<in># edge_keys (g_edges g)" unfolding e(2) using e(3) by simp
    moreover have "?l \<notin># edge_keys ?es" unfolding es' using e(4) key' by simp
    ultimately have "g\<lparr>g_edges := ?es\<rparr> \<noteq> g" unfolding edges_update_iff by metis
    with sim' e(1) show ?thesis
      by (simp add: step_ok_def apply_ ov_stamp_def Let_def del: apply_primitive.simps)
  qed
qed

section \<open>The walk over a group\<close>

lemma step_all:
  assumes "sim ps ov g" "plain_state g" "unique_keys (g_edges g)" "\<forall>q \<in> set ps. good_prim q"
    and "p \<in> set ps" "stamp_fresh p g"
  shows "step_ok ps n p ov g"
proof -
  have wf: "\<forall>q \<in> set ps. wf_primitive q" using assms(4) by (auto simp: good_prim_def)
  have good: "good_prim p" using assms(4,5) by blast
  show ?thesis
  proof (cases p)
    case UpsertNode
    with assms good show ?thesis by (blast intro: step_upsert_node)
  next
    case MergeProperty
    with assms good show ?thesis by (blast intro: step_merge_property)
  next
    case RemoveProperty
    with assms show ?thesis by (blast intro: step_remove_property)
  next
    case DeleteNode
    with assms wf show ?thesis by (blast intro: step_delete_node)
  next
    case UpsertEdge
    with assms wf show ?thesis by (blast intro: step_upsert_edge)
  next
    case DeleteEdge
    with assms wf show ?thesis by (blast intro: step_delete_edge)
  next
    case StampEdgeIdentity
    with assms wf show ?thesis by (blast intro: step_stamp)
  qed
qed

lemma plain_state_node:
  "plain_state g \<Longrightarrow> plain_map m \<Longrightarrow> plain_state (g\<lparr>g_nodes := (g_nodes g)(k \<mapsto> m)\<rparr>)"
  by (auto simp: plain_state_def ran_def split: if_splits)

lemma plain_state_edges:
  "plain_state g \<Longrightarrow> \<forall>e \<in># es. plain_map (e_props e) \<Longrightarrow> plain_state (g\<lparr>g_edges := es\<rparr>)"
  by (simp add: plain_state_def)

lemma plain_put_edge:
  assumes "\<forall>e \<in># es. plain_map (e_props e)" "plain_dict ps"
  shows "\<forall>e \<in># put_edge k ps es. plain_map (e_props e)"
proof -
  have "plain_map (e_props e)" if "e \<in># ensure_edge k es" for e
    using that assms(1) by (cases k) (auto simp: ensure_edge_def bare_edge_def split: if_splits)
  with assms(2) show ?thesis by (auto simp: put_edge_def merge_edge_def plain_map_add)
qed

lemma plain_apply:
  assumes "plain_state g" "good_prim p"
  shows "plain_state (apply_primitive p g)"
proof (cases p)
  case (UpsertNode l i ps emb)
  with assms have "plain_dict (wanted_node ps emb)"
    by (auto simp: good_prim_def intro: plain_wanted_node)
  moreover have "plain_map (case g_nodes g (l, i) of None \<Rightarrow> Map.empty | Some m \<Rightarrow> m)"
    using assms(1) by (auto simp: plain_state_def ran_def split: option.splits)
  ultimately have "plain_map (merged_node (g_nodes g (l, i)) ps emb)"
    by (simp add: merged_node_wanted plain_map_add)
  with assms(1) show ?thesis by (simp add: UpsertNode plain_state_node)
next
  case (MergeProperty l i ps)
  with assms have "plain_dict ps" using wf_plain_dict [of p] by (simp add: good_prim_def)
  moreover have "plain_map m" if "g_nodes g (l, i) = Some m" for m
    using that assms(1) by (auto simp: plain_state_def ran_def)
  ultimately show ?thesis
    using assms(1) by (auto simp: MergeProperty plain_state_node plain_map_add split: option.split)
next
  case (RemoveProperty l i ks)
  moreover have "plain_map m" if "g_nodes g (l, i) = Some m" for m
    using that assms(1) by (auto simp: plain_state_def ran_def)
  ultimately show ?thesis
    using assms(1)
    by (auto simp: cy_remove_property_def plain_state_node plain_map_restrict split: option.split)
next
  case (DeleteNode l i)
  with assms(1) show ?thesis
    by (auto simp: cy_delete_node_def plain_state_def ran_def split: option.split if_splits)
next
  case (UpsertEdge t i s d ps)
  with assms have "plain_dict ps" using wf_plain_dict [of p] by (simp add: good_prim_def)
  with assms(1) have "\<forall>e \<in># put_edge k ps (g_edges g). plain_map (e_props e)" for k
    by (intro plain_put_edge) (auto simp: plain_state_def)
  with assms(1) show ?thesis
    by (simp add: UpsertEdge cy_upsert_edge_put plain_state_edges del: cy_upsert_edge.simps)
next
  case (DeleteEdge t i s d)
  with assms(1) show ?thesis by (auto simp: plain_state_def)
next
  case (StampEdgeIdentity t i s d)
  with assms(1) show ?thesis by (auto simp: plain_state_def)
qed

lemma unique_stamp:
  assumes "unique_keys es" "\<not> ((t, s, d, None) \<in># edge_keys es \<and> (t, s, d, Some i) \<in># edge_keys es)"
  shows "unique_keys (image_mset (\<lambda>e. if edge_key e = (t, s, d, None) then e\<lparr>e_identity := Some i\<rparr> else e) es)"
proof (cases "(t, s, d, None) \<in># edge_keys es")
  case False
  with assms(1) show ?thesis by (simp add: image_key_split del: in_image_mset)
next
  case True
  then obtain e where "e \<in># es" "edge_key e = (t, s, d, None)" by auto
  then obtain es' where e: "es = add_mset e es'" "edge_key e = (t, s, d, None)" by (meson mset_add)
  with assms True have "(t, s, d, None) \<notin># edge_keys es'" "(t, s, d, Some i) \<notin># edge_keys es'"
      "unique_keys es'"
    by (auto simp: unique_keys_add simp del: in_image_mset)
  moreover have "edge_key (e\<lparr>e_identity := Some i\<rparr>) = (t, s, d, Some i)"
    using e(2) by (simp add: edge_key_def)
  ultimately show ?thesis using e stamp_split [of e t s d es' i]
    by (simp add: unique_keys_add del: in_image_mset)
qed

lemma unique_apply:
  assumes "unique_keys (g_edges g)" "stamp_fresh p g"
  shows "unique_keys (g_edges (apply_primitive p g))"
proof (cases p)
  case (UpsertEdge t i s d ps)
  have "\<exists>v. edge_view es k v" for es k
  proof (cases "k \<in># edge_keys es")
    case True
    then obtain e where "e \<in># es" "edge_key e = k" by auto
    then show ?thesis by (intro exI [of _ "Some (e_props e)"]) (auto simp: edge_view_def)
  qed (auto simp: view_absent simp del: in_image_mset)
  then have "unique_keys (put_edge k ps (g_edges g))" for k
    using put_edge_view(3) [OF assms(1)] by blast
  with assms(1) show ?thesis by (simp add: UpsertEdge cy_upsert_edge_put del: cy_upsert_edge.simps)
next
  case (StampEdgeIdentity t i s d)
  have "g_edges (apply_primitive p g) = image_mset
      (\<lambda>e. if edge_key e = (t, ref_key s, ref_key d, None) then e\<lparr>e_identity := Some i\<rparr> else e) (g_edges g)"
    by (simp add: StampEdgeIdentity legacy_edge_key)
  moreover from assms StampEdgeIdentity have "unique_keys (image_mset (\<lambda>e. if edge_key e =
      (t, ref_key s, ref_key d, None) then e\<lparr>e_identity := Some i\<rparr> else e) (g_edges g))"
    by (intro unique_stamp) (simp_all del: in_image_mset)
  ultimately show ?thesis by (simp only:)
qed (use assms(1) in \<open>auto simp: cy_remove_property_def cy_delete_node_def unique_keys_filter
      split: option.split prod.splits\<close>)

fun stamps_fresh :: "primitive list \<Rightarrow> graph \<Rightarrow> bool" where
  "stamps_fresh [] g = True"
| "stamps_fresh (p # ps) g = (stamp_fresh p g \<and> stamps_fresh ps (apply_primitive p g))"

text \<open>
  What the walk is to compute, stated on the graph: stop at the first missing target, and keep the
  primitives that change the graph at their turn.
\<close>

fun effective :: "nat \<Rightarrow> primitive list \<Rightarrow> graph \<Rightarrow> (gateway_error, primitive list) result" where
  "effective n [] g = Inr []"
| "effective n (p # ps) g =
     (if missing_target p g then Inl (MissingTargetError n)
      else bind_result (effective (Suc n) ps (apply_primitive p g)) (\<lambda>kept.
             Inr (if apply_primitive p g = g then kept else p # kept)))"

lemma walk_effective:
  assumes "sim all ov g" "plain_state g" "unique_keys (g_edges g)" "\<forall>q \<in> set all. good_prim q"
    and "set ps \<subseteq> set all" "stamps_fresh ps g"
  shows "walk n ps ov = effective n ps g"
  using assms
proof (induction ps arbitrary: n ov g)
  case (Cons p ps)
  then have step: "step_ok all n p ov g" by (intro step_all) auto
  show ?case
  proof (cases "ov_apply n p ov")
    case (Inl e)
    with step show ?thesis by (simp add: step_ok_def)
  next
    case (Inr r)
    obtain ov' b where r: "r = (ov', b)" by (cases r)
    with step Inr have s: "\<not> missing_target p g" "sim all ov' (apply_primitive p g)"
      "b \<longleftrightarrow> apply_primitive p g \<noteq> g"
      by (auto simp: step_ok_def)
    have "walk (Suc n) ps ov' = effective (Suc n) ps (apply_primitive p g)"
      using Cons.prems s(2) by (intro Cons.IH) (auto simp: plain_apply unique_apply)
    with Inr r s show ?thesis by (cases "apply_primitive p g = g") simp_all
  qed
qed simp

lemma read_overlay_sim:
  assumes "mset es = g_edges g" "\<forall>p \<in> set ps. wf_primitive p"
  shows "sim ps (read_overlay g es ps n) g"
proof -
  have legacy: "\<forall>(t, s, d, i) \<in> set (over stamped_edges ps). i = unidentified"
    using stamped_unidentified by blast
  have edges: "ov_edges (read_overlay g es ps n) k =
      (if k \<in> set (over stamped_edges ps) \<and> last_match (legacy_matches k) es \<noteq> None
       then last_match (legacy_matches k) es
       else if k \<in> set (over named_edges ps) then last_match (key_matches k) es else None)" for k
    by (simp add: read_overlay_def Let_def map_add_def read_edges_lookup
        read_unidentified_lookup [OF legacy] split: option.splits)
  have nodes: "ov_nodes (read_overlay g es ps n) k =
      (if k \<in> set (over acted_on ps) then g_nodes g k
       else if k \<in> set (over endpoints ps) \<and> g_nodes g k \<noteq> None then Some Map.empty else None)" for k
    by (auto simp: read_overlay_def Let_def read_nodes_lookup read_existing_nodes_lookup)
  have member: "e \<in># g_edges g \<longleftrightarrow> e \<in> set es" for e
    using assms(1) by (metis set_mset_mset)
  have "edge_view (g_edges g) (t, s, d, Some i) (ov_edges (read_overlay g es ps n) (t, s, d, i))"
    if "(t, s, d, i) \<in> set (over named_edges ps)" for t s d i
  proof -
    from that have "i \<noteq> unidentified" using named_identified [OF assms(2)] by blast
    then have "(t, s, d, i) \<notin> set (over stamped_edges ps)" using stamped_unidentified by blast
    with that have "ov_edges (read_overlay g es ps n) (t, s, d, i) = last_match (key_matches (t, s, d, i)) es"
      by (simp add: edges)
    then show ?thesis
      by (cases "last_match (key_matches (t, s, d, i)) es")
        (auto simp: edge_view_def member edge_is_key last_match_None dest!: last_match_Some)
  qed
  moreover have "edge_view (g_edges g) (t, s, d, None) (ov_edges (read_overlay g es ps n) (t, s, d, i))"
    if "(t, s, d, i) \<in> set (over stamped_edges ps)" for t s d i
  proof -
    from that have "i = unidentified" using stamped_unidentified by blast
    then have "(t, s, d, i) \<notin> set (over named_edges ps)" using named_identified [OF assms(2)] by blast
    with that have "ov_edges (read_overlay g es ps n) (t, s, d, i) = last_match (legacy_matches (t, s, d, i)) es"
      by (simp add: edges)
    then show ?thesis
      by (cases "last_match (legacy_matches (t, s, d, i)) es")
        (auto simp: edge_view_def member legacy_edge_key last_match_None dest!: last_match_Some)
  qed
  ultimately show ?thesis unfolding sim_def by (auto simp: nodes)
qed

lemma effective_kept:
  "effective n ps g = Inr kept \<Longrightarrow> apply_all kept g = apply_all ps g"
  by (induction n ps g arbitrary: kept rule: effective.induct)
    (auto simp: bind_result_Inr split: if_splits)

lemma effective_rejected:
  "effective n ps g = Inl e \<longleftrightarrow>
     (\<exists>i < length ps. e = MissingTargetError (n + i)
        \<and> missing_target (ps ! i) (apply_all (take i ps) g)
        \<and> (\<forall>j < i. \<not> missing_target (ps ! j) (apply_all (take j ps) g)))"
proof (induction n ps g rule: effective.induct)
  case (2 n p ps g)
  show ?case
  proof (cases "missing_target p g")
    case True
    then show ?thesis by (auto simp: less_Suc_eq_0_disj)
  next
    case False
    then show ?thesis
      by (simp add: bind_result_Inl 2 Ex_less_Suc2 All_less_Suc2 conj_ac)
  qed
qed simp

section \<open>Properties\<close>

text \<open>
  C9. The batched reads and the overlay walk compute exactly what the graph says: the call is rejected with
  the index of the first primitive whose target does not exist at its turn, and otherwise keeps, in order,
  exactly the primitives that change the graph at their turn. The batch size and the order FalkorDB reports
  edges in play no part.

  The conditions: the graph's edges have distinct keys (\<open>unique_keys\<close>) and its property values are storable
  ones (\<open>plain_state\<close>); the primitives passed validation, hold no \<^verbatim>\<open>nan\<close> (\<open>nan_free\<close>), and at its turn no stamp gives
  an edge an identity that another edge of its type and ends has (\<open>stamps_fresh\<close>; \<open>stamp_onto_used_identity\<close>
  below shows that this one is needed).
\<close>

theorem select_effective_refines:
  assumes "mset es = g_edges g" "plain_state g" "unique_keys (g_edges g)"
    and "\<forall>p \<in> set ps. wf_primitive p \<and> nan_free p" "stamps_fresh ps g"
  shows "select_effective_primitives g es ps batch_size = effective 0 ps g"
  unfolding select_effective_primitives_def
  using assms read_overlay_sim [OF assms(1)]
  by (intro walk_effective [of ps]) (auto simp: good_prim_def)

lemma filter_exact:
  assumes "mset es = g_edges g" "plain_state g" "unique_keys (g_edges g)"
    and "\<forall>p \<in> set ps. wf_primitive p \<and> nan_free p" "stamps_fresh ps g"
  shows "case select_effective_primitives g es ps batch_size of
      Inr kept \<Rightarrow> apply_all kept g = apply_all ps g
    | Inl e \<Rightarrow> \<exists>i < length ps. e = MissingTargetError i
        \<and> missing_target (ps ! i) (apply_all (take i ps) g)
        \<and> (\<forall>j < i. \<not> missing_target (ps ! j) (apply_all (take j ps) g))"
proof -
  have "select_effective_primitives g es ps batch_size = effective 0 ps g"
    unfolding select_effective_primitives_def
    using assms read_overlay_sim [OF assms(1)]
    by (intro walk_effective [of ps]) (auto simp: good_prim_def)
  then show ?thesis
    using effective_kept [of 0 ps g] effective_rejected [of 0 ps g]
    by (cases "effective 0 ps g") auto
qed

text \<open>
  C14. What the filter lets through is enough: applying only the kept primitives leaves the graph the
  whole group would have left, and a group of which nothing is kept leaves the graph as it was. A rejected
  group has a first primitive whose target is missing once the earlier ones are applied. The conditions are
  those of the refinement: distinct edge keys, storable values in the graph, validated primitives without
  \<^verbatim>\<open>nan\<close>, and stamps that give no edge an identity in use.
\<close>

theorem select_effective_sound:
  assumes "mset es = g_edges g" "plain_state g" "unique_keys (g_edges g)"
    and "\<forall>p \<in> set ps. wf_primitive p \<and> nan_free p" "stamps_fresh ps g"
  shows "case select_effective_primitives g es ps batch_size of
      Inr kept \<Rightarrow> apply_all kept g = apply_all ps g
    | Inl e \<Rightarrow> \<exists>i < length ps. e = MissingTargetError i
        \<and> missing_target (ps ! i) (apply_all (take i ps) g)
        \<and> (\<forall>j < i. \<not> missing_target (ps ! j) (apply_all (take j ps) g))"
  using assms by (rule filter_exact)

definition sample_role :: node_ref where
  "sample_role = \<lparr>ref_label = ''Role'', ref_id = ''r1''\<rparr>"

definition sample_policy :: node_ref where
  "sample_policy = \<lparr>ref_label = ''Policy'', ref_id = ''p1''\<rparr>"

definition sample_edge :: edge where
  "sample_edge =
     \<lparr>e_type = ''OWNS'', e_source = (''Role'', ''r1''), e_target = (''Policy'', ''p1''),
      e_identity = None, e_props = [''since'' \<mapsto> PInt 2024]\<rparr>"

definition sample_graph :: graph where
  "sample_graph =
     \<lparr>g_nodes = [(''Role'', ''r1'') \<mapsto> [''name'' \<mapsto> PStr ''Owner''],
                 (''Policy'', ''p1'') \<mapsto> [''status'' \<mapsto> PStr ''draft'']],
      g_edges = {#sample_edge#}\<rparr>"

definition sample_group :: "primitive list" where
  "sample_group =
     [UpsertNode ''Role'' ''r1'' [(''name'', PStr ''Owner'')] None,
      StampEdgeIdentity ''OWNS'' ''e1'' sample_role sample_policy,
      UpsertEdge ''OWNS'' ''e1'' sample_role sample_policy [(''since'', PInt 2024)],
      MergeProperty ''Policy'' ''p1'' [(''status'', PStr ''approved'')],
      DeleteNode ''Control'' ''c9'']"

lemma sample_graph_ok: "plain_state sample_graph" "unique_keys (g_edges sample_graph)"
    "mset [sample_edge] = g_edges sample_graph"
  by (auto simp: sample_graph_def plain_state_def plain_map_def ran_def sample_edge_def
      unique_keys_def split: if_splits)

lemma sample_group_ok: "\<forall>p \<in> set sample_group. wf_primitive p \<and> nan_free p"
    "stamps_fresh sample_group sample_graph"
proof -
  have "list_all (\<lambda>p. wf_primitive p \<and> nan_free p) sample_group" by code_simp
  then show "\<forall>p \<in> set sample_group. wf_primitive p \<and> nan_free p" by (simp add: list_all_iff)
  show "stamps_fresh sample_group sample_graph"
    by (simp add: sample_group_def sample_graph_def sample_edge_def edge_key_def ref_key_def
        sample_role_def sample_policy_def)
qed

theorem select_effective_refines_witness:
  "select_effective_primitives sample_graph [sample_edge] sample_group 10
   = effective 0 sample_group sample_graph"
  using select_effective_refines [OF sample_graph_ok(3,1,2) sample_group_ok] .

text \<open>
  What \<open>stamps_fresh\<close> excludes: one edge has the identity \<open>e1\<close>, a parallel one has none, and the group stamps
  that one with \<open>e1\<close> and then upserts \<open>e1\<close>.  FalkorDB then holds two edges of that identity, and the upsert
  sets the properties of both; the overlay keeps the properties of the first (\<^verbatim>\<open>setdefault\<close>), finds them as
  wanted, and drops the upsert.
\<close>

definition doubled_graph :: graph where
  "doubled_graph = sample_graph\<lparr>g_edges := {#sample_edge,
     sample_edge\<lparr>e_identity := Some ''e1'', e_props := [''since'' \<mapsto> PInt 2020]\<rparr>#}\<rparr>"

definition doubled_edges :: "edge list" where
  "doubled_edges = [sample_edge, sample_edge\<lparr>e_identity := Some ''e1'', e_props := [''since'' \<mapsto> PInt 2020]\<rparr>]"

definition restamping_group :: "primitive list" where
  "restamping_group =
     [StampEdgeIdentity ''OWNS'' ''e1'' sample_role sample_policy,
      UpsertEdge ''OWNS'' ''e1'' sample_role sample_policy [(''since'', PInt 2020)]]"

lemma stamp_onto_used_identity:
  "mset doubled_edges = g_edges doubled_graph" "list_all (\<lambda>p. wf_primitive p \<and> nan_free p) restamping_group"
  "select_effective_primitives doubled_graph doubled_edges restamping_group 10 = Inr [hd restamping_group]"
  "apply_all [hd restamping_group] doubled_graph \<noteq> apply_all restamping_group doubled_graph"
proof -
  show "mset doubled_edges = g_edges doubled_graph" by (simp add: doubled_edges_def doubled_graph_def)
  show "list_all (\<lambda>p. wf_primitive p \<and> nan_free p) restamping_group" by code_simp
  show "select_effective_primitives doubled_graph doubled_edges restamping_group 10 = Inr [hd restamping_group]"
    by code_simp
  have "image_mset (\<lambda>e. e_props e ''since'') (g_edges (apply_all [hd restamping_group] doubled_graph))
      = {#Some (PInt 2024), Some (PInt 2020)#}"
    "image_mset (\<lambda>e. e_props e ''since'') (g_edges (apply_all restamping_group doubled_graph))
      = {#Some (PInt 2020), Some (PInt 2020)#}"
    by (simp_all add: restamping_group_def doubled_graph_def sample_graph_def sample_edge_def sample_role_def
        sample_policy_def ref_key_def edge_between_def edge_is_def)
  then show "apply_all [hd restamping_group] doubled_graph \<noteq> apply_all restamping_group doubled_graph" by auto
qed

theorem select_effective_sound_witness:
  "case select_effective_primitives sample_graph [sample_edge] sample_group 10 of
      Inr kept \<Rightarrow> apply_all kept sample_graph = apply_all sample_group sample_graph
    | Inl e \<Rightarrow> \<exists>i < length sample_group. e = MissingTargetError i
        \<and> missing_target (sample_group ! i) (apply_all (take i sample_group) sample_graph)
        \<and> (\<forall>j < i. \<not> missing_target (sample_group ! j) (apply_all (take j sample_group) sample_graph))"
  using select_effective_sound [OF sample_graph_ok(3,1,2) sample_group_ok] .

end
