(* ===== verification/Entry_Codec.thy ===== *)
theory Entry_Codec
  imports Vocabulary
begin

text \<open>
  Encoding a primitive as a log entry and decoding it (\<^verbatim>\<open>graph_gateway/entry_codec.py\<close>). The entry's
  content is the envelope with the reserved \<open>op\<close> key; decoding runs the field validation of the model
  it names, so an entry nothing valid could have produced is refused. The lemmas give the round trip, that
  only a valid primitive is ever decoded, and that different primitives have different entries.
\<close>

record log_draft =
  dr_name :: string
  dr_identity :: string
  dr_content :: props
  dr_embedding :: "f64 list option"

record log_entry =
  en_graph :: string
  en_position :: nat
  en_group :: nat
  en_name :: string
  en_identity :: string
  en_content :: props
  en_embedding :: "f64 list option"

definition dump_ref :: "node_ref \<Rightarrow> pyval" where
  "dump_ref r = PDict [(''label'', PStr (ref_label r)), (''id'', PStr (ref_id r))]"

fun encode_primitive :: "primitive \<Rightarrow> log_draft" where
  "encode_primitive (UpsertNode l i ps emb) =
     \<lparr>dr_name = l, dr_identity = i,
      dr_content = [(''op'', PStr ''upsert_node''), (''properties'', PDict ps)], dr_embedding = emb\<rparr>"
| "encode_primitive (UpsertEdge t i s d ps) =
     \<lparr>dr_name = t, dr_identity = i,
      dr_content = [(''op'', PStr ''upsert_edge''), (''source'', dump_ref s), (''target'', dump_ref d),
                    (''properties'', PDict ps)], dr_embedding = None\<rparr>"
| "encode_primitive (MergeProperty l i ps) =
     \<lparr>dr_name = l, dr_identity = i,
      dr_content = [(''op'', PStr ''merge_property''), (''properties'', PDict ps)], dr_embedding = None\<rparr>"
| "encode_primitive (RemoveProperty l i ks) =
     \<lparr>dr_name = l, dr_identity = i,
      dr_content = [(''op'', PStr ''remove_property''), (''keys'', PList (map PStr ks))],
      dr_embedding = None\<rparr>"
| "encode_primitive (DeleteNode l i) =
     \<lparr>dr_name = l, dr_identity = i, dr_content = [(''op'', PStr ''delete_node'')], dr_embedding = None\<rparr>"
| "encode_primitive (DeleteEdge t i s d) =
     \<lparr>dr_name = t, dr_identity = i,
      dr_content = [(''op'', PStr ''delete_edge''), (''source'', dump_ref s), (''target'', dump_ref d)],
      dr_embedding = None\<rparr>"
| "encode_primitive (StampEdgeIdentity t i s d) =
     \<lparr>dr_name = t, dr_identity = i,
      dr_content = [(''op'', PStr ''stamp_edge_identity''), (''source'', dump_ref s),
                    (''target'', dump_ref d)], dr_embedding = None\<rparr>"

section \<open>Fields read back\<close>

text \<open>
  The types a field must have before the model's own validation: \<open>None\<close> is a \<^verbatim>\<open>ValidationError\<close>. An
  absent key is read as \<^verbatim>\<open>None\<close> by \<^verbatim>\<open>content.get\<close>, which no field accepts.
\<close>

fun as_dict :: "pyval option \<Rightarrow> props option" where
  "as_dict (Some (PDict ps)) = Some ps"
| "as_dict _ = None"

fun as_text :: "pyval option \<Rightarrow> string option" where
  "as_text (Some (PStr s)) = Some s"
| "as_text _ = None"

fun all_text :: "pyval list \<Rightarrow> string list option" where
  "all_text [] = Some []"
| "all_text (PStr s # vs) = map_option ((#) s) (all_text vs)"
| "all_text _ = None"

fun as_texts :: "pyval option \<Rightarrow> string list option" where
  "as_texts (Some (PList vs)) = all_text vs"
| "as_texts (Some (PTuple vs)) = all_text vs"
| "as_texts _ = None"

text \<open>A \<open>NodeRef\<close> holds a label and an id and nothing else.\<close>

definition as_ref :: "pyval option \<Rightarrow> node_ref option" where
  "as_ref v =
     Option.bind (as_dict v) (\<lambda>fields.
     Option.bind (as_text (map_of fields ''label'')) (\<lambda>label.
     Option.bind (as_text (map_of fields ''id'')) (\<lambda>i.
       if set (map fst fields) \<subseteq> {''label'', ''id''} then Some \<lparr>ref_label = label, ref_id = i\<rparr>
       else None)))"

definition edge_fields :: "log_entry \<Rightarrow> (node_ref \<Rightarrow> node_ref \<Rightarrow> primitive option) \<Rightarrow> primitive option" where
  "edge_fields en build =
     Option.bind (as_ref (map_of (en_content en) ''source'')) (\<lambda>s.
     Option.bind (as_ref (map_of (en_content en) ''target'')) (\<lambda>d.
     Option.bind (build s d) model_validate))"

text \<open>
  The node operations take \<open>properties\<close> and \<open>keys\<close> from the content when they are there; a model that
  declares no such field refuses it.
\<close>

definition node_primitive :: "string \<Rightarrow> log_entry \<Rightarrow> primitive option" where
  "node_primitive op en =
     (let properties = map_of (en_content en) ''properties''; ks = map_of (en_content en) ''keys''
      in if op = ''merge_property'' then
           (if ks \<noteq> None then None
            else Option.bind (as_dict properties)
                   (\<lambda>ps. model_validate (MergeProperty (en_name en) (en_identity en) ps)))
         else if op = ''remove_property'' then
           (if properties \<noteq> None then None
            else Option.bind (as_texts ks)
                   (\<lambda>ks. model_validate (RemoveProperty (en_name en) (en_identity en) ks)))
         else if properties \<noteq> None \<or> ks \<noteq> None then None
         else model_validate (DeleteNode (en_name en) (en_identity en)))"

definition decode_fields :: "log_entry \<Rightarrow> primitive option" where
  "decode_fields en =
     (let properties = map_of (en_content en) ''properties''; t = en_name en; i = en_identity en
      in case as_text (map_of (en_content en) ''op'') of
           None \<Rightarrow> None
         | Some op \<Rightarrow>
             if op = ''upsert_node'' then
               Option.bind (as_dict properties)
                 (\<lambda>ps. model_validate (UpsertNode t i ps (en_embedding en)))
             else if op = ''upsert_edge'' then
               edge_fields en (\<lambda>s d. map_option (UpsertEdge t i s d) (as_dict properties))
             else if op = ''delete_edge'' then edge_fields en (\<lambda>s d. Some (DeleteEdge t i s d))
             else if op = ''stamp_edge_identity'' then
               edge_fields en (\<lambda>s d. Some (StampEdgeIdentity t i s d))
             else if op \<in> {''merge_property'', ''remove_property'', ''delete_node''} then
               node_primitive op en
             else None)"

definition decode_entry :: "log_entry \<Rightarrow> (gateway_error, primitive) result" where
  "decode_entry en =
     (case decode_fields en of
        None \<Rightarrow> Inl (GraphLogEntryDecodeError (en_graph en) (en_position en))
      | Some p \<Rightarrow> Inr p)"

text \<open>The entry a draft is recorded as, once the log store has given it its place.\<close>

definition recorded :: "string \<Rightarrow> nat \<Rightarrow> nat \<Rightarrow> log_draft \<Rightarrow> log_entry" where
  "recorded graph position gid d =
     \<lparr>en_graph = graph, en_position = position, en_group = gid, en_name = dr_name d,
      en_identity = dr_identity d, en_content = dr_content d, en_embedding = dr_embedding d\<rparr>"

section \<open>Round trip\<close>

lemma as_ref_dump [simp]: "as_ref (Some (dump_ref r)) = Some r"
  by (simp add: as_ref_def dump_ref_def)

lemma all_text_map [simp]: "all_text (map PStr ks) = Some ks"
  by (induction ks) auto

lemma decode_encode:
  "model_validate p = Some p \<Longrightarrow> decode_entry (recorded g n k (encode_primitive p)) = Inr p"
  by (cases p)
    (simp_all add: decode_entry_def decode_fields_def recorded_def edge_fields_def node_primitive_def
      Let_def)

lemma valid_props_idem: "valid_props r ps = Some qs \<Longrightarrow> valid_props r qs = Some qs"
proof -
  assume v: "valid_props r ps = Some qs"
  then have ps: "\<forall>(k, v) \<in> set ps. \<not> py_blank k \<and> k \<notin> set r \<and> is_valid_property_value v"
    and qs: "qs = dict_map to_list ps"
    by (auto simp: valid_props_def validate_property_map_Inr split: sum.splits)
  then have "\<forall>(k, v) \<in> set qs. \<not> py_blank k \<and> k \<notin> set r \<and> is_valid_property_value v"
    by (auto simp: dict_map_def)
  moreover have "dict_map to_list qs = qs" by (simp add: qs dict_map_def case_prod_unfold comp_def)
  ultimately have "validate_property_map r qs = Inr qs" by (simp add: validate_property_map_Inr)
  then show ?thesis by (simp add: valid_props_def)
qed

lemma valid_props_again:
  "valid_props r ps = Some qs \<Longrightarrow> valid_props r qs = Some qs \<and> (qs = [] \<longleftrightarrow> ps = [])"
  using valid_props_idem [of r ps qs]
  by (auto simp: valid_props_def validate_property_map_Inr dict_map_def split: sum.splits)

lemma model_validate_idem: "model_validate p = Some q \<Longrightarrow> model_validate q = Some q"
  by (cases p) (auto split: if_splits dest: valid_props_again)

lemma decode_entry_valid: "decode_entry en = Inr p \<Longrightarrow> model_validate p = Some p"
  by (auto simp: decode_entry_def decode_fields_def edge_fields_def node_primitive_def Let_def
      bind_eq_Some_conv model_validate_idem simp del: model_validate.simps
      split: option.splits if_splits)

text \<open>
  C15. Recording a primitive and decoding the entry gives the primitive back, whatever place the log gives
  it; in particular no two primitives share an entry, so a replayed log and a live apply cannot disagree.
\<close>

theorem decode_encode_roundtrip:
  assumes "wf_primitive p"
  shows "decode_entry (recorded graph position gid (encode_primitive p)) = Inr p"
  using assms by (intro decode_encode) (simp add: wf_primitive_def)

definition sample_upsert :: primitive where
  "sample_upsert =
     UpsertNode ''Capability'' ''cap-7''
       [(''name'', PStr ''Logging''), (''levels'', PList [PInt 1, PInt 2])] (Some [0x3FF8000000000000])"

theorem decode_encode_roundtrip_witness:
  "decode_entry (recorded ''policies'' 12 3 (encode_primitive sample_upsert)) = Inr sample_upsert"
  by (rule decode_encode_roundtrip) code_simp

text \<open>
  C16. An entry that decodes yields a primitive that passes its own validation unchanged: a hand-made or
  damaged entry cannot smuggle an unsafe label, a reserved key or an unstorable value into a replay, and
  an entry that does not decode is reported by graph and position.
\<close>

theorem decode_entry_safe:
  "case decode_entry en of
     Inr p \<Rightarrow> model_validate p = Some p
   | Inl e \<Rightarrow> e = GraphLogEntryDecodeError (en_graph en) (en_position en)"
proof (cases "decode_entry en")
  case (Inl e)
  then show ?thesis by (simp add: decode_entry_def split: option.splits)
next
  case (Inr p)
  with decode_entry_valid [OF Inr] show ?thesis by simp
qed

end
