(* ===== verification/Graph_Log.thy ===== *)
theory Graph_Log
  imports Entry_Codec
begin

text \<open>
  The insert-only graph mutation log (\<^verbatim>\<open>graph_gateway/store.py\<close>): the tables, the append of a
  transaction group, the applied markers, the digest checkpoints and every read the gateway makes. The
  functions are the transaction bodies; an unreachable database is an outcome of the caller's
  environment (theory \<open>Gateway_World\<close>). The locale \<open>mutation_log\<close> states what the gateway relies on, and
  the model's own operations are shown to provide it.
\<close>

record group_row =
  gr_id :: nat
  gr_graph :: string
  gr_first :: nat
  gr_last :: nat
  gr_audit :: "string option"
  gr_swap :: "nat option"

text \<open>\<open>ls_next\<close> supplies the ids the database generates; \<open>ls_audit\<close> is the audit table's key column.\<close>

record log_store =
  ls_entries :: "log_entry list"
  ls_groups :: "group_row list"
  ls_markers :: "string \<rightharpoonup> nat"
  ls_checkpoints :: "string \<times> nat \<rightharpoonup> string"
  ls_audit :: "string list"
  ls_next :: nat

record group_draft =
  gd_graph :: string
  gd_entries :: "log_draft list"

definition entries_of :: "string \<Rightarrow> log_store \<Rightarrow> log_entry list" where
  "entries_of g s = filter (\<lambda>e. en_graph e = g) (ls_entries s)"

section \<open>Reads\<close>

definition last_position :: "string \<Rightarrow> log_store \<Rightarrow> nat" where
  "last_position g s = fold max (map en_position (entries_of g s)) 0"

definition read_entries :: "string \<Rightarrow> nat \<Rightarrow> nat option \<Rightarrow> log_store \<Rightarrow> log_entry list" where
  "read_entries g after limit s =
     (let found = sort_key en_position (filter (\<lambda>e. after < en_position e) (entries_of g s))
      in case limit of None \<Rightarrow> found | Some n \<Rightarrow> take n found)"

definition read_applied_position :: "string \<Rightarrow> log_store \<Rightarrow> nat" where
  "read_applied_position g s = (case ls_markers s g of None \<Rightarrow> 0 | Some p \<Rightarrow> p)"

definition logged_graphs :: "log_store \<Rightarrow> string list" where
  "logged_graphs s = sort (remdups (map en_graph (ls_entries s)))"

definition graphs_with_pending_entries :: "log_store \<Rightarrow> string list" where
  "graphs_with_pending_entries s =
     filter (\<lambda>g. read_applied_position g s < last_position g s) (logged_graphs s)"

definition read_groups_by_audit_event ::
    "string \<Rightarrow> log_store \<Rightarrow> (group_row \<times> log_entry list) list" where
  "read_groups_by_audit_event audit s =
     map (\<lambda>r. (r, sort_key en_position (filter (\<lambda>e. en_group e = gr_id r) (ls_entries s))))
       (sort_key (\<lambda>r. (gr_graph r, gr_first r)) (filter (\<lambda>r. gr_audit r = Some audit) (ls_groups s)))"

definition read_swap_set :: "nat \<Rightarrow> log_store \<Rightarrow> group_row list" where
  "read_swap_set swap s = sort_key gr_graph (filter (\<lambda>r. gr_swap r = Some swap) (ls_groups s))"

definition read_pending_swap_group :: "string \<Rightarrow> nat \<Rightarrow> log_store \<Rightarrow> group_row option" where
  "read_pending_swap_group g applied s =
     (case sort_key gr_first
             (filter (\<lambda>r. gr_graph r = g \<and> gr_swap r \<noteq> None \<and> applied < gr_last r) (ls_groups s)) of
        [] \<Rightarrow> None
      | r # _ \<Rightarrow> Some r)"

section \<open>Appends\<close>

text \<open>
  Content is stored as JSON, which carries no NaN and no infinity; an embedding needs a component.
\<close>

fun json_representable :: "pyval \<Rightarrow> bool" where
  "json_representable (PFloat w) = f64_isfinite w"
| "json_representable (PList vs) = list_all json_representable vs"
| "json_representable (PTuple vs) = list_all json_representable vs"
| "json_representable (PDict ps) = list_all json_representable (map snd ps)"
| "json_representable _ = True"

definition prepare_entry :: "log_draft \<Rightarrow> (gateway_error, log_draft) result" where
  "prepare_entry d =
     (if list_all (\<lambda>(_, v). json_representable v) (dr_content d) \<and> dr_embedding d \<noteq> Some []
      then Inr d else Inl GraphLogPayloadError)"

fun entry_rows :: "string \<Rightarrow> nat \<Rightarrow> nat \<Rightarrow> log_draft list \<Rightarrow> log_entry list" where
  "entry_rows g position gid [] = []"
| "entry_rows g position gid (d # ds) =
     recorded g position gid d # entry_rows g (Suc position) gid ds"

definition insert_group ::
    "string \<Rightarrow> log_draft list \<Rightarrow> string option \<Rightarrow> nat option \<Rightarrow> log_store
     \<Rightarrow> (gateway_error, group_row \<times> log_store) result" where
  "insert_group g drafts audit swap s =
     (let first = last_position g s + 1;
          row = \<lparr>gr_id = ls_next s, gr_graph = g, gr_first = first,
                 gr_last = last_position g s + length drafts, gr_audit = audit, gr_swap = swap\<rparr>;
          rows = entry_rows g first (ls_next s) drafts
      in if (case audit of None \<Rightarrow> False | Some a \<Rightarrow> a \<notin> set (ls_audit s)) then Inl GraphLogPersistenceError
         else Inr (row, s\<lparr>ls_entries := ls_entries s @ rows, ls_groups := ls_groups s @ [row],
                          ls_next := Suc (ls_next s)\<rparr>))"

definition append_in_transaction ::
    "group_draft \<Rightarrow> string option \<Rightarrow> nat option \<Rightarrow> log_store
     \<Rightarrow> (gateway_error, group_row \<times> log_store) result" where
  "append_in_transaction d audit swap s =
     bind_result (require_all prepare_entry (gd_entries d))
       (\<lambda>_. insert_group (gd_graph d) (gd_entries d) audit swap s)"

definition append_group ::
    "group_draft \<Rightarrow> string option \<Rightarrow> log_store \<Rightarrow> (gateway_error, group_row \<times> log_store) result" where
  "append_group d audit s = append_in_transaction d audit None s"

fun append_each ::
    "group_draft list \<Rightarrow> string option \<Rightarrow> nat option \<Rightarrow> log_store
     \<Rightarrow> (gateway_error, group_row list \<times> log_store) result" where
  "append_each [] audit swap s = Inr ([], s)"
| "append_each (d # ds) audit swap s =
     bind_result (append_in_transaction d audit swap s) (\<lambda>(row, s').
     bind_result (append_each ds audit swap s') (\<lambda>(rows, s''). Inr (row # rows, s'')))"

text \<open>\<open>None\<close> is the \<^verbatim>\<open>ValueError\<close> on groups that are not distinct graphs in ascending order.\<close>

definition append_groups ::
    "group_draft list \<Rightarrow> string option \<Rightarrow> bool \<Rightarrow> log_store
     \<Rightarrow> (gateway_error, group_row list \<times> log_store) result option" where
  "append_groups ds audit as_swap_set s =
     (let graphs = map gd_graph ds
      in if ds = [] \<or> graphs \<noteq> sort (remdups graphs) then None
         else if as_swap_set
              then Some (append_each ds audit (Some (ls_next s)) (s\<lparr>ls_next := Suc (ls_next s)\<rparr>))
              else Some (append_each ds audit None s))"

section \<open>Markers and checkpoints\<close>

definition advance_applied_position ::
    "string \<Rightarrow> nat \<Rightarrow> log_store \<Rightarrow> (gateway_error, nat \<times> log_store) result" where
  "advance_applied_position g position s =
     (if last_position g s < position then Inl GraphLogPersistenceError
      else let s' = (case ls_markers s g of
                       None \<Rightarrow> s\<lparr>ls_markers := (ls_markers s)(g \<mapsto> position)\<rparr>
                     | Some p \<Rightarrow> if p < position then s\<lparr>ls_markers := (ls_markers s)(g \<mapsto> position)\<rparr> else s)
           in Inr (read_applied_position g s', s'))"

definition record_digest_checkpoint ::
    "string \<Rightarrow> nat \<Rightarrow> string \<Rightarrow> log_store \<Rightarrow> (gateway_error, log_store) result" where
  "record_digest_checkpoint g position digest s =
     (if ls_checkpoints s (g, position) \<noteq> None then Inl GraphLogPersistenceError
      else Inr (s\<lparr>ls_checkpoints := (ls_checkpoints s)((g, position) \<mapsto> digest)\<rparr>))"

definition read_digest_checkpoint :: "string \<Rightarrow> nat \<Rightarrow> log_store \<Rightarrow> (nat \<times> string) option" where
  "read_digest_checkpoint g position s = map_option (Pair position) (ls_checkpoints s (g, position))"

definition read_highest_checkpoint_at_or_below ::
    "string \<Rightarrow> nat \<Rightarrow> log_store \<Rightarrow> (nat \<times> string) option" where
  "read_highest_checkpoint_at_or_below g position s =
     (case filter (\<lambda>p. ls_checkpoints s (g, p) \<noteq> None) (rev [0..<Suc position]) of
        [] \<Rightarrow> None
      | p # _ \<Rightarrow> map_option (Pair p) (ls_checkpoints s (g, p)))"

section \<open>What the gateway relies on\<close>

text \<open>
  \<open>entry_prims\<close> decodes entries one by one; on a log that holds only decodable entries it is the whole
  sequence of primitives.
\<close>

definition entry_prim :: "log_entry \<Rightarrow> primitive" where
  "entry_prim en = projr (decode_entry en)"

definition entry_prims :: "log_entry list \<Rightarrow> primitive list" where
  "entry_prims es = map entry_prim es"

definition numbered_from :: "nat \<Rightarrow> log_entry list \<Rightarrow> bool" where
  "numbered_from n es \<longleftrightarrow> map en_position es = [Suc n..<Suc (n + length es)]"

locale mutation_log =
  fixes ok :: "'s \<Rightarrow> bool"
    and entries :: "string \<Rightarrow> 's \<Rightarrow> log_entry list"
    and pending :: "string \<Rightarrow> 's \<Rightarrow> log_entry list"
    and last_pos :: "string \<Rightarrow> 's \<Rightarrow> nat"
    and applied :: "string \<Rightarrow> 's \<Rightarrow> nat"
    and append :: "string \<Rightarrow> log_draft list \<Rightarrow> 's \<Rightarrow> 's option"
    and advance :: "string \<Rightarrow> nat \<Rightarrow> 's \<Rightarrow> 's option"
  assumes numbered: "ok s \<Longrightarrow> numbered_from 0 (entries g s)"
    and last_pos: "ok s \<Longrightarrow> last_pos g s = length (entries g s)"
    and applied_bound: "ok s \<Longrightarrow> applied g s \<le> length (entries g s)"
    and pending_drop: "ok s \<Longrightarrow> pending g s = drop (applied g s) (entries g s)"
    and append_ok: "ok s \<Longrightarrow> append g ds s = Some s' \<Longrightarrow> ok s'"
    and append_entries: "ok s \<Longrightarrow> append g ds s = Some s' \<Longrightarrow>
      \<exists>gid. entries h s' = (if h = g then entries g s @ entry_rows g (Suc (length (entries g s))) gid ds
                            else entries h s)"
    and append_applied: "ok s \<Longrightarrow> append g ds s = Some s' \<Longrightarrow> applied h s' = applied h s"
    and advance_some: "ok s \<Longrightarrow> advance g p s \<noteq> None \<longleftrightarrow> p \<le> length (entries g s)"
    and advance_ok: "ok s \<Longrightarrow> advance g p s = Some s' \<Longrightarrow> ok s'"
    and advance_entries: "ok s \<Longrightarrow> advance g p s = Some s' \<Longrightarrow> entries h s' = entries h s"
    and advance_applied: "ok s \<Longrightarrow> advance g p s = Some s' \<Longrightarrow>
      applied h s' = (if h = g then max p (applied g s) else applied h s)"
begin

lemma pending_numbered: "ok s \<Longrightarrow> numbered_from (applied g s) (pending g s)"
  using numbered [of s g] applied_bound [of s g]
  by (simp add: numbered_from_def pending_drop drop_map [symmetric] drop_upt del: upt_Suc)

lemma pending_none: "ok s \<Longrightarrow> pending g s = [] \<longleftrightarrow> applied g s = last_pos g s"
  using applied_bound [of s g] by (auto simp: pending_drop last_pos)

lemma split_at_marker: "ok s \<Longrightarrow> entries g s = take (applied g s) (entries g s) @ pending g s"
  by (simp add: pending_drop)

lemma append_pending:
  assumes "ok s" "append g ds s = Some s'"
  shows "\<exists>gid. entries g s' = entries g s @ entry_rows g (Suc (length (entries g s))) gid ds
    \<and> pending g s' = pending g s @ entry_rows g (Suc (length (entries g s))) gid ds"
proof -
  obtain gid where
    e: "entries g s' = entries g s @ entry_rows g (Suc (length (entries g s))) gid ds"
    using append_entries [OF assms, of g] by auto
  have "pending g s' = drop (applied g s) (entries g s')"
    using assms by (simp add: pending_drop append_ok append_applied)
  with e applied_bound [OF assms(1), of g] assms(1) show ?thesis by (auto simp: pending_drop)
qed

lemma append_elsewhere:
  assumes "ok s" "append g ds s = Some s'" "h \<noteq> g"
  shows "entries h s' = entries h s" "pending h s' = pending h s" "applied h s' = applied h s"
proof -
  show e: "entries h s' = entries h s" using append_entries [OF assms(1,2), of h] assms(3) by simp
  show a: "applied h s' = applied h s" using append_applied [OF assms(1,2)] by simp
  show "pending h s' = pending h s"
    using assms(1) append_ok [OF assms(1,2)] by (simp add: pending_drop e a)
qed

lemma advance_pending:
  assumes "ok s" "advance g p s = Some s'" "applied g s \<le> p"
  shows "pending g s' = drop (p - applied g s) (pending g s)"
  using assms by (simp add: pending_drop advance_ok advance_entries advance_applied max_absorb1)

lemma advance_elsewhere:
  assumes "ok s" "advance g p s = Some s'" "h \<noteq> g"
  shows "pending h s' = pending h s"
  using assms by (simp add: pending_drop advance_ok advance_entries advance_applied)

end

section \<open>The log provides it\<close>

definition log_ok :: "log_store \<Rightarrow> bool" where
  "log_ok s \<longleftrightarrow> (\<forall>g. numbered_from 0 (entries_of g s)
     \<and> read_applied_position g s \<le> length (entries_of g s))"

definition append_prims ::
    "string option \<Rightarrow> nat option \<Rightarrow> string \<Rightarrow> log_draft list \<Rightarrow> log_store \<Rightarrow> log_store option" where
  "append_prims audit swap g ds s =
     (case append_in_transaction \<lparr>gd_graph = g, gd_entries = ds\<rparr> audit swap s of
        Inl _ \<Rightarrow> None | Inr (_, s') \<Rightarrow> Some s')"

definition advance_marker :: "string \<Rightarrow> nat \<Rightarrow> log_store \<Rightarrow> log_store option" where
  "advance_marker g p s =
     (case advance_applied_position g p s of Inl _ \<Rightarrow> None | Inr (_, s') \<Rightarrow> Some s')"

lemma fold_max_upt: "fold max [Suc 0..<Suc n] a = max a n" for a n :: nat
  by (induction n) (auto simp: max_def)

lemma last_position_length: "log_ok s \<Longrightarrow> last_position g s = length (entries_of g s)"
  by (simp add: log_ok_def numbered_from_def last_position_def fold_max_upt del: upt_Suc)

lemma read_entries_all:
  assumes "log_ok s"
  shows "read_entries g after None s = drop after (entries_of g s)"
proof -
  let ?es = "entries_of g s"
  have num: "map en_position ?es = [Suc 0..<Suc (length ?es)]"
    using assms by (simp add: log_ok_def numbered_from_def del: upt_Suc)
  have pos: "en_position (?es ! i) = Suc i" if "i < length ?es" for i
    using arg_cong [OF num, of "\<lambda>xs. xs ! i"] that by (simp del: upt_Suc)
  have "filter (\<lambda>e. after < en_position e) ?es = drop after ?es"
  proof -
    have "filter (\<lambda>e. after < en_position e) (take after ?es) = []"
      by (auto simp: filter_empty_conv in_set_conv_nth pos)
    moreover have "filter (\<lambda>e. after < en_position e) (drop after ?es) = drop after ?es"
      by (auto simp: filter_id_conv in_set_conv_nth pos)
    moreover have "filter (\<lambda>e. after < en_position e) ?es =
        filter (\<lambda>e. after < en_position e) (take after ?es) @
        filter (\<lambda>e. after < en_position e) (drop after ?es)"
      by (metis append_take_drop_id filter_append)
    ultimately show ?thesis by simp
  qed
  moreover have "sorted (map en_position (drop after ?es))"
    by (simp add: drop_map [symmetric] num drop_upt del: upt_Suc)
  ultimately show ?thesis by (simp add: read_entries_def sorted_sort_id sort_key_id_if_sorted)
qed

lemma length_entry_rows [simp]: "length (entry_rows g n k ds) = length ds"
  by (induction ds arbitrary: n) auto

lemma graph_entry_rows:
  "filter (\<lambda>e. en_graph e = h) (entry_rows g n k ds) = (if h = g then entry_rows g n k ds else [])"
  by (induction ds arbitrary: n) (auto simp: recorded_def)

lemma positions_entry_rows: "map en_position (entry_rows g n k ds) = [n..<n + length ds]"
  by (induction ds arbitrary: n) (auto simp: recorded_def upt_conv_Cons simp del: upt_Suc)

lemma inserted:
  assumes "insert_group g ds audit swap s = Inr (row, s')"
  shows "entries_of h s' = (if h = g then entries_of g s @ entry_rows g (Suc (last_position g s)) (ls_next s) ds
      else entries_of h s)"
    and "read_applied_position h s' = read_applied_position h s"
    and "row = \<lparr>gr_id = ls_next s, gr_graph = g, gr_first = Suc (last_position g s),
      gr_last = last_position g s + length ds, gr_audit = audit, gr_swap = swap\<rparr>"
  using assms
  by (auto simp: insert_group_def Let_def entries_of_def graph_entry_rows read_applied_position_def
      split: if_splits)

lemma insert_ok:
  assumes "log_ok s" "insert_group g ds audit swap s = Inr (row, s')"
  shows "log_ok s'"
proof -
  have "numbered_from 0 (entries_of h s') \<and> read_applied_position h s' \<le> length (entries_of h s')" for h
  proof (cases "h = g")
    case True
    from assms(1) have n: "numbered_from 0 (entries_of g s)"
      "read_applied_position g s \<le> length (entries_of g s)" by (auto simp: log_ok_def)
    from n(1) have "numbered_from 0 (entries_of g s @ entry_rows g (Suc (length (entries_of g s))) k ds)" for k
      using upt_add_eq_append [of "Suc 0" "Suc (length (entries_of g s))" "length ds"]
      by (simp add: numbered_from_def positions_entry_rows del: upt_Suc)
    with n(2) True show ?thesis
      by (simp add: inserted [OF assms(2)] last_position_length [OF assms(1)])
  next
    case False
    with assms(1) show ?thesis by (simp add: inserted [OF assms(2)] log_ok_def)
  qed
  then show ?thesis by (simp add: log_ok_def)
qed

lemma append_prims_Some:
  "append_prims audit swap g ds s = Some s' \<longleftrightarrow>
     (\<exists>row. append_in_transaction \<lparr>gd_graph = g, gd_entries = ds\<rparr> audit swap s = Inr (row, s'))"
  by (auto simp: append_prims_def split: sum.splits prod.splits)

lemma append_prims_insert:
  "append_prims audit swap g ds s = Some s' \<Longrightarrow> \<exists>row. insert_group g ds audit swap s = Inr (row, s')"
  by (auto simp: append_prims_Some append_in_transaction_def bind_result_Inr)

lemma advanced:
  assumes "advance_marker g p s = Some s'"
  shows "entries_of h s' = entries_of h s"
    and "read_applied_position h s' = (if h = g then max p (read_applied_position g s)
      else read_applied_position h s)"
    and "p \<le> last_position g s"
  using assms
  by (auto simp: advance_marker_def advance_applied_position_def Let_def entries_of_def
      read_applied_position_def split: if_splits option.splits)

interpretation glog: mutation_log log_ok entries_of "\<lambda>g s. read_entries g (read_applied_position g s) None s"
  last_position read_applied_position "append_prims audit swap" advance_marker for audit swap
proof
  fix s s' :: log_store and g h ds p
  show "log_ok s \<Longrightarrow> numbered_from 0 (entries_of g s)" by (simp add: log_ok_def)
  show "log_ok s \<Longrightarrow> last_position g s = length (entries_of g s)" by (rule last_position_length)
  show "log_ok s \<Longrightarrow> read_applied_position g s \<le> length (entries_of g s)" by (simp add: log_ok_def)
  show "log_ok s \<Longrightarrow> read_entries g (read_applied_position g s) None s
      = drop (read_applied_position g s) (entries_of g s)"
    by (rule read_entries_all)
  show "log_ok s \<Longrightarrow> append_prims audit swap g ds s = Some s' \<Longrightarrow> log_ok s'"
    using append_prims_insert insert_ok by blast
  show "\<exists>gid. entries_of h s' = (if h = g then entries_of g s
        @ entry_rows g (Suc (length (entries_of g s))) gid ds else entries_of h s)"
    if ok: "log_ok s" and ap: "append_prims audit swap g ds s = Some s'"
  proof -
    obtain row where "insert_group g ds audit swap s = Inr (row, s')"
      using append_prims_insert [OF ap] by blast
    from inserted(1) [OF this, of h] ok show ?thesis
      by (auto simp: last_position_length)
  qed
  show "log_ok s \<Longrightarrow> append_prims audit swap g ds s = Some s' \<Longrightarrow>
      read_applied_position h s' = read_applied_position h s"
    using append_prims_insert inserted(2) by blast
  show "log_ok s \<Longrightarrow> (advance_marker g p s \<noteq> None) = (p \<le> length (entries_of g s))"
    by (auto simp: advance_marker_def advance_applied_position_def last_position_length Let_def)
  show "log_ok s'" if ok: "log_ok s" and ad: "advance_marker g p s = Some s'"
    using ok advanced [OF ad] by (auto simp: log_ok_def last_position_length [OF ok])
  show "advance_marker g p s = Some s' \<Longrightarrow> entries_of h s' = entries_of h s" by (rule advanced)
  show "advance_marker g p s = Some s' \<Longrightarrow> read_applied_position h s' =
      (if h = g then max p (read_applied_position g s) else read_applied_position h s)"
    by (rule advanced)
qed

end
