(* ===== verification/Replay_Gate.thy ===== *)
theory Replay_Gate
  imports Vocabulary
begin

text \<open>
  The write gate of graphs whose replay is running or has failed (\<^verbatim>\<open>graph_gateway/replay_gate.py\<close>). One
  function per method; every method holds the gate's mutex, so a run of the gate is a sequence of them.
  \<open>gate_closed\<close> is compared with a specification on the history of calls, \<open>closed_by\<close>.
\<close>

record replay_gate =
  rg_incomplete :: "string set"
  rg_failed :: "string \<rightharpoonup> nat"
  rg_all_pending :: bool
  rg_released :: "string set"

definition new_gate :: replay_gate where
  "new_gate = \<lparr>rg_incomplete = {}, rg_failed = Map.empty, rg_all_pending = False, rg_released = {}\<rparr>"

definition gate_begin :: "string \<Rightarrow> replay_gate \<Rightarrow> replay_gate" where
  "gate_begin g r = r\<lparr>rg_incomplete := insert g (rg_incomplete r), rg_failed := (rg_failed r)(g := None)\<rparr>"

definition gate_complete :: "string \<Rightarrow> replay_gate \<Rightarrow> replay_gate" where
  "gate_complete g r = r\<lparr>rg_incomplete := rg_incomplete r - {g}, rg_failed := (rg_failed r)(g := None)\<rparr>"

definition gate_fail :: "string \<Rightarrow> nat \<Rightarrow> replay_gate \<Rightarrow> replay_gate" where
  "gate_fail g position r =
     r\<lparr>rg_incomplete := rg_incomplete r - {g}, rg_failed := (rg_failed r)(g \<mapsto> position)\<rparr>"

definition begin_all_pending :: "replay_gate \<Rightarrow> replay_gate" where
  "begin_all_pending r = r\<lparr>rg_all_pending := True, rg_released := {}\<rparr>"

definition gate_release :: "string \<Rightarrow> replay_gate \<Rightarrow> replay_gate" where
  "gate_release g r = r\<lparr>rg_released := insert g (rg_released r)\<rparr>"

definition end_all_pending :: "replay_gate \<Rightarrow> replay_gate" where
  "end_all_pending r = r\<lparr>rg_all_pending := False, rg_released := {}\<rparr>"

definition gate_closed :: "replay_gate \<Rightarrow> string \<Rightarrow> bool" where
  "gate_closed r g \<longleftrightarrow>
     (let held_by_startup = rg_all_pending r \<and> g \<notin> rg_released r
      in g \<in> rg_incomplete r \<or> rg_failed r g \<noteq> None \<or> held_by_startup)"

definition failed_graphs :: "replay_gate \<Rightarrow> string set" where
  "failed_graphs r = dom (rg_failed r)"

definition require_open :: "replay_gate \<Rightarrow> string \<Rightarrow> (gateway_error, unit) result" where
  "require_open r g =
     (case rg_failed r g of
        Some position \<Rightarrow> Inl (GraphReplayGatedError g (Some position))
      | None \<Rightarrow> if gate_closed r g then Inl (GraphReplayGatedError g None) else Inr ())"

section \<open>Histories\<close>

datatype gate_call =
    Begin string
  | Complete string
  | Fail string nat
  | BeginAll
  | Release string
  | EndAll

fun call_gate :: "gate_call \<Rightarrow> replay_gate \<Rightarrow> replay_gate" where
  "call_gate (Begin g) r = gate_begin g r"
| "call_gate (Complete g) r = gate_complete g r"
| "call_gate (Fail g n) r = gate_fail g n r"
| "call_gate BeginAll r = begin_all_pending r"
| "call_gate (Release g) r = gate_release g r"
| "call_gate EndAll r = end_all_pending r"

text \<open>Histories are read from the latest call back.\<close>

fun replay_standing :: "string \<Rightarrow> gate_call list \<Rightarrow> gate_call option" where
  "replay_standing g [] = None"
| "replay_standing g (c # earlier) =
     (if c = Begin g \<or> c = Complete g \<or> (\<exists>n. c = Fail g n) then Some c else replay_standing g earlier)"

fun held :: "string \<Rightarrow> gate_call list \<Rightarrow> bool" where
  "held g [] = False"
| "held g (c # earlier) = (c = BeginAll \<or> (c \<noteq> EndAll \<and> c \<noteq> Release g \<and> held g earlier))"

definition closed_by :: "string \<Rightarrow> gate_call list \<Rightarrow> bool" where
  "closed_by g earlier \<longleftrightarrow>
     held g earlier \<or> (\<exists>c. replay_standing g earlier = Some c \<and> c \<noteq> Complete g)"

text \<open>A release outside a startup hold is forgotten when the next hold starts.\<close>

lemma gate_history:
  "rg_failed (run_ops call_gate cs new_gate) g
     = (case replay_standing g (rev cs) of Some (Fail _ n) \<Rightarrow> Some n | _ \<Rightarrow> None)
   \<and> (g \<in> rg_incomplete (run_ops call_gate cs new_gate) \<longleftrightarrow> replay_standing g (rev cs) = Some (Begin g))
   \<and> (rg_all_pending (run_ops call_gate cs new_gate) \<and> g \<notin> rg_released (run_ops call_gate cs new_gate)
        \<longleftrightarrow> held g (rev cs))"
proof (induction cs rule: rev_induct)
  case Nil
  show ?case by (simp add: new_gate_def)
next
  case (snoc c cs)
  then show ?case
    by (cases c) (auto simp: gate_begin_def gate_complete_def gate_fail_def begin_all_pending_def
        gate_release_def end_all_pending_def)
qed

lemma standing_own: "replay_standing g cs = Some c \<Longrightarrow> c = Begin g \<or> c = Complete g \<or> (\<exists>n. c = Fail g n)"
  by (induction cs) (auto split: if_splits)

lemma gate_closed_history: "gate_closed (run_ops call_gate cs new_gate) g \<longleftrightarrow> closed_by g (rev cs)"
  using gate_history [of cs g] standing_own [of g "rev cs"]
  by (auto simp: gate_closed_def Let_def closed_by_def split: option.splits gate_call.splits)

section \<open>Properties\<close>

text \<open>
  C19. After any sequence of calls a graph is refused exactly when its last replay call is not a completion
  or the startup hold covers it, and the refusal names the failed position exactly when that last call is
  the failure at that position: only a later replay that completes opens a failed graph again, and a
  release or the end of the hold never does.
\<close>

theorem require_open_history:
  "require_open (run_ops call_gate cs new_gate) g =
     (case replay_standing g (rev cs) of
        Some (Fail _ n) \<Rightarrow> Inl (GraphReplayGatedError g (Some n))
      | _ \<Rightarrow> if closed_by g (rev cs) then Inl (GraphReplayGatedError g None) else Inr ())"
  using gate_history [of cs g]
  by (auto simp: require_open_def gate_closed_history split: option.splits gate_call.splits)

end
