(* ===== verification/Retry.thy ===== *)
theory Retry
  imports Complex_Main Vocabulary
begin

text \<open>
  Bounded retry with backoff (\<^verbatim>\<open>graph_gateway/retry.py\<close>), the unbounded retry of the startup replay
  (\<^verbatim>\<open>graph_gateway/startup_retry.py\<close>) and the settings both read. An operation is a function on a state
  that returns or raises; the state stands for everything the operation can change. Waits are exact
  rationals, but the power in them is a floating-point one that raises \<^verbatim>\<open>OverflowError\<close> beyond the largest
  double; the product of the power and the first wait, which then may only round to infinity, is exact here.
\<close>

record gateway_settings =
  gs_batch_size :: int
  gs_max_attempts :: int
  gs_initial_backoff :: rat
  gs_backoff_multiplier :: rat
  gs_reconciler_max_backoff :: rat
  gs_startup_replay_max_backoff :: rat
  gs_replay_page_size :: int

definition default_settings :: gateway_settings where
  "default_settings =
     \<lparr>gs_batch_size = 500, gs_max_attempts = 4, gs_initial_backoff = 2 / 10,
      gs_backoff_multiplier = 2, gs_reconciler_max_backoff = 30,
      gs_startup_replay_max_backoff = 30, gs_replay_page_size = 5000\<rparr>"

text \<open>False is the \<^verbatim>\<open>ValueError\<close> of \<^verbatim>\<open>__post_init__\<close>.\<close>

definition validated_settings :: "gateway_settings \<Rightarrow> bool" where
  "validated_settings c \<longleftrightarrow>
     \<not> gs_batch_size c < 1 \<and> \<not> gs_max_attempts c < 1
     \<and> \<not> (gs_initial_backoff c < 0 \<or> gs_backoff_multiplier c < 1)
     \<and> \<not> gs_reconciler_max_backoff c < 0 \<and> \<not> gs_startup_replay_max_backoff c < 0
     \<and> \<not> gs_replay_page_size c < 1"

text \<open>
  \<open>m ** k\<close> raises \<^verbatim>\<open>OverflowError\<close> when the power rounds beyond the largest double.
\<close>

definition power_overflows :: "rat \<Rightarrow> nat \<Rightarrow> bool" where
  "power_overflows m k \<longleftrightarrow> 2 ^ 1024 - 2 ^ 970 \<le> m ^ k"

text \<open>
  What the proofs on the bounded retry ask of the settings besides: no wait before the budget is spent
  overflows.  The process only ever builds the default settings, with four attempts.
\<close>

definition settings_ok :: "gateway_settings \<Rightarrow> bool" where
  "settings_ok c \<longleftrightarrow> validated_settings c
     \<and> \<not> power_overflows (gs_backoff_multiplier c) (nat (gs_max_attempts c) - 2)"

section \<open>What an operation raises\<close>

text \<open>
  \<open>RedisTransient\<close>: a redis connection or timeout error; \<open>RedisRefused\<close>: any other redis error;
  \<open>Gateway e\<close>: an error of the gateway's own; \<open>Ill_Typed_Run\<close>: the \<^verbatim>\<open>TypeError\<close> of the applier;
  \<open>Bad_Value\<close>: a \<^verbatim>\<open>ValueError\<close>; \<open>Overflow_Error\<close>: an \<^verbatim>\<open>OverflowError\<close>. \<open>Hangs\<close> is no exception: it marks a call that never returns.
\<close>

datatype raised =
    RedisTransient | RedisRefused | Gateway gateway_error | Ill_Typed_Run | Bad_Value | Overflow_Error
  | Hangs

fun transient :: "raised \<Rightarrow> bool" where
  "transient RedisTransient = True"
| "transient (Gateway GraphLogUnavailableError) = True"
| "transient _ = False"

definition backoff_seconds :: "gateway_settings \<Rightarrow> nat \<Rightarrow> (raised, rat) result" where
  "backoff_seconds c attempt =
     (if power_overflows (gs_backoff_multiplier c) (attempt - 1) then Inl Overflow_Error
      else Inr (gs_initial_backoff c * gs_backoff_multiplier c ^ (attempt - 1)))"

section \<open>Bounded retry\<close>

type_synonym ('s, 'a) operation = "'s \<Rightarrow> (raised, 'a) result \<times> 's"

text \<open>The result, the waits \<open>(attempt, delay)\<close> that were slept, and the state.\<close>

function call_from ::
    "gateway_settings \<Rightarrow> ('s, 'a) operation \<Rightarrow> nat \<Rightarrow> 's
     \<Rightarrow> (raised, 'a) result \<times> (nat \<times> rat) list \<times> 's" where
  "call_from c operation attempt s =
     (case operation s of
        (Inr x, s') \<Rightarrow> (Inr x, [], s')
      | (Inl e, s') \<Rightarrow>
          if \<not> transient e then (Inl e, [], s')
          else if int attempt \<ge> gs_max_attempts c then (Inl e, [], s')
          else (case backoff_seconds c attempt of
                  Inl overflow \<Rightarrow> (Inl overflow, [], s')
                | Inr delay \<Rightarrow>
                    (case call_from c operation (Suc attempt) s' of
                       (r, waits, s'') \<Rightarrow> (r, (attempt, delay) # waits, s''))))"
  by pat_completeness auto
termination
  by (relation "measure (\<lambda>(c, operation, attempt, s). nat (gs_max_attempts c - int attempt))") auto

declare call_from.simps [simp del]

definition call_with_backoff ::
    "gateway_settings \<Rightarrow> ('s, 'a) operation \<Rightarrow> 's \<Rightarrow> (raised, 'a) result \<times> (nat \<times> rat) list \<times> 's" where
  "call_with_backoff c operation s = call_from c operation 1 s"

fun sanitized :: "string \<Rightarrow> nat option \<Rightarrow> raised \<Rightarrow> raised" where
  "sanitized graph position RedisTransient = Gateway GraphUnavailableError"
| "sanitized graph position RedisRefused = Gateway (GraphApplyError graph position)"
| "sanitized graph position e = e"

definition guard_call ::
    "gateway_settings \<Rightarrow> string \<Rightarrow> ('s \<Rightarrow> nat option) \<Rightarrow> ('s, 'a) operation \<Rightarrow> ('s, 'a) operation" where
  "guard_call c graph position operation s =
     (case call_with_backoff c operation s of
        (Inr x, waits, s') \<Rightarrow> (Inr x, s')
      | (Inl e, waits, s') \<Rightarrow> (Inl (sanitized graph (position s') e), s'))"

section \<open>What a bounded retry keeps\<close>

lemma power_overflows_mono:
  assumes "power_overflows m k" "1 \<le> m" "k \<le> l"
  shows "power_overflows m l"
  using assms power_increasing [of k l m] by (auto simp: power_overflows_def)

text \<open>Small powers are decided without the large one.\<close>

lemma power_overflows_code [code]:
  "power_overflows m k \<longleftrightarrow> \<not> (0 \<le> m \<and> m \<le> 2 \<and> k < 8) \<and> 2 ^ 1024 - 2 ^ 970 \<le> m ^ k"
proof -
  have "m ^ k \<le> 2 ^ 7" if "0 \<le> m" "m \<le> 2" "k < 8"
    using power_mono [OF that(2,1), of k] power_increasing [of k 7 "2 :: rat"] that(3) by simp
  moreover have "(2 :: rat) ^ 7 < 2 ^ 1024 - 2 ^ 970" by simp
  ultimately show ?thesis unfolding power_overflows_def by (metis leD le_less_trans)
qed

lemma settings_validated: "settings_ok c \<Longrightarrow> validated_settings c"
  by (simp add: settings_ok_def)

lemma settings_delay:
  assumes "settings_ok c" "int attempt < gs_max_attempts c"
  shows "backoff_seconds c attempt = Inr (gs_initial_backoff c * gs_backoff_multiplier c ^ (attempt - 1))"
proof -
  have "attempt - 1 \<le> nat (gs_max_attempts c) - 2" using assms(2) by linarith
  then have "\<not> power_overflows (gs_backoff_multiplier c) (attempt - 1)"
    using assms(1) power_overflows_mono [of "gs_backoff_multiplier c" "attempt - 1" "nat (gs_max_attempts c) - 2"]
    by (auto simp: settings_ok_def validated_settings_def)
  then show ?thesis by (simp add: backoff_seconds_def)
qed

lemma call_from_returned:
  assumes "settings_ok c" "\<And>t e t'. I t \<Longrightarrow> operation t = (Inl e, t') \<Longrightarrow> transient e \<Longrightarrow> I t'"
  shows "call_from c operation attempt s = (r, waits, s') \<Longrightarrow> I s \<Longrightarrow>
    \<exists>t. I t \<and> operation t = (r, s')"
proof (induction "nat (gs_max_attempts c - int attempt)" arbitrary: attempt s waits rule: less_induct)
  case less
  obtain q t where op: "operation s = (q, t)" by (cases "operation s")
  show ?case
  proof (cases "\<exists>e. q = Inl e \<and> transient e \<and> int attempt < gs_max_attempts c")
    case True
    then obtain e where e: "q = Inl e" "transient e" "int attempt < gs_max_attempts c" by blast
    with assms(2) less.prems(2) op have keep: "I t" by blast
    obtain r' ws s'' where rest: "call_from c operation (Suc attempt) t = (r', ws, s'')"
      by (cases "call_from c operation (Suc attempt) t") auto
    with less.prems(1) e op settings_delay [OF assms(1) e(3)] have "r' = r" "s'' = s'"
      by (simp_all add: call_from.simps [of c operation attempt s])
    with less.hyps [of "Suc attempt" t ws] rest keep e(3) show ?thesis by auto
  next
    case False
    with less.prems(1) op have "q = r" "t = s'"
      by (auto simp: call_from.simps [of c operation attempt s] split: sum.splits if_splits)
    with op less.prems(2) show ?thesis by blast
  qed
qed

lemma call_from_waits:
  assumes "settings_ok c"
  shows "call_from c operation attempt s = (r, waits, s') \<Longrightarrow>
     map fst waits = [attempt..<attempt + length waits]
     \<and> (\<forall>(n, d) \<in> set waits. d = gs_initial_backoff c * gs_backoff_multiplier c ^ (n - 1))
     \<and> int (length waits) \<le> max 0 (gs_max_attempts c - int attempt)
     \<and> (\<forall>e. r = Inl e \<and> transient e \<longrightarrow> int (length waits) = max 0 (gs_max_attempts c - int attempt))"
proof (induction "nat (gs_max_attempts c - int attempt)" arbitrary: attempt s waits rule: less_induct)
  case less
  obtain q t where op: "operation s = (q, t)" by (cases "operation s")
  show ?case
  proof (cases "\<exists>e. q = Inl e \<and> transient e \<and> int attempt < gs_max_attempts c")
    case True
    then obtain e where e: "q = Inl e" "transient e" "int attempt < gs_max_attempts c" by blast
    obtain r' ws s'' where rest: "call_from c operation (Suc attempt) t = (r', ws, s'')"
      by (cases "call_from c operation (Suc attempt) t") auto
    with less.prems e op settings_delay [OF assms e(3)] have eqs: "r' = r" "s'' = s'"
      "waits = (attempt, gs_initial_backoff c * gs_backoff_multiplier c ^ (attempt - 1)) # ws"
      by (auto simp: call_from.simps [of c operation attempt s])
    from less.hyps [of "Suc attempt" t ws] rest e(3) eqs show ?thesis
      by (auto simp: upt_conv_Cons simp del: upt_Suc)
  next
    case False
    with less.prems op have "waits = []" "q = r"
      by (auto simp: call_from.simps [of c operation attempt s] split: sum.splits if_splits)
    with False show ?thesis by auto
  qed
qed

lemma guard_call_last:
  assumes "settings_ok c" "\<And>t e t'. I t \<Longrightarrow> operation t = (Inl e, t') \<Longrightarrow> transient e \<Longrightarrow> I t'" "I s"
    and "guard_call c g pos operation s = (r, s')"
  shows "\<exists>t q. I t \<and> operation t = (q, s')
    \<and> r = (case q of Inr x \<Rightarrow> Inr x | Inl e \<Rightarrow> Inl (sanitized g (pos s') e))"
proof -
  obtain q waits t where call: "call_from c operation 1 s = (q, waits, t)"
    by (cases "call_from c operation 1 s") auto
  with assms(4) have "t = s'" "r = (case q of Inr x \<Rightarrow> Inr x | Inl e \<Rightarrow> Inl (sanitized g (pos s') e))"
    by (auto simp: guard_call_def call_with_backoff_def split: sum.splits)
  moreover have "\<exists>t'. I t' \<and> operation t' = (q, t)"
    by (rule call_from_returned [of c I operation, OF assms(1) _ call assms(3)]) (rule assms(2))
  ultimately show ?thesis by blast
qed

lemma guard_call_returned:
  assumes "settings_ok c" "\<And>t. I t \<Longrightarrow> I (snd (operation t))" "I s" "guard_call c g pos operation s = (r, s')"
  shows "\<exists>t q. I t \<and> operation t = (q, s')
    \<and> r = (case q of Inr x \<Rightarrow> Inr x | Inl e \<Rightarrow> Inl (sanitized g (pos s') e))"
proof (rule guard_call_last [of c I operation s, OF assms(1) _ assms(3,4)])
  show "I t'" if "I t" "operation t = (Inl e, t')" "transient e" for t e t'
    using assms(2) [OF that(1)] that(2) by simp
qed

lemma guard_call_keeps:
  assumes "settings_ok c" "\<And>t. I t \<Longrightarrow> I (snd (operation t))" "I s"
  shows "I (snd (guard_call c g pos operation s))"
proof -
  obtain r s' where r: "guard_call c g pos operation s = (r, s')" by (cases "guard_call c g pos operation s")
  from guard_call_returned [of c I, OF assms this] obtain t q where "I t" "operation t = (q, s')" by blast
  with assms(2) [of t] r show ?thesis by simp
qed

text \<open>No redis error leaves the guard: callers only see the gateway's own errors.\<close>

lemma sanitized_no_redis: "sanitized g p e \<noteq> RedisTransient" "sanitized g p e \<noteq> RedisRefused"
  by (cases e; simp)+

section \<open>Retrying through an outage\<close>

text \<open>
  \<open>wait\<close> answers whether a stop was requested during the \<open>n\<close>-th wait. \<open>None\<close>: the call never returns.
\<close>

partial_function (option) outage_from ::
    "gateway_settings \<Rightarrow> (nat \<Rightarrow> bool) \<Rightarrow> ('s, 'a) operation \<Rightarrow> nat \<Rightarrow> (nat \<times> rat) list \<Rightarrow> 's
     \<Rightarrow> ((raised, 'a) result \<times> (nat \<times> rat) list \<times> 's) option" where
  "outage_from c wait operation attempt waits s =
     (case operation s of
        (Inr x, s') \<Rightarrow> Some (Inr x, rev waits, s')
      | (Inl e, s') \<Rightarrow>
          if \<not> transient e then Some (Inl e, rev waits, s')
          else (case backoff_seconds c attempt of
                  Inl overflow \<Rightarrow> Some (Inl overflow, rev waits, s')
                | Inr seconds \<Rightarrow>
                    let delay = min seconds (gs_startup_replay_max_backoff c)
                    in if wait attempt then Some (Inl e, rev ((attempt, delay) # waits), s')
                       else outage_from c wait operation (Suc attempt) ((attempt, delay) # waits) s'))"

definition retry_through_outage ::
    "gateway_settings \<Rightarrow> (nat \<Rightarrow> bool) \<Rightarrow> ('s, 'a) operation \<Rightarrow> 's
     \<Rightarrow> ((raised, 'a) result \<times> (nat \<times> rat) list \<times> 's) option" where
  "retry_through_outage c wait operation s = outage_from c wait operation 1 [] s"

fun after_failures :: "('s, 'a) operation \<Rightarrow> nat \<Rightarrow> 's \<Rightarrow> 's" where
  "after_failures operation 0 s = s"
| "after_failures operation (Suc n) s = after_failures operation n (snd (operation s))"

definition capped_wait :: "gateway_settings \<Rightarrow> nat \<Rightarrow> nat \<times> rat" where
  "capped_wait c n = (n, min (gs_initial_backoff c * gs_backoff_multiplier c ^ (n - 1)) (gs_startup_replay_max_backoff c))"

definition overflows_at :: "gateway_settings \<Rightarrow> nat \<Rightarrow> bool" where
  "overflows_at c n \<longleftrightarrow> power_overflows (gs_backoff_multiplier c) (n - 1)"

lemma after_failures_Suc: "after_failures operation (Suc n) s = snd (operation (after_failures operation n s))"
  by (induction n arbitrary: s) simp_all

lemma outage_from_retries:
  assumes "operation s = (Inl e, t)" "transient e" "\<not> wait attempt" "\<not> overflows_at c attempt"
  shows "outage_from c wait operation attempt waits s
    = outage_from c wait operation (Suc attempt) (capped_wait c attempt # waits) t"
  using assms by (subst outage_from.simps) (simp add: backoff_seconds_def overflows_at_def capped_wait_def Let_def)

lemma outage_from_skips:
  assumes "\<And>i. i < n \<Longrightarrow> \<exists>e. fst (operation (after_failures operation i s)) = Inl e \<and> transient e"
    and "\<And>i. i < n \<Longrightarrow> \<not> wait (attempt + i) \<and> \<not> overflows_at c (attempt + i)"
  shows "outage_from c wait operation attempt waits s
    = outage_from c wait operation (attempt + n) (rev (map (capped_wait c) [attempt..<attempt + n]) @ waits)
        (after_failures operation n s)"
  using assms
proof (induction n arbitrary: attempt waits s)
  case (Suc n)
  from Suc.prems(1) [of 0] obtain e t where op: "operation s = (Inl e, t)" "transient e"
    by (cases "operation s") auto
  have "outage_from c wait operation attempt waits s
      = outage_from c wait operation (Suc attempt) (capped_wait c attempt # waits) t"
    using outage_from_retries [of operation s e t] op Suc.prems(2) [of 0] by simp
  also have "\<dots> = outage_from c wait operation (Suc attempt + n)
      (rev (map (capped_wait c) [Suc attempt..<Suc attempt + n]) @ capped_wait c attempt # waits)
      (after_failures operation n t)"
  proof (rule Suc.IH)
    fix i assume "i < n"
    with Suc.prems(1) [of "Suc i"] op show
      "\<exists>e. fst (operation (after_failures operation i t)) = Inl e \<and> transient e" by simp
    from \<open>i < n\<close> Suc.prems(2) [of "Suc i"] show "\<not> wait (Suc attempt + i) \<and> \<not> overflows_at c (Suc attempt + i)"
      by simp
  qed
  finally show ?case using op by (simp add: upt_conv_Cons del: upt_Suc)
qed simp

section \<open>Properties\<close>

lemma spelled_by: "\<forall>(n, d) \<in> set xs. d = f n \<Longrightarrow> xs = map (\<lambda>n. (n, f n)) (map fst xs)"
  by (induction xs) auto

text \<open>
  C17. A guarded call makes at most \<open>max_attempts\<close> tries and waits between them exactly by the fixed
  schedule; it gives up on a transient failure only when the whole budget is spent, and it passes on what
  the last try returned or raised. The settings passed their validation and no wait within the budget
  overflows (\<open>settings_ok\<close>), as with the default settings, the only ones the process is built with.
\<close>

theorem call_with_backoff_bounded:
  assumes "settings_ok c" "call_with_backoff c operation s = (r, waits, s')"
  shows "int (length waits) + 1 \<le> gs_max_attempts c
    \<and> waits = map (\<lambda>n. (n, gs_initial_backoff c * gs_backoff_multiplier c ^ (n - 1))) [1..<1 + length waits]
    \<and> (\<forall>e. r = Inl e \<and> transient e \<longrightarrow> int (length waits) + 1 = gs_max_attempts c)
    \<and> (\<exists>t. operation t = (r, s'))"
proof -
  from assms(2) have call: "call_from c operation 1 s = (r, waits, s')"
    by (simp add: call_with_backoff_def)
  note w = call_from_waits [OF assms(1) call]
  have spelled: "waits = map (\<lambda>n. (n, gs_initial_backoff c * gs_backoff_multiplier c ^ (n - 1))) (map fst waits)"
    by (rule spelled_by) (use w in fastforce)
  have "map fst waits = [1..<1 + length waits]" using w by (simp del: upt_Suc)
  with spelled have waits: "waits = map (\<lambda>n. (n, gs_initial_backoff c * gs_backoff_multiplier c ^ (n - 1))) [1..<1 + length waits]" by metis
  have "\<exists>t. operation t = (r, s')"
    using call_from_returned [of c "\<lambda>_. True", OF assms(1) _ call] by simp
  moreover have "int (length waits) + 1 \<le> gs_max_attempts c"
    "\<forall>e. r = Inl e \<and> transient e \<longrightarrow> int (length waits) + 1 = gs_max_attempts c"
    using w settings_validated [OF assms(1)] by (auto simp: validated_settings_def)
  ultimately show ?thesis using waits by blast
qed

definition flaky :: "(nat, nat) operation" where
  "flaky n = (if n < 2 then (Inl RedisTransient, n + 1) else (Inr n, n))"

theorem call_with_backoff_bounded_witness:
  "call_with_backoff default_settings flaky 0 = (Inr 2, [(1, 1 / 5), (2, 2 / 5)], 2)
   \<and> (\<exists>t. flaky t = (Inr 2, 2)) \<and> int (length [(1 :: nat, 1 / 5 :: rat), (2, 2 / 5)]) + 1 \<le> 4"
proof -
  have run: "call_with_backoff default_settings flaky 0 = (Inr 2, [(1, 1 / 5), (2, 2 / 5)], 2)"
    by (simp add: call_with_backoff_def call_from.simps default_settings_def flaky_def
        backoff_seconds_def power_overflows_def)
  have "settings_ok default_settings"
    by (simp add: settings_ok_def validated_settings_def default_settings_def power_overflows_def)
  from call_with_backoff_bounded [OF this run] run show ?thesis by (simp add: default_settings_def)
qed

text \<open>
  C18. The startup replay is tried again through an outage: when the first \<open>n\<close> tries fail transiently
  without a stop being asked for, the call returns with what the next try returned or permanently raised,
  or, once a stop is requested, with the last outage error; it has waited by the fixed schedule, cut off at
  the configured bound. But the code computes the schedule's power before it cuts it off, so an outage that
  lasts until the power overflows, which the default settings reach after 1024 failures, ends the
  retrying with that \<^verbatim>\<open>OverflowError\<close> instead.
\<close>

theorem retry_through_outage_returns:
  assumes "\<forall>i < n. \<exists>e. fst (operation (after_failures operation i s)) = Inl e \<and> transient e"
    and "\<forall>i < n. \<not> wait (1 + i)"
    and "operation (after_failures operation n s) = (r, s')"
    and "(\<forall>e. r = Inl e \<longrightarrow> \<not> transient e) \<and> m = n \<or> (\<exists>e. r = Inl e \<and> transient e) \<and> wait (1 + n) \<and> m = n + 1"
  shows "retry_through_outage c wait operation s =
      (case find (overflows_at c) [1..<1 + m] of
         None \<Rightarrow> Some (r, map (capped_wait c) [1..<1 + m], s')
       | Some k \<Rightarrow> Some (Inl Overflow_Error, map (capped_wait c) [1..<k], after_failures operation k s))
    \<and> (gs_backoff_multiplier c = 2 \<longrightarrow> (\<forall>k. overflows_at c k \<longleftrightarrow> 1025 \<le> k))"
proof
  show "retry_through_outage c wait operation s =
      (case find (overflows_at c) [1..<1 + m] of
         None \<Rightarrow> Some (r, map (capped_wait c) [1..<1 + m], s')
       | Some k \<Rightarrow> Some (Inl Overflow_Error, map (capped_wait c) [1..<k], after_failures operation k s))"
  proof (cases "find (overflows_at c) [1..<1 + m]")
    case None
    then have fine: "\<not> overflows_at c k" if "1 \<le> k" "k \<le> m" for k
      using that by (auto simp: find_None_iff)
    have "retry_through_outage c wait operation s
        = outage_from c wait operation (1 + n) (rev (map (capped_wait c) [1..<1 + n])) (after_failures operation n s)"
      unfolding retry_through_outage_def
      using outage_from_skips [of n operation s wait 1 c "[]"] assms(1,2,4) fine by auto
    also have "\<dots> = Some (r, map (capped_wait c) [1..<1 + m], s')"
      using assms(3,4) fine [of "1 + n"]
      by (subst outage_from.simps)
        (auto simp: backoff_seconds_def overflows_at_def capped_wait_def Let_def split: sum.splits)
    finally show ?thesis using None by simp
  next
    case (Some k)
    then obtain i where i: "i < m" "k = 1 + i" "overflows_at c k" "\<forall>j < i. \<not> overflows_at c (1 + j)"
      by (auto simp: find_Some_iff simp del: upt_Suc)
    have fails: "\<exists>e. fst (operation (after_failures operation i s)) = Inl e \<and> transient e"
      using assms(1,3,4) i(1) by (cases "i = n") auto
    then obtain e t where op: "operation (after_failures operation i s) = (Inl e, t)" "transient e"
      by (cases "operation (after_failures operation i s)") auto
    have "after_failures operation k s = t" 
      by (simp only: i(2) plus_1_eq_Suc after_failures_Suc op(1) snd_conv)
    moreover have "retry_through_outage c wait operation s
        = outage_from c wait operation (1 + i) (rev (map (capped_wait c) [1..<1 + i])) (after_failures operation i s)"
      unfolding retry_through_outage_def
      using outage_from_skips [of i operation s wait 1 c "[]"] assms(1,2,4) i(1,4) by auto
    ultimately show ?thesis
      using Some op i(2,3) by (subst (asm) outage_from.simps) (simp add: backoff_seconds_def overflows_at_def)
  qed
  show "gs_backoff_multiplier c = 2 \<longrightarrow> (\<forall>k. overflows_at c k \<longleftrightarrow> 1025 \<le> k)"
  proof (intro impI allI)
    fix k assume two: "gs_backoff_multiplier c = 2"
    have "(2 :: rat) ^ (k - 1) \<le> 2 ^ 1023" if "k < 1025" using that by (intro power_increasing) auto
    moreover have "(2 :: rat) ^ 1024 \<le> 2 ^ (k - 1)" if "1025 \<le> k" using that by (intro power_increasing) auto
    moreover have "(2 :: rat) ^ 1023 < 2 ^ 1024 - 2 ^ 970" "(2 :: rat) ^ 1024 - 2 ^ 970 \<le> 2 ^ 1024" by simp_all
    ultimately show "overflows_at c k \<longleftrightarrow> 1025 \<le> k"
      unfolding overflows_at_def power_overflows_def two by (meson leD le_less_trans linorder_not_less order_trans)
  qed
qed

theorem retry_through_outage_returns_witness:
  "retry_through_outage default_settings (\<lambda>_. False) flaky 0 = Some (Inr 2, [(1, 1 / 5), (2, 2 / 5)], 2)"
proof -
  have "gs_backoff_multiplier default_settings = 2" by (simp add: default_settings_def)
  then have "\<not> overflows_at default_settings 1" "\<not> overflows_at default_settings 2"
    using retry_through_outage_returns [of 0 flaky 2 "\<lambda>_. False" "Inr 2" 2 0 default_settings]
    by (simp_all add: flaky_def)
  moreover have "[1..<1 + 2] = [1, 2 :: nat]" by (simp add: upt_rec)
  ultimately show ?thesis
    using retry_through_outage_returns [of 2 flaky 0 "\<lambda>_. False" "Inr 2" 2 2 default_settings]
    by (simp add: flaky_def less_Suc_eq numeral_2_eq_2 capped_wait_def default_settings_def)
qed

end
