(* ===== verification/Gateway_World.thy ===== *)
theory Gateway_World
  imports Applier Noop_Filter Graph_Log Replay_Gate Retry
begin

text \<open>
  The world the gateway acts on: the mutation log, the graphs FalkorDB holds, the gateway's own
  memory (blocked graphs, replay gate, graphs the reconciler is to retry), and the outcomes the
  environment gives to the calls still to come. Every call to FalkorDB or Postgres consumes one
  outcome; when none is left, calls are answered. An operation is a function on worlds that returns
  or raises, sequenced by \<open>bind_op\<close>.

  Locks serialise the writers of one graph, so a run of the gateway is a sequence of whole operations.
\<close>

section \<open>Outcomes and the world\<close>

text \<open>
  \<open>Answered\<close>: the call takes effect and is answered. \<open>Unreachable\<close>: it never arrives. \<open>Lost\<close>: it takes
  effect, but the answer does not come back. \<open>Refused\<close>: the server refuses it and nothing changes.
\<close>

datatype outcome = Answered | Unreachable | Lost | Refused

record world =
  w_log :: log_store
  w_graphs :: "string \<Rightarrow> graph"
  w_blocked :: "string set"
  w_blocked_units :: "string \<rightharpoonup> string list"
  w_gate :: replay_gate
  w_reconciling :: "string set"
  w_faults :: "outcome list"

type_synonym 'a op = "(world, 'a) operation"

fun next_outcome :: "world \<Rightarrow> outcome \<times> world" where
  "next_outcome w = (case w_faults w of [] \<Rightarrow> (Answered, w) | f # fs \<Rightarrow> (f, w\<lparr>w_faults := fs\<rparr>))"

section \<open>Sequencing\<close>

definition return_op :: "'a \<Rightarrow> 's \<Rightarrow> (raised, 'a) result \<times> 's" where
  "return_op x w = (Inr x, w)"

definition raise_op :: "raised \<Rightarrow> 's \<Rightarrow> (raised, 'a) result \<times> 's" where
  "raise_op e w = (Inl e, w)"

definition bind_op ::
    "('s \<Rightarrow> (raised, 'a) result \<times> 's) \<Rightarrow> ('a \<Rightarrow> 's \<Rightarrow> (raised, 'b) result \<times> 's)
     \<Rightarrow> 's \<Rightarrow> (raised, 'b) result \<times> 's" where
  "bind_op m f w = (case m w of (Inl e, w') \<Rightarrow> (Inl e, w') | (Inr x, w') \<Rightarrow> f x w')"

definition lift_result :: "(gateway_error, 'a) result \<Rightarrow> 's \<Rightarrow> (raised, 'a) result \<times> 's" where
  "lift_result r = (case r of Inl e \<Rightarrow> raise_op (Gateway e) | Inr x \<Rightarrow> return_op x)"

text \<open>\<open>try: m except: handler\<close>, where \<open>handler\<close> answers \<open>None\<close> for an error it does not catch.\<close>

definition catch_op ::
    "('s \<Rightarrow> (raised, 'a) result \<times> 's) \<Rightarrow> (raised \<Rightarrow> ('s \<Rightarrow> (raised, 'a) result \<times> 's) option)
     \<Rightarrow> 's \<Rightarrow> (raised, 'a) result \<times> 's" where
  "catch_op m handler w =
     (case m w of
        (Inl e, w') \<Rightarrow> (case handler e of None \<Rightarrow> (Inl e, w') | Some h \<Rightarrow> h w')
      | (Inr x, w') \<Rightarrow> (Inr x, w'))"

lemma bind_op_Inr: "bind_op m f w = (Inr y, w'') \<longleftrightarrow> (\<exists>x w'. m w = (Inr x, w') \<and> f x w' = (Inr y, w''))"
  by (auto simp: bind_op_def split: prod.splits sum.splits)

lemma bind_op_Inl: "bind_op m f w = (Inl e, w'') \<longleftrightarrow>
    m w = (Inl e, w'') \<or> (\<exists>x w'. m w = (Inr x, w') \<and> f x w' = (Inl e, w''))"
  by (auto simp: bind_op_def split: prod.splits sum.splits)

lemma return_op_eq [simp]: "return_op x w = (r, w') \<longleftrightarrow> r = Inr x \<and> w' = w"
  by (auto simp: return_op_def)

lemma raise_op_eq [simp]: "raise_op e w = (r, w') \<longleftrightarrow> r = Inl e \<and> w' = w"
  by (auto simp: raise_op_def)

lemma lift_result_eq [simp]: "lift_result q w = (r, w') \<longleftrightarrow> w' = w \<and> r = (case q of Inl e \<Rightarrow> Inl (Gateway e) | Inr x \<Rightarrow> Inr x)"
  by (cases q) (auto simp: lift_result_def)

section \<open>Calls\<close>

definition answered :: "world \<Rightarrow> bool" where
  "answered w \<longleftrightarrow> list_all (\<lambda>f. f = Answered) (w_faults w)"

text \<open>One query on a graph: what it returns and what it leaves.\<close>

definition graph_call :: "string \<Rightarrow> (graph \<Rightarrow> 'a \<times> graph) \<Rightarrow> 'a op" where
  "graph_call g query w =
     (case next_outcome w of (f, w') \<Rightarrow>
        let (x, after) = query (w_graphs w' g);
            ran = w'\<lparr>w_graphs := (w_graphs w')(g := after)\<rparr>
        in case f of
             Answered \<Rightarrow> (Inr x, ran)
           | Unreachable \<Rightarrow> (Inl RedisTransient, w')
           | Lost \<Rightarrow> (Inl RedisTransient, ran)
           | Refused \<Rightarrow> (Inl RedisRefused, w'))"

text \<open>\<^verbatim>\<open>_read\<close> of the log store: any failure is the log being unavailable.\<close>

definition log_read :: "(log_store \<Rightarrow> 'a) \<Rightarrow> 'a op" where
  "log_read select w =
     (case next_outcome w of (f, w') \<Rightarrow>
        if f = Answered then (Inr (select (w_log w')), w')
        else (Inl (Gateway GraphLogUnavailableError), w'))"

text \<open>
  \<^verbatim>\<open>_write_logged\<close>: a failed connection is the log being unavailable; a failed statement or commit is a
  persistence error, and after a lost commit the rows are there all the same.
\<close>

definition log_write :: "(log_store \<Rightarrow> (gateway_error, 'a \<times> log_store) result) \<Rightarrow> 'a op" where
  "log_write work w =
     (case next_outcome w of (f, w') \<Rightarrow>
        if f = Unreachable then (Inl (Gateway GraphLogUnavailableError), w')
        else case work (w_log w') of
               Inl e \<Rightarrow> (Inl (Gateway e), w')
             | Inr (x, written) \<Rightarrow>
                 if f = Answered then (Inr x, w'\<lparr>w_log := written\<rparr>)
                 else if f = Lost then (Inl (Gateway GraphLogPersistenceError), w'\<lparr>w_log := written\<rparr>)
                 else (Inl (Gateway GraphLogPersistenceError), w'))"

definition modify_op :: "('s \<Rightarrow> 's) \<Rightarrow> 's \<Rightarrow> (raised, unit) result \<times> 's" where
  "modify_op f w = (Inr (), f w)"

definition reconcile_later :: "string \<Rightarrow> unit op" where
  "reconcile_later g = modify_op (\<lambda>w. w\<lparr>w_reconciling := insert g (w_reconciling w)\<rparr>)"

section \<open>What calls keep\<close>

text \<open>
  \<open>outcomes_only\<close>: two worlds that differ at most in the outcomes still to come; \<open>memory_only\<close>: at most in
  these and the gateway's own memory.
\<close>

definition outcomes_only :: "world \<Rightarrow> world \<Rightarrow> bool" where
  "outcomes_only w w' \<longleftrightarrow> (\<exists>fs. w' = w\<lparr>w_faults := fs\<rparr>) \<and> (answered w \<longrightarrow> answered w')"

definition memory_only :: "world \<Rightarrow> world \<Rightarrow> bool" where
  "memory_only w w' \<longleftrightarrow> w_log w' = w_log w \<and> w_graphs w' = w_graphs w"

lemma outcomes_refl [simp, intro]: "outcomes_only w w"
  by (auto simp: outcomes_only_def intro!: exI [of _ "w_faults w"])

lemma outcomes_trans: "outcomes_only w w' \<Longrightarrow> outcomes_only w' w'' \<Longrightarrow> outcomes_only w w''"
  by (auto simp: outcomes_only_def)

lemma outcomes_memory: "outcomes_only w w' \<Longrightarrow> memory_only w w'"
  by (auto simp: outcomes_only_def memory_only_def)

lemma memory_refl [simp, intro]: "memory_only w w"
  by (simp add: memory_only_def)

lemma memory_trans: "memory_only w w' \<Longrightarrow> memory_only w' w'' \<Longrightarrow> memory_only w w''"
  by (simp add: memory_only_def)

lemma next_outcome_only: "next_outcome w = (f, w') \<Longrightarrow> outcomes_only w w' \<and> (answered w \<longrightarrow> f = Answered)"
  by (cases "w_faults w") (auto simp: outcomes_only_def answered_def intro: exI [of _ "w_faults w"])

lemma log_read_result:
  assumes "log_read select w = (r, w')"
  shows "outcomes_only w w'" "answered w \<Longrightarrow> r = Inr (select (w_log w))"
    and "r = Inr (select (w_log w)) \<or> r = Inl (Gateway GraphLogUnavailableError)"
proof -
  obtain f v where n: "next_outcome w = (f, v)" by (cases "next_outcome w")
  note only = next_outcome_only [OF n]
  from assms n have r: "w' = v" "r = (if f = Answered then Inr (select (w_log v)) else Inl (Gateway GraphLogUnavailableError))"
    by (auto simp: log_read_def simp del: next_outcome.simps split: if_splits)
  moreover have "w_log v = w_log w" using only by (auto simp: outcomes_only_def)
  ultimately show "outcomes_only w w'" "answered w \<Longrightarrow> r = Inr (select (w_log w))"
    "r = Inr (select (w_log w)) \<or> r = Inl (Gateway GraphLogUnavailableError)"
    using only by auto
qed

end
