(* ===== verification/Gateway_Apply.thy ===== *)
theory Gateway_Apply
  imports Gateway_World
begin

text \<open>
  Applying what a graph owes (\<^verbatim>\<open>_apply_pending\<close> of \<^verbatim>\<open>graph_gateway/gateway.py\<close>, with \<^verbatim>\<open>apply_entries\<close>
  of \<^verbatim>\<open>graph_gateway/applier.py\<close> and the retries around it). The lemmas show, for every sequence of
  outcomes, what a pass leaves behind: the entries beyond the marker still lead from the graph as it is
  to the graph the whole log describes.
\<close>

section \<open>The operations\<close>

definition on_world :: "'a op \<Rightarrow> (world \<times> nat, 'a) operation" where
  "on_world m s = (case m (fst s) of (r, w') \<Rightarrow> (r, (w', snd s)))"

fun perform :: "string \<Rightarrow> apply_step list \<Rightarrow> (world \<times> nat, unit) operation" where
  "perform g [] = return_op ()"
| "perform g (Query q # rest) =
     bind_op (on_world (graph_call g (\<lambda>x. ((), exec_statement q x)))) (\<lambda>_. perform g rest)"
| "perform g (RunApplied p # rest) =
     bind_op (on_world (log_write (advance_applied_position g p))) (\<lambda>_.
     bind_op (modify_op (\<lambda>(w, through). (w, p))) (\<lambda>_. perform g rest))"
| "perform g (Refuse e # rest) = raise_op (Gateway e)"
| "perform g (Ill_Typed # rest) = raise_op Ill_Typed_Run"

fun decode_entries :: "log_entry list \<Rightarrow> (gateway_error, positioned list) result" where
  "decode_entries [] = Inr []"
| "decode_entries (en # ens) =
     bind_result (decode_entry en) (\<lambda>p.
     bind_result (decode_entries ens) (\<lambda>ps. Inr ((en_position en, p) # ps)))"

text \<open>The \<open>nat\<close> is \<^verbatim>\<open>applied_through\<close>.\<close>

definition apply_pass :: "gateway_settings \<Rightarrow> string \<Rightarrow> nat option \<Rightarrow> (world \<times> nat, unit) operation" where
  "apply_pass c g before =
     bind_op (on_world (log_read (read_applied_position g))) (\<lambda>applied.
     bind_op (modify_op (\<lambda>(w, through). (w, applied))) (\<lambda>_.
     bind_op (on_world (log_read (read_entries g applied None))) (\<lambda>entries.
       let pending = (case before of None \<Rightarrow> entries | Some b \<Rightarrow> filter (\<lambda>en. en_position en < b) entries)
       in bind_op (lift_result (decode_entries pending)) (\<lambda>decoded.
            perform g (apply_steps (nat (gs_batch_size c)) decoded)))))"

fun is_apply_error :: "raised \<Rightarrow> bool" where
  "is_apply_error (Gateway (GraphApplyError _ _)) = True"
| "is_apply_error (Gateway (GraphApplyBlockedError _)) = True"
| "is_apply_error (Gateway (GraphReplayGatedError _ _)) = True"
| "is_apply_error _ = False"

definition apply_pending :: "gateway_settings \<Rightarrow> string \<Rightarrow> nat option \<Rightarrow> unit op" where
  "apply_pending c g before w =
     (case guard_call c g (\<lambda>(w, through). Some (through + 1)) (apply_pass c g before) (w, 0) of
        (Inl e, (w', _)) \<Rightarrow>
          (Inl e, if is_apply_error e then w'\<lparr>w_blocked := insert g (w_blocked w')\<rparr> else w')
      | (Inr finished, (w', _)) \<Rightarrow> (Inr (), w'\<lparr>w_blocked := w_blocked w' - {g}\<rparr>))"

section \<open>The standing of a graph\<close>

abbreviation marker :: "string \<Rightarrow> world \<Rightarrow> nat" where
  "marker g w \<equiv> read_applied_position g (w_log w)"

abbreviation logged :: "string \<Rightarrow> world \<Rightarrow> log_entry list" where
  "logged g w \<equiv> entries_of g (w_log w)"

text \<open>
  \<open>base g\<close> is what the graph held before its log began. \<open>in_step\<close>: the owed entries lead from the graph as
  it is to what the log makes of the base.
\<close>

definition in_step :: "(string \<Rightarrow> graph) \<Rightarrow> string \<Rightarrow> world \<Rightarrow> bool" where
  "in_step base g w \<longleftrightarrow>
     apply_all (entry_prims (drop (marker g w) (logged g w))) (w_graphs w g)
     = apply_all (entry_prims (logged g w)) (base g)"

definition log_sendable :: "log_store \<Rightarrow> bool" where
  "log_sendable s \<longleftrightarrow> (\<forall>en \<in> set (ls_entries s). \<exists>p. decode_entry en = Inr p \<and> sendable p)"

definition world_ok :: "(string \<Rightarrow> graph) \<Rightarrow> world \<Rightarrow> bool" where
  "world_ok base w \<longleftrightarrow> log_ok (w_log w) \<and> log_sendable (w_log w) \<and> (\<forall>g. in_step base g w)"

lemma world_ok_memory: "memory_only w w' \<Longrightarrow> world_ok base w' = world_ok base w"
  by (simp add: world_ok_def in_step_def memory_only_def)

text \<open>What applying to \<open>g\<close> may change: its graph, its marker (forwards) and the outcomes to come.\<close>

definition applied_more :: "string \<Rightarrow> world \<Rightarrow> world \<Rightarrow> bool" where
  "applied_more g w w' \<longleftrightarrow>
     (\<exists>x m fs. w' = w\<lparr>w_log := (w_log w)\<lparr>ls_markers := m\<rparr>, w_graphs := (w_graphs w)(g := x), w_faults := fs\<rparr>
        \<and> (\<forall>h. h \<noteq> g \<longrightarrow> m h = ls_markers (w_log w) h))
     \<and> marker g w \<le> marker g w' \<and> (answered w \<longrightarrow> answered w')"

lemma applied_more_refl: "applied_more g w w"
  unfolding applied_more_def
  by (intro conjI exI [of _ "w_graphs w g"] exI [of _ "ls_markers (w_log w)"] exI [of _ "w_faults w"]) auto

lemma applied_more_trans: "applied_more g w w' \<Longrightarrow> applied_more g w' w'' \<Longrightarrow> applied_more g w w''"
proof -
  assume a: "applied_more g w w'" and b: "applied_more g w' w''"
  from a obtain x m fs where 1: "w' = w\<lparr>w_log := (w_log w)\<lparr>ls_markers := m\<rparr>,
      w_graphs := (w_graphs w)(g := x), w_faults := fs\<rparr>" "\<forall>h. h \<noteq> g \<longrightarrow> m h = ls_markers (w_log w) h"
    by (auto simp: applied_more_def)
  from b obtain x' m' fs' where 2: "w'' = w'\<lparr>w_log := (w_log w')\<lparr>ls_markers := m'\<rparr>,
      w_graphs := (w_graphs w')(g := x'), w_faults := fs'\<rparr>" "\<forall>h. h \<noteq> g \<longrightarrow> m' h = ls_markers (w_log w') h"
    by (auto simp: applied_more_def)
  have "w'' = w\<lparr>w_log := (w_log w)\<lparr>ls_markers := m'\<rparr>, w_graphs := (w_graphs w)(g := x'), w_faults := fs'\<rparr>"
    using 1(1) 2(1) by simp
  moreover have "\<forall>h. h \<noteq> g \<longrightarrow> m' h = ls_markers (w_log w) h" using 1 2 by simp
  moreover have "marker g w \<le> marker g w''" "answered w \<longrightarrow> answered w''"
    using a b by (simp_all add: applied_more_def)
  ultimately show ?thesis unfolding applied_more_def by blast
qed

lemma outcomes_applied_more: "outcomes_only w w' \<Longrightarrow> applied_more g w w'"
  unfolding applied_more_def outcomes_only_def
  by (elim conjE exE, rename_tac fs)
    (intro conjI exI [of _ "w_graphs w g"] exI [of _ "ls_markers (w_log w)"], auto)

lemma applied_moreD:
  assumes "applied_more g w w'"
  shows "logged h w' = logged h w" "h \<noteq> g \<Longrightarrow> marker h w' = marker h w"
    and "h \<noteq> g \<Longrightarrow> w_graphs w' h = w_graphs w h" "marker g w \<le> marker g w'" "answered w \<Longrightarrow> answered w'"
    and "ls_entries (w_log w') = ls_entries (w_log w)" "last_position h (w_log w') = last_position h (w_log w)"
    and "w_blocked w' = w_blocked w" "w_gate w' = w_gate w" "w_reconciling w' = w_reconciling w"
    and "ls_groups (w_log w') = ls_groups (w_log w)" "ls_checkpoints (w_log w') = ls_checkpoints (w_log w)"
  using assms
  by (auto simp: applied_more_def entries_of_def read_applied_position_def last_position_def)


section \<open>One pass\<close>

lemma graph_write_result:
  assumes "graph_call g (\<lambda>x. ((), F x)) w = (r, w')"
  shows "applied_more g w w'" "w_log w' = w_log w"
    and "w_graphs w' g = w_graphs w g \<or> w_graphs w' g = F (w_graphs w g)"
    and "r = Inr () \<Longrightarrow> w_graphs w' g = F (w_graphs w g)" "answered w \<Longrightarrow> r = Inr ()"
    and "r = Inr () \<or> r = Inl RedisTransient \<or> (r = Inl RedisRefused \<and> w_graphs w' g = w_graphs w g)"
proof -
  obtain f v where n: "next_outcome w = (f, v)" by (cases "next_outcome w")
  note only = next_outcome_only [OF n]
  then obtain fs where v: "v = w\<lparr>w_faults := fs\<rparr>" by (auto simp: outcomes_only_def)
  from assms n v have r: "(w', r) = (let ran = w\<lparr>w_graphs := (w_graphs w)(g := F (w_graphs w g)), w_faults := fs\<rparr>
      in case f of Answered \<Rightarrow> (ran, Inr ()) | Unreachable \<Rightarrow> (v, Inl RedisTransient)
         | Lost \<Rightarrow> (ran, Inl RedisTransient) | Refused \<Rightarrow> (v, Inl RedisRefused))"
    by (cases f) (auto simp: graph_call_def Let_def simp del: next_outcome.simps)
  have "answered w \<Longrightarrow> answered (w\<lparr>w_graphs := x, w_faults := fs\<rparr>)" for x
    using only v by (auto simp: outcomes_only_def answered_def)
  then have "applied_more g w (w\<lparr>w_graphs := (w_graphs w)(g := x), w_faults := fs\<rparr>)" for x
    unfolding applied_more_def
    by (intro conjI exI [of _ x] exI [of _ "ls_markers (w_log w)"] exI [of _ fs]) auto
  moreover have "applied_more g w v" using only outcomes_applied_more by blast
  ultimately show "applied_more g w w'" using r by (cases f) (auto simp: Let_def)
  show "w_log w' = w_log w" "w_graphs w' g = w_graphs w g \<or> w_graphs w' g = F (w_graphs w g)"
    "r = Inr () \<Longrightarrow> w_graphs w' g = F (w_graphs w g)"
    "r = Inr () \<or> r = Inl RedisTransient \<or> (r = Inl RedisRefused \<and> w_graphs w' g = w_graphs w g)"
    using r v by (cases f; auto simp: Let_def)+
  show "answered w \<Longrightarrow> r = Inr ()" using r only by (auto simp: Let_def)
qed

lemma advance_result:
  assumes "log_write (advance_applied_position g p) w = (r, w')" "log_ok (w_log w)"
    and "marker g w \<le> p" "p \<le> last_position g (w_log w)"
  shows "applied_more g w w'" "log_ok (w_log w')" "w_graphs w' = w_graphs w"
    and "marker g w' = marker g w \<or> marker g w' = p" "r = Inr x \<Longrightarrow> marker g w' = p"
    and "answered w \<Longrightarrow> \<exists>x. r = Inr x" "r \<noteq> Inl RedisRefused"
proof -
  obtain f v where n: "next_outcome w = (f, v)" by (cases "next_outcome w")
  note only = next_outcome_only [OF n]
  then obtain fs where v: "v = w\<lparr>w_faults := fs\<rparr>" by (auto simp: outcomes_only_def)
  obtain s where s: "advance_marker g p (w_log w) = Some s"
    using glog.advance_some [OF assms(2), of g p] assms(2,4) by (auto simp: last_position_length)
  then obtain y where adv: "advance_applied_position g p (w_log w) = Inr (y, s)"
    by (auto simp: advance_marker_def split: sum.splits)
  have moved: "log_ok s" "read_applied_position h s = (if h = g then p else marker h w)" for h
    using glog.advance_ok [OF assms(2) s] glog.advance_applied [OF assms(2) s, of h] assms(3) by auto
  obtain m where m: "s = (w_log w)\<lparr>ls_markers := m\<rparr>" "\<forall>h. h \<noteq> g \<longrightarrow> m h = ls_markers (w_log w) h"
  proof -
    have "s = (w_log w)\<lparr>ls_markers := (ls_markers (w_log w))(g \<mapsto> p)\<rparr> \<or> s = w_log w"
      using adv by (auto simp: advance_applied_position_def Let_def split: if_splits option.splits)
    then show thesis
    proof
      assume "s = w_log w"
      then show thesis by (intro that [of "ls_markers (w_log w)"]) auto
    qed (rule that, auto)
  qed
  let ?ran = "w\<lparr>w_log := s, w_faults := fs\<rparr>"
  have answers: "answered w \<longrightarrow> answered ?ran" "answered w \<longrightarrow> answered v"
    using only v by (auto simp: outcomes_only_def answered_def)
  have ran: "applied_more g w ?ran"
    unfolding applied_more_def using m moved(2) [of g] assms(3) answers
    by (intro conjI exI [of _ "w_graphs w g"] exI [of _ m] exI [of _ fs]) auto
  have kept: "applied_more g w v" using only outcomes_applied_more by blast
  from assms(1) n v adv have r:
    "(f = Answered \<and> w' = ?ran \<and> r = Inr y) \<or> (f = Lost \<and> w' = ?ran \<and> r = Inl (Gateway GraphLogPersistenceError))
     \<or> (f \<noteq> Answered \<and> w' = v \<and> (\<exists>e. r = Inl (Gateway e)))"
    by (cases f) (auto simp: log_write_def simp del: next_outcome.simps)
  show "applied_more g w w'" using r ran kept by auto
  show "log_ok (w_log w')" "w_graphs w' = w_graphs w" "marker g w' = marker g w \<or> marker g w' = p"
    using r moved(1) moved(2) [of g] v assms(2) by auto
  show "r = Inr x \<Longrightarrow> marker g w' = p" using r moved(2) [of g] by auto
  show "answered w \<Longrightarrow> \<exists>x. r = Inr x" using r only by auto
  show "r \<noteq> Inl RedisRefused" using r by auto
qed

fun reports :: "apply_step list \<Rightarrow> nat list" where
  "reports [] = []"
| "reports (RunApplied p # rest) = p # reports rest"
| "reports (_ # rest) = reports rest"

abbreviation standing :: "string \<Rightarrow> world \<Rightarrow> apply_state" where
  "standing g w \<equiv> \<lparr>a_graph = w_graphs w g, a_marker = marker g w\<rparr>"

lemma perform_cut:
  assumes "perform g steps (w, t) = (r, (w', t'))" "log_ok (w_log w)"
    and "sorted_wrt (<) (marker g w # reports steps)"
    and "\<forall>p \<in> set (reports steps). p \<le> last_position g (w_log w)"
  shows "applied_more g w w' \<and> log_ok (w_log w')
    \<and> (\<exists>k. standing g w' = fst (do_steps (take k steps) (standing g w)))
    \<and> (r = Inr () \<longrightarrow> do_steps steps (standing g w) = (standing g w', None))
    \<and> (answered w \<and> snd (do_steps steps (standing g w)) = None \<longrightarrow> r = Inr ())
    \<and> (t = marker g w \<and> r = Inl RedisRefused \<longrightarrow> t' = marker g w')"
  using assms
proof (induction steps arbitrary: w t)
  case Nil
  then show ?case by (auto simp: applied_more_refl)
next
  case (Cons s steps)
  show ?case
  proof (cases s)
    case (Query q)
    obtain r1 w1 where call: "graph_call g (\<lambda>x. ((), exec_statement q x)) w = (r1, w1)"
      by (cases "graph_call g (\<lambda>x. ((), exec_statement q x)) w") auto
    note c = graph_write_result [OF call]
    show ?thesis
    proof (cases r1)
      case (Inl e)
      with Cons.prems(1) Query call have r: "r = Inl e" "w' = w1" "t' = t"
        by (auto simp: bind_op_def on_world_def)
      have "\<exists>k. standing g w1 = fst (do_steps (take k (Query q # steps)) (standing g w))"
        using c(2,3) by (elim disjE) (intro exI [of _ 0] exI [of _ 1]; simp)+
      with c Inl r Query Cons.prems(2) show ?thesis by auto
    next
      case (Inr u)
      with Cons.prems(1) Query call have rest: "perform g steps (w1, t) = (r, (w', t'))"
        by (auto simp: bind_op_def on_world_def)
      from c(2,4) Inr have st: "standing g w1 = (standing g w)\<lparr>a_graph := exec_statement q (w_graphs w g)\<rparr>"
        by simp
      have IH: "applied_more g w1 w' \<and> log_ok (w_log w')
        \<and> (\<exists>k. standing g w' = fst (do_steps (take k steps) (standing g w1)))
        \<and> (r = Inr () \<longrightarrow> do_steps steps (standing g w1) = (standing g w', None))
        \<and> (answered w1 \<and> snd (do_steps steps (standing g w1)) = None \<longrightarrow> r = Inr ())
        \<and> (t = marker g w1 \<and> r = Inl RedisRefused \<longrightarrow> t' = marker g w')"
        using Cons.prems(2-4) Query c(2) by (intro Cons.IH [OF rest]) simp_all
      then obtain k where "standing g w' = fst (do_steps (take k steps) (standing g w1))" by blast
      then have "standing g w' = fst (do_steps (take (Suc k) (s # steps)) (standing g w))"
        using st Query by simp
      moreover have "do_steps (s # steps) (standing g w) = do_steps steps (standing g w1)"
        using st Query by simp
      ultimately show ?thesis
        using IH c(1,2) applied_more_trans [OF c(1)] applied_moreD(5) [OF c(1)] by metis
    qed
  next
    case (RunApplied p)
    from Cons.prems(3,4) RunApplied have p: "marker g w \<le> p" "p \<le> last_position g (w_log w)"
      "sorted_wrt (<) (p # reports steps)" by auto
    obtain r1 w1 where call: "log_write (advance_applied_position g p) w = (r1, w1)"
      by (cases "log_write (advance_applied_position g p) w")
    note c = advance_result [OF call Cons.prems(2) p(1,2)]
    show ?thesis
    proof (cases r1)
      case (Inl e)
      with Cons.prems(1) RunApplied call have r: "r = Inl e" "w' = w1" "t' = t"
        by (auto simp: bind_op_def on_world_def)
      have "\<exists>k. standing g w1 = fst (do_steps (take k (RunApplied p # steps)) (standing g w))"
        using c(3,4) by (elim disjE) (intro exI [of _ 0] exI [of _ 1]; simp)+
      with c Inl r RunApplied show ?thesis by auto
    next
      case (Inr y)
      with Cons.prems(1) RunApplied call have rest: "perform g steps (w1, p) = (r, (w', t'))"
        by (auto simp: bind_op_def on_world_def modify_op_def)
      from c(3,5) Inr have st: "standing g w1 = (standing g w)\<lparr>a_marker := p\<rparr>" "marker g w1 = p" by simp_all
      have IH: "applied_more g w1 w' \<and> log_ok (w_log w')
        \<and> (\<exists>k. standing g w' = fst (do_steps (take k steps) (standing g w1)))
        \<and> (r = Inr () \<longrightarrow> do_steps steps (standing g w1) = (standing g w', None))
        \<and> (answered w1 \<and> snd (do_steps steps (standing g w1)) = None \<longrightarrow> r = Inr ())
        \<and> (p = marker g w1 \<and> r = Inl RedisRefused \<longrightarrow> t' = marker g w')"
        using Cons.prems(4) RunApplied c(2) p(3) st(2) applied_moreD(7) [OF c(1)]
        by (intro Cons.IH [OF rest]) simp_all
      then obtain k where "standing g w' = fst (do_steps (take k steps) (standing g w1))" by blast
      then have "standing g w' = fst (do_steps (take (Suc k) (s # steps)) (standing g w))"
        using st RunApplied by simp
      moreover have "do_steps (s # steps) (standing g w) = do_steps steps (standing g w1)"
        using st RunApplied by simp
      ultimately show ?thesis
        using IH st(2) applied_more_trans [OF c(1)] applied_moreD(5) [OF c(1)] by metis
    qed
  next
    case (Refuse e)
    with Cons.prems show ?thesis by (auto simp: applied_more_refl intro: exI [of _ 0])
  next
    case Ill_Typed
    with Cons.prems show ?thesis by (auto simp: applied_more_refl intro: exI [of _ 0])
  qed
qed


lemma numbered_from_Cons:
  "numbered_from n (en # ens) \<longleftrightarrow> en_position en = Suc n \<and> numbered_from (Suc n) ens"
  by (auto simp: numbered_from_def upt_conv_Cons simp del: upt_Suc)

lemma numbered_filter: "numbered_from n ens \<Longrightarrow> filter (\<lambda>en. k < en_position en) ens = drop (k - n) ens"
proof (induction ens arbitrary: n)
  case (Cons en ens)
  then have "en_position en = Suc n" "filter (\<lambda>en. k < en_position en) ens = drop (k - Suc n) ens"
    by (simp_all add: numbered_from_Cons)
  moreover have "drop (k - n) (en # ens) = (if k \<le> n then en # ens else drop (k - Suc n) ens)"
    by (simp add: drop_Cons split: nat.split)
      (metis Suc_diff_Suc diff_Suc_Suc nat.inject not_le)
  ultimately show ?case by auto
qed simp

lemma numbered_take: "numbered_from n ens \<Longrightarrow> numbered_from n (take j ens)"
  by (simp add: numbered_from_def take_map [symmetric] take_upt min_def del: upt_Suc)

lemma numbered_drop: "numbered_from n ens \<Longrightarrow> j \<le> length ens \<Longrightarrow> numbered_from (n + j) (drop j ens)"
  by (simp add: numbered_from_def drop_map [symmetric] drop_upt del: upt_Suc)

lemma numbered_sorted: "numbered_from n ens \<Longrightarrow> sorted_wrt (<) (map en_position ens)"
  by (simp add: numbered_from_def del: upt_Suc)

lemma sorted_filter_take:
  "sorted_wrt (<) (map f xs) \<Longrightarrow> \<exists>j. filter (\<lambda>x. f x < b) xs = take j xs" for f :: "'a \<Rightarrow> nat"
proof (induction xs)
  case (Cons x xs)
  show ?case
  proof (cases "f x < b")
    case True
    from Cons obtain j where "filter (\<lambda>x. f x < b) xs = take j xs" by auto
    with True show ?thesis by (intro exI [of _ "Suc j"]) simp
  next
    case False
    with Cons.prems have "\<forall>y \<in> set xs. \<not> f y < b" by fastforce
    with False show ?thesis by (intro exI [of _ 0]) (simp add: filter_empty_conv)
  qed
qed simp

definition limited :: "nat option \<Rightarrow> log_entry list \<Rightarrow> log_entry list" where
  "limited before entries =
     (case before of None \<Rightarrow> entries | Some b \<Rightarrow> filter (\<lambda>en. en_position en < b) entries)"

lemma limited_take:
  assumes "numbered_from n ens"
  shows "\<exists>j. limited before ens = take j ens"
  using sorted_filter_take [OF numbered_sorted [OF assms]]
  by (cases before) (auto simp: limited_def intro: exI [of _ "length ens"])

definition positioned :: "log_entry list \<Rightarrow> positioned list" where
  "positioned ens = map (\<lambda>en. (en_position en, entry_prim en)) ens"

lemma decode_entries_all:
  "\<forall>en \<in> set ens. \<exists>p. decode_entry en = Inr p \<Longrightarrow> decode_entries ens = Inr (positioned ens)"
  by (induction ens) (auto simp: positioned_def entry_prim_def)

lemma numbered_ascending: "numbered_from n ens \<Longrightarrow> ascending_after n (positioned ens)"
proof -
  assume n: "numbered_from n ens"
  then have p: "map fst (positioned ens) = [Suc n..<Suc (n + length ens)]"
    by (simp add: positioned_def numbered_from_def comp_def del: upt_Suc)
  then have "fst ` set (positioned ens) = {Suc n..<Suc (n + length ens)}"
    by (metis set_map set_upt)
  then have "n < fst x" if "x \<in> set (positioned ens)" for x
    using imageI [OF that, of fst] by simp
  with p show ?thesis by (auto simp: ascending_after_def simp del: upt_Suc)
qed

lemma numbered_positions: "numbered_from n ens \<Longrightarrow> p \<in> fst ` set (positioned ens) \<Longrightarrow> n < p \<and> p \<le> n + length ens"
proof -
  assume n: "numbered_from n ens" and p: "p \<in> fst ` set (positioned ens)"
  have "fst ` set (positioned ens) = set (map en_position ens)" by (auto simp: positioned_def image_iff)
  with n p show ?thesis by (auto simp: numbered_from_def simp del: upt_Suc)
qed

lemma beyond_numbered:
  "numbered_from n ens \<Longrightarrow> map snd (beyond k (positioned ens)) = entry_prims (drop (k - n) ens)"
proof -
  assume n: "numbered_from n ens"
  have "beyond k (positioned ens) = positioned (filter (\<lambda>en. k < en_position en) ens)"
    by (induction ens) (auto simp: beyond_def positioned_def)
  then show ?thesis unfolding numbered_filter [OF n] by (simp add: positioned_def entry_prims_def)
qed

lemma reports_append [simp]: "reports (xs @ ys) = reports xs @ reports ys"
  by (induction xs rule: reports.induct) auto

lemma reports_run: "reports (run_steps n r) = [fst (last r)]"
proof -
  have "reports (map (\<lambda>chunk. apply_chunk (map snd chunk)) cs) = []" for cs
    by (induction cs) (simp_all add: apply_chunk_def split: sum.split)
  then show ?thesis by (simp add: run_steps_def)
qed

lemma reports_runs:
  assumes "\<forall>r \<in> set rs. r \<noteq> []" "ascending_after m (concat rs)"
  shows "sorted_wrt (<) (m # reports (concat (map (run_steps n) rs)))
    \<and> set (reports (concat (map (run_steps n) rs))) \<subseteq> fst ` set (concat rs)"
  using assms
proof (induction rs arbitrary: m)
  case (Cons r rs)
  then have r: "r \<noteq> []" by simp
  with Cons.prems have after: "ascending_after (fst (last r)) (concat rs)"
    by (auto intro: ascending_after_append)
  from Cons.prems(2) have "\<forall>x \<in> set r. m < fst x" by (auto simp: ascending_after_def)
  with r have first: "m < fst (last r)" by simp
  have "sorted_wrt (<) (fst (last r) # reports (concat (map (run_steps n) rs)))
    \<and> set (reports (concat (map (run_steps n) rs))) \<subseteq> fst ` set (concat rs)"
    using Cons.prems(1) by (intro Cons.IH [OF _ after]) simp
  with first r show ?case by (auto simp: reports_run image_Un)
qed simp

lemma log_pending:
  assumes "log_ok s"
  shows "read_entries g (read_applied_position g s) None s = drop (read_applied_position g s) (entries_of g s)"
    and "numbered_from (read_applied_position g s) (drop (read_applied_position g s) (entries_of g s))"
    and "read_applied_position g s \<le> length (entries_of g s)"
  using read_entries_all [OF assms] glog.pending_numbered [OF assms, of g] glog.applied_bound [OF assms, of g]
  by simp_all


text \<open>A pass, from its reads on.\<close>

lemma perform_pending:
  assumes ok: "world_ok base w" and pending: "pending = limited before (drop (marker g w) (logged g w))"
    and run: "perform g (apply_steps n (positioned pending)) (w, t) = (r, (w', t'))" and n: "0 < n"
  shows "applied_more g w w' \<and> world_ok base w'
    \<and> (r = Inr () \<longrightarrow> marker g w' = marker g w + length pending)
    \<and> (answered w \<longrightarrow> r = Inr ())
    \<and> (t = marker g w \<and> r = Inl RedisRefused \<longrightarrow> t' = marker g w')"
proof -
  define m where "m = marker g w"
  define es where "es = logged g w"
  define owed where "owed = drop m es"
  from ok have log: "log_ok (w_log w)" and sendable: "log_sendable (w_log w)" by (simp_all add: world_ok_def)
  note log_pending [OF log, of g, folded m_def es_def, folded owed_def]
  then have num: "numbered_from m owed" "m \<le> length es" by simp_all
  obtain j where j: "pending = take j owed" using limited_take [OF num(1), of before] pending
    by (auto simp: m_def es_def owed_def)
  have split: "owed = pending @ drop (length pending) owed"
    by (cases "j \<le> length owed") (simp_all add: j)
  have numj: "numbered_from m pending" unfolding j by (rule numbered_take [OF num(1)])
  have len: "m + length pending \<le> length es" using num(2) by (simp add: j owed_def)
  obtain rs where rs: "runs (positioned pending) = Some rs" "concat rs = positioned pending"
    "\<forall>r \<in> set rs. good_run r" using runs_correct by blast
  have steps: "apply_steps n (positioned pending) = concat (map (run_steps n) rs)"
    by (simp add: apply_steps_def rs(1))
  have send: "\<forall>x \<in> set (concat rs). Applier.sendable (snd x)"
  proof -
    have "en \<in> set pending \<Longrightarrow> en \<in> set (ls_entries (w_log w))" for en
      by (auto simp: j owed_def es_def entries_of_def dest!: in_set_takeD in_set_dropD)
    then have "Applier.sendable (entry_prim en)" if "en \<in> set pending" for en
      using that sendable by (fastforce simp: log_sendable_def entry_prim_def)
    then show ?thesis unfolding rs(2) by (auto simp: positioned_def)
  qed
  have asc: "ascending_after m (concat rs)" unfolding rs(2) by (rule numbered_ascending [OF numj])
  have nonempty: "\<forall>r \<in> set rs. r \<noteq> []" using rs(3) by (auto simp: good_run_def)
  have last: "last_position g (w_log w) = length es" by (simp add: es_def last_position_length [OF log])
  have rep: "sorted_wrt (<) (marker g w # reports (apply_steps n (positioned pending)))"
    "\<forall>p \<in> set (reports (apply_steps n (positioned pending))). p \<le> last_position g (w_log w)"
    using reports_runs [OF nonempty asc, of n] numbered_positions [OF numj] len rs(2)
    by (force simp: steps m_def last)+
  from perform_cut [OF run log rep] have cut: "applied_more g w w'" "log_ok (w_log w')"
    "r = Inr () \<Longrightarrow> do_steps (apply_steps n (positioned pending)) (standing g w) = (standing g w', None)"
    "answered w \<Longrightarrow> snd (do_steps (apply_steps n (positioned pending)) (standing g w)) = None \<Longrightarrow> r = Inr ()"
    "t = marker g w \<and> r = Inl RedisRefused \<longrightarrow> t' = marker g w'"
    and "\<exists>k. standing g w' = fst (do_steps (take k (apply_steps n (positioned pending))) (standing g w))"
    by blast+
  then obtain k where k: "standing g w' = fst (do_steps (take k (apply_steps n (positioned pending))) (standing g w))"
    by blast
  have asc': "ascending_after (a_marker (standing g w)) (concat rs)" using asc by (simp add: m_def)
  from k have k': "fst (do_steps (take k (concat (map (run_steps n) rs))) (standing g w)) = standing g w'"
    by (simp only: steps)
  from apply_runs_cut [OF rs(3) send n asc', of k]
  have left: "apply_all (map snd (beyond (marker g w') (positioned pending))) (w_graphs w' g)
      = apply_all (map snd (positioned pending)) (w_graphs w g)"
    "marker g w' \<in> insert m (fst ` set (positioned pending))"
    unfolding k' Let_def rs(2) by (simp_all add: m_def)
  have all: "do_steps (apply_steps n (positioned pending)) (standing g w)
      = (\<lparr>a_graph = apply_all (map snd (concat rs)) (w_graphs w g),
          a_marker = (if rs = [] then m else fst (last (concat rs)))\<rparr>, None)"
    using apply_runs_all [OF rs(3) send n, of "standing g w"] by (simp add: steps m_def)
  have last_marker: "(if rs = [] then m else fst (last (concat rs))) = m + length pending"
  proof (cases "pending = []")
    case True
    then have "concat rs = []" using rs(2) by (simp add: positioned_def)
    then have "rs = []" using nonempty by (cases rs) auto
    with True show ?thesis by simp
  next
    case False
    have "map en_position pending = [Suc m..<Suc (m + length pending)]" using numj by (simp add: numbered_from_def)
    then have "last (map en_position pending) = last [Suc m..<Suc (m + length pending)]" by (simp only:)
    moreover have "\<dots> = m + length pending" using False by (cases "length pending") auto
    ultimately have "en_position (last pending) = m + length pending" using False by (simp add: last_map)
    moreover have "rs \<noteq> []" using False rs(2) by (auto simp: positioned_def)
    ultimately show ?thesis using False rs(2) by (simp add: positioned_def last_map)
  qed
  have in_g: "in_step base g w'"
  proof -
    have bound: "m \<le> marker g w'" "marker g w' - m \<le> length pending"
      using left(2) numbered_positions [OF numj] by fastforce+
    have "drop (marker g w') es = drop (marker g w' - m) owed" using bound by (simp add: owed_def)
    also have "\<dots> = drop (marker g w' - m) pending @ drop (length pending) owed"
    proof -
      have "owed = pending @ drop (length pending) owed" by (rule split)
      then have "drop (marker g w' - m) owed = drop (marker g w' - m) (pending @ drop (length pending) owed)"
        by (rule arg_cong)
      with bound(2) show ?thesis by simp
    qed
    finally have "apply_all (entry_prims (drop (marker g w') es)) (w_graphs w' g)
        = apply_all (entry_prims (drop (length pending) owed))
            (apply_all (entry_prims (drop (marker g w' - m) pending)) (w_graphs w' g))"
      by (simp add: entry_prims_def)
    also have "apply_all (entry_prims (drop (marker g w' - m) pending)) (w_graphs w' g)
        = apply_all (entry_prims pending) (w_graphs w g)"
      using left(1) beyond_numbered [OF numj] by (simp add: entry_prims_def positioned_def comp_def)
    also have "apply_all (entry_prims (drop (length pending) owed)) \<dots> = apply_all (entry_prims owed) (w_graphs w g)"
    proof -
      have "owed = pending @ drop (length pending) owed" by (rule split)
      then have "entry_prims owed = entry_prims pending @ entry_prims (drop (length pending) owed)"
        by (metis entry_prims_def map_append)
      then show ?thesis by simp
    qed
    also have "\<dots> = apply_all (entry_prims es) (base g)"
      using ok by (simp add: world_ok_def in_step_def owed_def m_def es_def)
    finally show ?thesis using applied_moreD(1) [OF cut(1), of g] by (simp add: in_step_def es_def)
  qed
  have "in_step base h w'" for h
  proof (cases "h = g")
    case False
    with ok applied_moreD(1-3) [OF cut(1)] show ?thesis by (simp add: in_step_def world_ok_def)
  qed (simp add: in_g)
  moreover have "log_sendable (w_log w')"
    using sendable applied_moreD(6) [OF cut(1)] by (simp add: log_sendable_def)
  ultimately have "world_ok base w'" using cut(2) by (simp add: world_ok_def)
  moreover have "r = Inr () \<longrightarrow> marker g w' = marker g w + length pending"
    using cut(3) all last_marker by (auto simp: m_def)
  ultimately show ?thesis using cut all by auto
qed


lemma apply_pass_keeps:
  assumes "apply_pass c g before (w, t) = (r, (w', t'))" "world_ok base w" "1 \<le> gs_batch_size c"
  shows "applied_more g w w' \<and> world_ok base w'
    \<and> (r = Inr () \<longrightarrow> marker g w' = marker g w + length (limited before (drop (marker g w) (logged g w))))
    \<and> (answered w \<longrightarrow> r = Inr ())
    \<and> (r = Inl RedisRefused \<longrightarrow> t' = marker g w')"
proof -
  obtain r1 w1 where read1: "log_read (read_applied_position g) w = (r1, w1)"
    by (cases "log_read (read_applied_position g) w")
  note c1 = log_read_result [OF read1]
  have ok1: "world_ok base w1" "applied_more g w w1" "marker g w1 = marker g w" "logged g w1 = logged g w"
    using assms(2) outcomes_memory [OF c1(1)] outcomes_applied_more [OF c1(1)]
    by (simp_all add: world_ok_memory) (simp_all add: memory_only_def)
  show ?thesis
  proof (cases r1)
    case (Inl e)
    with assms(1) read1 have "r = Inl e" "w' = w1" by (auto simp: apply_pass_def bind_op_def on_world_def)
    with Inl ok1 c1(2,3) show ?thesis by auto
  next
    case (Inr applied)
    with c1(3) have applied: "applied = marker g w" by auto
    obtain r2 w2 where read2: "log_read (read_entries g applied None) w1 = (r2, w2)"
      by (cases "log_read (read_entries g applied None) w1")
    note c2 = log_read_result [OF read2]
    have ok2: "world_ok base w2" "applied_more g w w2" "marker g w2 = marker g w" "logged g w2 = logged g w"
      using ok1 outcomes_memory [OF c2(1)] outcomes_applied_more [OF c2(1), of g]
        applied_more_trans [OF ok1(2)]
      by (simp_all add: world_ok_memory) (simp_all add: memory_only_def)
    show ?thesis
    proof (cases r2)
      case (Inl e)
      with assms(1) read1 read2 \<open>r1 = Inr applied\<close> have "r = Inl e" "w' = w2"
        by (auto simp: apply_pass_def bind_op_def on_world_def modify_op_def)
      with Inl ok2 c2(2,3) applied_moreD(5) [OF ok1(2)] show ?thesis by auto
    next
      case (Inr entries)
      with c2(3) have "entries = read_entries g applied None (w_log w1)" by auto
      moreover have "log_ok (w_log w1)" using ok1(1) by (simp add: world_ok_def)
      ultimately have entries: "entries = drop (marker g w) (logged g w)"
        using log_pending(1) [of "w_log w1" g] ok1(3,4) applied by simp
      let ?pending = "limited before entries"
      have "\<exists>p. decode_entry en = Inr p" if "en \<in> set ?pending" for en
      proof -
        from that entries have "en \<in> set (logged g w)"
          by (auto simp: limited_def split: option.splits dest: in_set_dropD)
        with assms(2) show ?thesis by (auto simp: world_ok_def log_sendable_def entries_of_def)
      qed
      then have "decode_entries ?pending = Inr (positioned ?pending)" by (intro decode_entries_all) blast
      with assms(1) read1 read2 \<open>r1 = Inr applied\<close> Inr have run:
        "perform g (apply_steps (nat (gs_batch_size c)) (positioned ?pending)) (w2, applied) = (r, (w', t'))"
        by (auto simp: apply_pass_def bind_op_def on_world_def modify_op_def limited_def lift_result_def
            return_op_def Let_def)
      from perform_pending [OF ok2(1) _ run, of before] entries ok2(3,4) assms(3)
      have "applied_more g w2 w'" "world_ok base w'" "r = Inr () \<longrightarrow> marker g w' = marker g w + length ?pending"
        "answered w2 \<longrightarrow> r = Inr ()" "r = Inl RedisRefused \<longrightarrow> t' = marker g w'"
        using applied by auto
      with ok2(2) entries show ?thesis
        using applied_more_trans [OF ok2(2)] applied_moreD(5) [OF ok2(2)] by auto
    qed
  qed
qed


section \<open>What a pass raises\<close>

definition call_failure :: "raised \<Rightarrow> bool" where
  "call_failure e \<longleftrightarrow> e \<in> {RedisTransient, RedisRefused, Gateway GraphLogUnavailableError,
     Gateway GraphLogPersistenceError}"

fun plain_step :: "apply_step \<Rightarrow> bool" where
  "plain_step (Query _) = True"
| "plain_step (RunApplied _) = True"
| "plain_step _ = False"

lemma plain_steps: "snd (do_steps steps st) = None \<Longrightarrow> list_all plain_step steps"
  by (induction steps st rule: do_steps.induct) auto

lemma graph_call_raises: "graph_call g q w = (Inl e, w') \<Longrightarrow> call_failure e"
  by (auto simp: graph_call_def call_failure_def Let_def split: outcome.splits prod.splits)

lemma log_read_raises: "log_read select w = (Inl e, w') \<Longrightarrow> call_failure e"
  by (auto simp: log_read_def call_failure_def split: if_splits prod.splits)

lemma advance_raises: "log_write (advance_applied_position g p) w = (Inl e, w') \<Longrightarrow> call_failure e"
  by (auto simp: log_write_def call_failure_def advance_applied_position_def Let_def
      split: if_splits prod.splits sum.splits)

lemma perform_raises:
  "perform g steps s = (Inl e, s') \<Longrightarrow> list_all plain_step steps \<Longrightarrow> call_failure e"
proof (induction g steps arbitrary: s rule: perform.induct)
  case (2 g q rest)
  from 2(2) consider "on_world (graph_call g (\<lambda>x. ((), exec_statement q x))) s = (Inl e, s')"
    | s1 where "perform g rest s1 = (Inl e, s')"
    by (auto simp: bind_op_Inl)
  then show ?case
    using 2(1,3) by cases (auto simp: on_world_def split: prod.splits dest: graph_call_raises)
next
  case (3 g p rest)
  from 3(2) consider "on_world (log_write (advance_applied_position g p)) s = (Inl e, s')"
    | s1 where "perform g rest s1 = (Inl e, s')"
    by (auto simp: bind_op_Inl modify_op_def)
  then show ?case
    using 3(1,3) by cases (auto simp: on_world_def split: prod.splits dest: advance_raises)
qed auto

lemma limited_rest:
  assumes "numbered_from n ens"
  shows "limited before (drop (length (limited before ens)) ens) = []"
proof -
  obtain j where j: "limited before ens = take j ens" using limited_take [OF assms] by blast
  then have split: "ens = limited before ens @ drop (length (limited before ens)) ens"
    by (cases "j \<le> length ens") simp_all
  show ?thesis
  proof (cases before)
    case None
    then show ?thesis by (simp add: limited_def)
  next
    case (Some b)
    have "filter (\<lambda>en. en_position en < b) ens
        = filter (\<lambda>en. en_position en < b) (filter (\<lambda>en. en_position en < b) ens)
          @ filter (\<lambda>en. en_position en < b) (drop (length (limited before ens)) ens)"
      using split Some by (metis (no_types, lifting) filter_append limited_def option.simps(5))
    with Some show ?thesis by (simp add: limited_def)
  qed
qed

lemma apply_pass_raises:
  assumes "apply_pass c g before (w, t) = (Inl e, s)" "world_ok base w" "1 \<le> gs_batch_size c"
  shows "call_failure e"
proof -
  have log: "log_ok (w_log w)" "log_sendable (w_log w)" using assms(2) by (simp_all add: world_ok_def)
  have keep: "log_read f v = (q, v') \<Longrightarrow> w_log v' = w_log v" for f :: "log_store \<Rightarrow> 'x" and q v v'
    using outcomes_memory [OF log_read_result(1)] by (auto simp: memory_only_def)
  show ?thesis
  proof (rule ccontr)
    assume no: "\<not> call_failure e"
    then obtain applied w1 where 1: "log_read (read_applied_position g) w = (Inr applied, w1)"
      using assms(1) log_read_raises
      by (auto simp: apply_pass_def bind_op_Inl on_world_def split: prod.splits)
    have a1: "applied = marker g w" "w_log w1 = w_log w" using log_read_result(3) [OF 1] keep [OF 1] by auto
    from assms(1) 1 no log_read_raises obtain entries w2 where
      2: "log_read (read_entries g applied None) w1 = (Inr entries, w2)"
      by (auto simp: apply_pass_def bind_op_Inl on_world_def modify_op_def return_op_def bind_op_def
          split: prod.splits sum.splits)
    have a2: "entries = drop (marker g w) (logged g w)" "w_log w2 = w_log w"
      using log_read_result(3) [OF 2] keep [OF 2] a1 log_pending(1) [OF log(1)] by auto
    let ?pending = "limited before entries"
    have member: "en \<in> set ?pending \<Longrightarrow> en \<in> set (ls_entries (w_log w))" for en
      using a2 by (auto simp: limited_def entries_of_def split: option.splits dest: in_set_dropD)
    have dec: "decode_entries ?pending = Inr (positioned ?pending)"
      using member log(2) by (intro decode_entries_all) (auto simp: log_sendable_def)
    have run: "perform g (apply_steps (nat (gs_batch_size c)) (positioned ?pending)) (w2, applied) = (Inl e, s)"
      using assms(1) 1 2 dec by (auto simp: apply_pass_def bind_op_def on_world_def modify_op_def limited_def
          lift_result_def return_op_def Let_def)
    obtain rs where rs: "runs (positioned ?pending) = Some rs" "concat rs = positioned ?pending"
      "\<forall>r \<in> set rs. good_run r" using runs_correct by blast
    have "Applier.sendable (entry_prim en)" if "en \<in> set ?pending" for en
      using member [OF that] log(2) by (fastforce simp: log_sendable_def entry_prim_def)
    then have "\<forall>x \<in> set (concat rs). Applier.sendable (snd x)" unfolding rs(2) by (auto simp: positioned_def)
    from apply_runs_all [OF rs(3) this, of "nat (gs_batch_size c)"] assms(3)
    have "snd (do_steps (apply_steps (nat (gs_batch_size c)) (positioned ?pending)) st) = None" for st
      by (simp add: apply_steps_def rs(1))
    from perform_raises [OF run plain_steps [OF this]] no show False by blast
  qed
qed

lemma apply_pending_keeps:
  assumes "apply_pending c g before w = (r, w')" "world_ok base w" "settings_ok c"
  shows "world_ok base w'" "applied_more g w (w'\<lparr>w_blocked := w_blocked w\<rparr>)"
    and "w_blocked w' = (case r of Inr _ \<Rightarrow> w_blocked w - {g}
           | Inl e \<Rightarrow> if is_apply_error e then insert g (w_blocked w) else w_blocked w)"
    and "r = Inr () \<Longrightarrow> limited before (drop (marker g w') (logged g w')) = []"
    and "answered w \<Longrightarrow> r = Inr ()"
    and "r = Inr () \<or> r = Inl (Gateway GraphUnavailableError) \<or> r = Inl (Gateway GraphLogUnavailableError)
      \<or> r = Inl (Gateway GraphLogPersistenceError) \<or> r = Inl (Gateway (GraphApplyError g (Some (marker g w' + 1))))"
proof -
  let ?I = "\<lambda>(v, t :: nat). world_ok base v \<and> applied_more g w v"
  have batch: "1 \<le> gs_batch_size c" using settings_validated [OF assms(3)] by (simp add: validated_settings_def)
  have keep: "?I s \<Longrightarrow> ?I (snd (apply_pass c g before s))" for s
  proof -
    assume I: "?I s"
    obtain v t where s: "s = (v, t)" by (cases s)
    obtain q v' t' where run: "apply_pass c g before (v, t) = (q, (v', t'))" by (metis prod.exhaust)
    with I s apply_pass_keeps [OF run _ batch] show "?I (snd (apply_pass c g before s))"
      by (auto intro: applied_more_trans)
  qed
  let ?guard = "guard_call c g (\<lambda>(w, through). Some (through + 1)) (apply_pass c g before) (w, 0)"
  obtain r0 v' t' where guard: "?guard = (r0, (v', t'))" by (metis prod.exhaust)
  from guard_call_returned [of c ?I "apply_pass c g before" "(w, 0)", OF assms(3) keep _ guard]
  obtain v t q where last: "world_ok base v" "applied_more g w v" "apply_pass c g before (v, t) = (q, (v', t'))"
    "r0 = (case q of Inr x \<Rightarrow> Inr x | Inl e \<Rightarrow> Inl (sanitized g (Some (t' + 1)) e))"
    using assms(2) applied_more_refl by fastforce
  note end_pass = apply_pass_keeps [OF last(3) last(1) batch]
  have w': "r = r0" "w' = v'\<lparr>w_blocked := (case r of Inr _ \<Rightarrow> w_blocked v' - {g}
      | Inl e \<Rightarrow> if is_apply_error e then insert g (w_blocked v') else w_blocked v')\<rparr>"
  proof -
    have "(r, w') = (case r0 of
        Inl e \<Rightarrow> (Inl e, if is_apply_error e then v'\<lparr>w_blocked := insert g (w_blocked v')\<rparr> else v')
      | Inr _ \<Rightarrow> (Inr (), v'\<lparr>w_blocked := w_blocked v' - {g}\<rparr>))"
      using assms(1) unfolding apply_pending_def guard by (cases r0) auto
    then show "r = r0" "w' = v'\<lparr>w_blocked := (case r of Inr _ \<Rightarrow> w_blocked v' - {g}
      | Inl e \<Rightarrow> if is_apply_error e then insert g (w_blocked v') else w_blocked v')\<rparr>"
      by (cases r0; simp)+
  qed
  have blocked: "w_blocked v' = w_blocked w"
    using end_pass last(2) applied_moreD(8) applied_more_trans by blast
  have same: "w_log w' = w_log v'" "w_graphs w' = w_graphs v'" by (simp_all add: w'(2))
  then show "world_ok base w'" using end_pass world_ok_memory [of v' w' base] by (auto simp: memory_only_def)
  show "applied_more g w (w'\<lparr>w_blocked := w_blocked w\<rparr>)"
  proof -
    have "w'\<lparr>w_blocked := w_blocked w\<rparr> = v'" using blocked by (simp add: w'(2))
    with end_pass last(2) applied_more_trans show ?thesis by metis
  qed
  show "w_blocked w' = (case r of Inr _ \<Rightarrow> w_blocked w - {g}
      | Inl e \<Rightarrow> if is_apply_error e then insert g (w_blocked w) else w_blocked w)"
    by (simp add: w'(2) blocked split: sum.split)
  show "limited before (drop (marker g w') (logged g w')) = []" if "r = Inr ()"
  proof -
    from that w'(1) last(4) have "q = Inr ()" by (cases q) auto
    with end_pass have m: "marker g v' = marker g v + length (limited before (drop (marker g v) (logged g v)))"
      and more: "applied_more g v v'" by simp_all
    note log = applied_moreD(1) [OF more, of g]
    have "log_ok (w_log v)" using last(1) by (simp add: world_ok_def)
    from limited_rest [OF log_pending(2) [OF this, of g], of before]
    show ?thesis by (simp add: same m log add.commute)
  qed
  show "r = Inr ()" if "answered w"
  proof -
    from that last(2) applied_moreD(5) have "answered v" by blast
    with end_pass w'(1) last(4) show ?thesis by auto
  qed
  show "r = Inr () \<or> r = Inl (Gateway GraphUnavailableError) \<or> r = Inl (Gateway GraphLogUnavailableError)
      \<or> r = Inl (Gateway GraphLogPersistenceError) \<or> r = Inl (Gateway (GraphApplyError g (Some (marker g w' + 1))))"
  proof (cases q)
    case (Inr x)
    with last(4) w'(1) show ?thesis by simp
  next
    case (Inl e)
    with apply_pass_raises [OF _ last(1) batch, of g before t e] last(3) have "call_failure e" by simp
    with Inl end_pass last(4) w'(1) same show ?thesis by (auto simp: call_failure_def)
  qed
qed

end
