(* ===== verification/Scan.thy ===== *)
theory Scan
  imports Graph_Reader
begin

text \<open>
  The chunked scans along FalkorDB's internal ids (\<^verbatim>\<open>_scan\<close> of \<^verbatim>\<open>graph_gateway/graph_reader.py\<close>,
  \<^verbatim>\<open>_scan_hashes\<close> of \<^verbatim>\<open>graph_gateway/digest.py\<close>, the loop of \<^verbatim>\<open>scan_unidentified_edges\<close>): one loop
  shape, \<open>scan\<close>, with the reads of a whole graph built on it. A loop that never returns is \<open>None\<close>;
  \<open>scan_complete\<close> shows that a positive chunk size always returns every row exactly once.

  Internal ids are FalkorDB's: a \<open>layout\<close> gives each node and edge of a graph its internal id, in
  ascending order.
\<close>

type_synonym 'a table = "(int \<times> 'a) list"

section \<open>The loop\<close>

text \<open>\<open>WHERE id(n) > $after ... ORDER BY id(n) LIMIT $limit\<close> over the rows in ascending id order.\<close>

definition page :: "'a table \<Rightarrow> int \<Rightarrow> nat \<Rightarrow> 'a table" where
  "page rows after limit = take limit (filter (\<lambda>(cursor, _). after < cursor) rows)"

definition next_after :: "int \<Rightarrow> 'a table \<Rightarrow> int" where
  "next_after after rows = run_ops (\<lambda>(cursor, _) a. max a cursor) rows after"

partial_function (option) scan_from :: "'a table \<Rightarrow> nat \<Rightarrow> int \<Rightarrow> 'a list option" where
  "scan_from rows chunk_rows after =
     (let read = page rows after chunk_rows
      in if length read < chunk_rows then Some (map snd read)
         else Option.bind (scan_from rows chunk_rows (next_after after read))
                (\<lambda>rest. Some (map snd read @ rest)))"

declare scan_from.simps [code]

definition scan :: "'a table \<Rightarrow> nat \<Rightarrow> 'a list option" where
  "scan rows chunk_rows = scan_from rows chunk_rows (- 1)"

definition table_ok :: "'a table \<Rightarrow> bool" where
  "table_ok rows \<longleftrightarrow> sorted_wrt (<) (map fst rows) \<and> (\<forall>(cursor, _) \<in> set rows. 0 \<le> cursor)"

lemma next_after_sorted:
  "sorted_wrt (<) (map fst read) \<Longrightarrow> \<forall>(c, _) \<in> set read. a < c \<Longrightarrow>
     next_after a read = (if read = [] then a else fst (last read))"
proof (induction read rule: rev_induct)
  case (snoc r read)
  then show ?case
    by (cases read rule: rev_cases)
      (auto simp: next_after_def sorted_wrt_append case_prod_unfold max_def)
qed (simp add: next_after_def)

lemma scan_from_complete:
  assumes "sorted_wrt (<) (map fst rows)" "0 < n"
  shows "scan_from rows n a = Some (map snd (filter (\<lambda>(c, _). a < c) rows))"
proof (induction "length (filter (\<lambda>(c, _). a < c) rows)" arbitrary: a rule: less_induct)
  case less
  let ?left = "filter (\<lambda>(c, _). a < c) rows"
  have sorted: "sorted_wrt (<) (map fst ?left)"
    using assms(1) by (auto simp: sorted_wrt_map intro: sorted_wrt_filter)
  show ?case
  proof (cases "length (page rows a n) < n")
    case True
    then have "page rows a n = ?left" by (simp add: page_def)
    with True show ?thesis by (subst scan_from.simps) (simp add: Let_def)
  next
    case False
    let ?read = "page rows a n"
    let ?b = "next_after a ?read"
    have full: "?read = take n ?left" "?read \<noteq> []" "n \<le> length ?left"
      using False assms(2) by (auto simp: page_def)
    have split: "?left = ?read @ drop n ?left" by (simp add: full(1))
    have after: "\<forall>(c, _) \<in> set ?read. a < c" unfolding full(1) by (auto dest: in_set_takeD)
    have in_order: "sorted_wrt (<) (map fst ?read)"
      using sorted unfolding full(1) by (metis sorted_wrt_take take_map)
    have b: "?b = fst (last ?read)" using next_after_sorted [OF in_order after] full(2) by simp
    have past: "fst x \<le> ?b" if "x \<in> set ?read" for x
      using that in_order full(2) unfolding b
      by (cases ?read rule: rev_cases) (auto simp: sorted_wrt_append less_imp_le)
    have todo: "?b < fst x" if "x \<in> set (drop n ?left)" for x
    proof -
      have "sorted_wrt (<) (map fst (?read @ drop n ?left))" using sorted split by simp
      with that full(2) show ?thesis unfolding b by (simp add: sorted_wrt_append)
    qed
    have "a < ?b" using after full(2) b by (auto simp: case_prod_unfold)
    then have "filter (\<lambda>(c, _). ?b < c) rows = filter (\<lambda>(c, _). ?b < c) ?left"
      unfolding filter_filter by (intro filter_cong) auto
    also have "\<dots> = filter (\<lambda>(c, _). ?b < c) ?read @ filter (\<lambda>(c, _). ?b < c) (drop n ?left)"
      by (metis split filter_append)
    also have "filter (\<lambda>(c, _). ?b < c) ?read = []"
      using past by (fastforce simp: filter_empty_conv)
    also have "filter (\<lambda>(c, _). ?b < c) (drop n ?left) = drop n ?left"
      using todo by (fastforce simp: filter_id_conv)
    finally have rest: "filter (\<lambda>(c, _). ?b < c) rows = drop n ?left" by simp
    then have "length (filter (\<lambda>(c, _). ?b < c) rows) < length ?left" using full(3) assms(2) by simp
    from less.hyps [OF this] have "scan_from rows n ?b = Some (map snd (drop n ?left))" by (simp add: rest)
    moreover have "map snd ?read @ map snd (drop n ?left) = map snd ?left" by (metis split map_append)
    ultimately show ?thesis using False by (subst scan_from.simps) (simp add: Let_def)
  qed
qed

lemma scan_complete: "table_ok rows \<Longrightarrow> 0 < n \<Longrightarrow> scan rows n = Some (map snd rows)"
proof -
  assume ok: "table_ok rows" "0 < n"
  then have "filter (\<lambda>(c, _). - 1 < c) rows = rows"
    by (fastforce simp: table_ok_def filter_id_conv)
  with scan_from_complete [of rows n "- 1"] ok show ?thesis by (simp add: scan_def table_ok_def)
qed

section \<open>Layouts\<close>

record layout =
  lay_nodes :: "nodekey table"
  lay_edges :: "edge table"

definition layout_of :: "graph \<Rightarrow> layout \<Rightarrow> bool" where
  "layout_of g lay \<longleftrightarrow>
     table_ok (lay_nodes lay) \<and> table_ok (lay_edges lay)
     \<and> distinct (map snd (lay_nodes lay)) \<and> set (map snd (lay_nodes lay)) = dom (g_nodes g)
     \<and> mset (map snd (lay_edges lay)) = g_edges g"

definition node_chunk_rows :: nat where
  "node_chunk_rows = 50"

definition edge_chunk_rows :: nat where
  "edge_chunk_rows = 5000"

section \<open>Shapes and keys\<close>

definition dict_of :: "('k \<times> 'v) list \<Rightarrow> ('k, 'v) dict" where
  "dict_of pairs = run_ops (\<lambda>(k, v). AList.update k v) pairs []"

definition node_shape :: "graph \<Rightarrow> nodekey \<Rightarrow> nodekey \<times> string set" where
  "node_shape g k = (k, case g_nodes g k of None \<Rightarrow> {} | Some ps \<Rightarrow> dom ps)"

definition reader_key_of :: "edge \<Rightarrow> reader_key" where
  "reader_key_of e =
     (e_type e, e_source e, e_target e, case e_identity e of None \<Rightarrow> unidentified | Some i \<Rightarrow> i)"

definition scan_edge_shape :: "edge \<Rightarrow> reader_key \<times> string set" where
  "scan_edge_shape e = (reader_key_of e, dom (e_props e))"

declare node_shape_def [code del] scan_edge_shape_def [code del]

record graph_shape =
  sh_nodes :: "(nodekey, string set) dict"
  sh_edges :: "(reader_key, string set) dict"

definition read_graph_shape :: "graph \<Rightarrow> layout \<Rightarrow> graph_shape option" where
  "read_graph_shape g lay =
     (case (scan (lay_nodes lay) node_chunk_rows, scan (lay_edges lay) edge_chunk_rows) of
        (Some ns, Some es) \<Rightarrow>
          Some \<lparr>sh_nodes = dict_of (map (node_shape g) ns), sh_edges = dict_of (map scan_edge_shape es)\<rparr>
      | _ \<Rightarrow> None)"

record persisted_elements =
  pe_nodes :: "nodekey set"
  pe_edges :: "reader_key set"
  pe_legacy_edges :: "(string \<times> nodekey \<times> nodekey) set"
  pe_log_position :: nat

definition read_persisted_elements :: "layout \<Rightarrow> nat \<Rightarrow> persisted_elements option" where
  "read_persisted_elements lay log_position =
     (case (scan (lay_nodes lay) node_chunk_rows, scan (lay_edges lay) edge_chunk_rows) of
        (Some ns, Some es) \<Rightarrow>
          let keys = map reader_key_of es
          in Some \<lparr>pe_nodes = set ns,
                   pe_edges = set (filter (\<lambda>(t, s, d, i). i \<noteq> unidentified) keys),
                   pe_legacy_edges = (\<lambda>(t, s, d, i). (t, s, d)) `
                     set (filter (\<lambda>(t, s, d, i). i = unidentified) keys),
                   pe_log_position = log_position\<rparr>
      | _ \<Rightarrow> None)"

lemma fst_update_set: "fst ` set (AList.update k v d) = insert k (fst ` set d)"
  by (induction d) auto

lemma map_of_dict_of: "map_of (dict_of (rev pairs)) = map_of pairs"
proof (induction pairs)
  case (Cons p pairs)
  then show ?case by (cases p) (simp add: dict_of_def update_conv')
qed (simp add: dict_of_def)

lemma dict_of_ok: "dict_ok (dict_of pairs)"
proof -
  have "dict_ok d \<Longrightarrow> dict_ok (run_ops (\<lambda>(k, v). AList.update k v) pairs d)" for d :: "('a, 'b) dict"
    by (induction pairs arbitrary: d) (auto simp: dict_ok_def distinct_update)
  then show ?thesis by (simp add: dict_of_def dict_ok_def)
qed

lemma dict_of_member:
  assumes "(k, v) \<in> set pairs"
  shows "\<exists>w. (k, w) \<in> set (dict_of pairs) \<and> (k, w) \<in> set pairs"
proof -
  from assms obtain w where w: "map_of (rev pairs) k = Some w"
    by (cases "map_of (rev pairs) k") (auto simp: map_of_eq_None_iff image_iff)
  with map_of_dict_of [of "rev pairs"] have "map_of (dict_of pairs) k = Some w" by simp
  with w show ?thesis by (auto dest!: map_of_SomeD)
qed

lemma dict_of_sub: "set (dict_of pairs) \<subseteq> set pairs"
proof
  fix x assume x: "x \<in> set (dict_of pairs)"
  obtain k v where kv: "x = (k, v)" by (cases x)
  from x kv dict_of_ok [of pairs] have "map_of (dict_of pairs) k = Some v" by (simp add: dict_ok_def)
  with map_of_dict_of [of "rev pairs"] have "map_of (rev pairs) k = Some v" by simp
  then have "(k, v) \<in> set (rev pairs)" by (rule map_of_SomeD)
  with kv show "x \<in> set pairs" by simp
qed

end
