(* ===== verification/Replace.thy ===== *)
theory Replace
  imports Noop_Filter Scan
begin

text \<open>
  Expanding a leg of a multi-graph group (\<^verbatim>\<open>graph_gateway/replace.py\<close>) and the identity stamps of
  identity-less edges (\<^verbatim>\<open>graph_gateway/edge_identity_backfill.py\<close>). The lemmas show that what is put
  ahead of a replacing leg's own upserts brings any live graph to the point where the upserts leave
  exactly the graph they would load into an empty one.
\<close>

section \<open>Stamps\<close>

definition legacy_identity :: "string \<Rightarrow> string \<Rightarrow> string \<Rightarrow> string" where
  "legacy_identity t si di = t @ '':'' @ si @ ''->'' @ di"

definition legacy_edge_stamp :: "string \<Rightarrow> node_ref \<Rightarrow> node_ref \<Rightarrow> primitive" where
  "legacy_edge_stamp t s d = StampEdgeIdentity t (legacy_identity t (ref_id s) (ref_id d)) s d"

definition ref_of :: "nodekey \<Rightarrow> node_ref" where
  "ref_of k = \<lparr>ref_label = fst k, ref_id = snd k\<rparr>"

definition stamp_of :: "edge \<Rightarrow> (string \<times> node_ref \<times> node_ref) option" where
  "stamp_of e =
     (if e_type e \<in> allowed_relationship_types \<and> fst (e_source e) \<in> allowed_node_labels
         \<and> fst (e_target e) \<in> allowed_node_labels
      then Some (e_type e, ref_of (e_source e), ref_of (e_target e)) else None)"

definition scan_chunk_rows :: nat where
  "scan_chunk_rows = 5000"

text \<open>The distinct nameable identity-less edges in scan order, and how many could not be named.\<close>

definition scan_unidentified_edges ::
    "layout \<Rightarrow> nat \<Rightarrow> ((string \<times> node_ref \<times> node_ref) list \<times> nat) option" where
  "scan_unidentified_edges lay chunk_rows =
     map_option (\<lambda>es.
         (map fst (dict_of (map (\<lambda>x. (x, ())) (List.map_filter stamp_of es))),
          length (filter (\<lambda>e. stamp_of e = None) es)))
       (scan (filter (\<lambda>(_, e). e_identity e = None) (lay_edges lay)) chunk_rows)"

section \<open>What a leg upserts\<close>

definition want_node ::
    "primitive \<Rightarrow> (nodekey \<rightharpoonup> string set) \<Rightarrow> nodekey \<rightharpoonup> string set" where
  "want_node p wanted =
     (case p of
        UpsertNode l i ps emb \<Rightarrow>
          wanted((l, i) \<mapsto> (case wanted (l, i) of None \<Rightarrow> {} | Some names \<Rightarrow> names) \<union> fst ` set ps
                             \<union> (if emb = None then {} else {embedding_key}))
      | _ \<Rightarrow> wanted)"

definition wanted_node_names :: "primitive list \<Rightarrow> nodekey \<rightharpoonup> string set" where
  "wanted_node_names ps = run_ops want_node ps Map.empty"

definition want_edge ::
    "primitive \<Rightarrow> (reader_key \<rightharpoonup> string set) \<Rightarrow> reader_key \<rightharpoonup> string set" where
  "want_edge p wanted =
     (case p of
        UpsertEdge t i s d ps \<Rightarrow>
          let key = (t, ref_key s, ref_key d, i)
          in wanted(key \<mapsto> (case wanted key of None \<Rightarrow> {} | Some names \<Rightarrow> names) \<union> fst ` set ps)
      | _ \<Rightarrow> wanted)"

definition wanted_edge_names :: "primitive list \<Rightarrow> reader_key \<rightharpoonup> string set" where
  "wanted_edge_names ps = run_ops want_edge ps Map.empty"

definition keeps :: "('k \<rightharpoonup> string set) \<Rightarrow> 'k \<Rightarrow> string set \<Rightarrow> bool" where
  "keeps wanted k names = (case wanted k of None \<Rightarrow> False | Some w \<Rightarrow> names \<subseteq> w)"

section \<open>The replacement\<close>

fun edge_plan ::
    "nodekey set \<Rightarrow> (reader_key \<rightharpoonup> string set) \<Rightarrow> reader_key \<times> string set
     \<Rightarrow> primitive list \<times> primitive list" where
  "edge_plan dropped wanted ((t, s, d, i), names) =
     (if s \<in> dropped \<or> d \<in> dropped then ([], [])
      else let src = ref_of s; tgt = ref_of d;
               legacy = i = unidentified;
               identity = (if legacy then legacy_identity t (snd s) (snd d) else i)
           in (if legacy then [legacy_edge_stamp t src tgt] else [],
               if keeps wanted (t, s, d, identity) names then [] else [DeleteEdge t identity src tgt]))"

definition replacement :: "graph_shape \<Rightarrow> primitive list \<Rightarrow> primitive list" where
  "replacement live ps =
     (let wanted_nodes = wanted_node_names ps;
          wanted_edges = wanted_edge_names ps;
          dropped = map fst (filter (\<lambda>(k, names). \<not> keeps wanted_nodes k names) (sh_nodes live));
          plans = map (edge_plan (set dropped) wanted_edges) (sort_key fst (sh_edges live))
      in concat (map fst plans) @ concat (map snd plans)
         @ map (\<lambda>k. DeleteNode (fst k) (snd k)) (sort dropped))"

text \<open>\<open>None\<close>: a scan that never returns.\<close>

definition expand_leg :: "graph \<Rightarrow> layout \<Rightarrow> mutation_group \<Rightarrow> bool \<Rightarrow> mutation_group option" where
  "expand_leg g lay grp replace =
     (case (if replace
            then map_option (\<lambda>live. replacement live (mg_primitives grp)) (read_graph_shape g lay)
            else map_option (\<lambda>(found, _). map (\<lambda>(t, s, d). legacy_edge_stamp t s d) found)
                   (scan_unidentified_edges lay scan_chunk_rows)) of
        None \<Rightarrow> None
      | Some added \<Rightarrow>
          Some (if added = [] then grp
                else grp\<lparr>mg_primitives := added @ mg_primitives grp\<rparr>))"

definition added_count :: "mutation_group \<Rightarrow> mutation_group \<Rightarrow> nat" where
  "added_count original expanded = length (mg_primitives expanded) - length (mg_primitives original)"

section \<open>Overwriting what is left\<close>

text \<open>
  The writes of an upsert: what a node or an edge is given. \<open>names_at\<close> are the names a list of upserts
  gives one element, and \<open>covers v v0\<close> compares an element that is being overwritten with the same element
  loaded from nothing, while some upserts are still to come.
\<close>

type_synonym 'k written = "primitive \<Rightarrow> ('k \<times> propmap) option"

fun node_write :: "nodekey written" where
  "node_write (UpsertNode l i ps emb) = Some ((l, i), map_of (wanted_node ps emb))"
| "node_write _ = None"

fun edge_write :: "reader_key written" where
  "edge_write (UpsertEdge t i s d ps) = Some ((t, ref_key s, ref_key d, i), map_of ps)"
| "edge_write _ = None"

definition names_at :: "'k written \<Rightarrow> primitive list \<Rightarrow> 'k \<Rightarrow> string set" where
  "names_at write ps k = {n. \<exists>p \<in> set ps. \<exists>m. write p = Some (k, m) \<and> n \<in> dom m}"

definition mentioned :: "'k written \<Rightarrow> primitive list \<Rightarrow> 'k \<Rightarrow> bool" where
  "mentioned write ps k \<longleftrightarrow> (\<exists>p \<in> set ps. \<exists>m. write p = Some (k, m))"

lemma names_at_Cons:
  "names_at write (p # ps) k = (case write p of
      Some (k', m) \<Rightarrow> (if k' = k then dom m else {}) | None \<Rightarrow> {}) \<union> names_at write ps k"
  by (auto simp: names_at_def split: option.splits)

lemma mentioned_Cons:
  "mentioned write (p # ps) k \<longleftrightarrow> (\<exists>m. write p = Some (k, m)) \<or> mentioned write ps k"
  by (auto simp: mentioned_def)

lemma nothing_left [simp]: "names_at write [] k = {}" "\<not> mentioned write [] k"
  by (auto simp: names_at_def mentioned_def)

lemma dom_wanted_node:
  "dom (map_of (wanted_node ps emb)) = fst ` set ps \<union> (if emb = None then {} else {embedding_key})"
  by (cases emb) (auto simp: wanted_node_def dom_map_of_conv_image_fst fst_update_set)

definition record_write ::
    "'k written \<Rightarrow> primitive \<Rightarrow> ('k \<rightharpoonup> string set) \<Rightarrow> 'k \<rightharpoonup> string set" where
  "record_write write p w =
     (case write p of
        None \<Rightarrow> w
      | Some (k, m) \<Rightarrow> w(k \<mapsto> (case w k of None \<Rightarrow> {} | Some names \<Rightarrow> names) \<union> dom m))"

lemma record_write_None: "write p = None \<Longrightarrow> record_write write p w = w"
  by (simp add: record_write_def)

lemma record_write_Some: "write p = Some (k, m) \<Longrightarrow> record_write write p w =
    w(k \<mapsto> (case w k of None \<Rightarrow> {} | Some names \<Rightarrow> names) \<union> dom m)"
  by (simp add: record_write_def)

lemma want_record: "want_node = record_write node_write" "want_edge = record_write edge_write"
proof -
  show "want_node = record_write node_write"
    by (intro ext; rename_tac p w k; case_tac p)
      (simp_all add: want_node_def record_write_def dom_wanted_node Un_assoc)
  show "want_edge = record_write edge_write"
    by (intro ext; rename_tac p w k; case_tac p)
      (simp_all add: want_edge_def record_write_def Let_def dom_map_of_conv_image_fst)
qed

lemma recorded_names:
  "run_ops (record_write write) ps w k = (if mentioned write ps k
     then Some ((case w k of None \<Rightarrow> {} | Some names \<Rightarrow> names) \<union> names_at write ps k) else w k)"
proof (induction ps arbitrary: w)
  case (Cons p ps)
  show ?case
  proof (cases "write p")
    case None
    then show ?thesis by (simp add: Cons record_write_None names_at_Cons mentioned_Cons)
  next
    case (Some km)
    obtain k' m where km: "km = (k', m)" by (cases km)
    have "names_at write ps k = {}" if "\<not> mentioned write ps k"
      using that by (auto simp: names_at_def mentioned_def)
    with Some km show ?thesis
      by (auto simp: Cons record_write_Some names_at_Cons mentioned_Cons)
  qed
qed simp

lemma keeps_names:
  "keeps (wanted_node_names ps) k names \<longleftrightarrow> mentioned node_write ps k \<and> names \<subseteq> names_at node_write ps k"
  "keeps (wanted_edge_names ps) e names \<longleftrightarrow> mentioned edge_write ps e \<and> names \<subseteq> names_at edge_write ps e"
  by (auto simp: keeps_def wanted_node_names_def wanted_edge_names_def want_record recorded_names)

definition held_props :: "propmap option \<Rightarrow> propmap" where
  "held_props v = (case v of None \<Rightarrow> Map.empty | Some m \<Rightarrow> m)"

definition covers :: "propmap option \<Rightarrow> propmap option \<Rightarrow> bool \<Rightarrow> string set \<Rightarrow> bool" where
  "covers v v0 coming names \<longleftrightarrow>
     (case (v, v0) of
        (None, None) \<Rightarrow> True
      | (None, Some _) \<Rightarrow> False
      | (Some a, None) \<Rightarrow> coming \<and> dom a \<subseteq> names
      | (Some a, Some b) \<Rightarrow> (\<forall>n \<in> dom b. a n = b n) \<and> dom a \<subseteq> dom b \<union> names)"

lemma covers_write:
  assumes "covers v v0 coming (dom n \<union> names)"
  shows "covers (Some (held_props v ++ n)) (Some (held_props v0 ++ n)) coming' names"
proof (cases v; cases v0)
  fix a b assume v: "v = Some a" "v0 = Some b"
  with assms have c: "\<forall>x \<in> dom b. a x = b x" "dom a \<subseteq> dom b \<union> (dom n \<union> names)"
    by (simp_all add: covers_def)
  then have "(a ++ n) x = (b ++ n) x" if "x \<in> dom (b ++ n)" for x
    using that by (auto simp: map_add_def split: option.splits)
  with v c(2) show ?thesis by (auto simp: covers_def held_props_def)
next
  fix a assume v: "v = Some a" "v0 = None"
  with assms have "dom a \<subseteq> dom n \<union> names" by (simp add: covers_def)
  with v show ?thesis by (fastforce simp: covers_def held_props_def map_add_def split: option.splits)
qed (use assms in \<open>auto simp: covers_def held_props_def\<close>)

lemma covers_end: "covers v v0 False {} \<Longrightarrow> v = v0"
proof (cases v; cases v0)
  fix a b assume "covers v v0 False {}" and v: "v = Some a" "v0 = Some b"
  then have "\<forall>n \<in> dom b. a n = b n" "dom a \<subseteq> dom b" by (simp_all add: covers_def)
  then have "a = b" by (intro ext) (metis domD domIff in_mono)
  with v show ?thesis by simp
qed (auto simp: covers_def)


lemma edges_eqI:
  assumes "unique_keys es" "unique_keys fs" "\<And>k. \<exists>v. edge_view es k v \<and> edge_view fs k v"
  shows "es = fs"
  using assms
proof (induction es arbitrary: fs)
  case empty
  have "k \<notin># edge_keys fs" for k
  proof -
    from empty.prems(3) [of k] obtain v where "edge_view {#} k v" "edge_view fs k v" by blast
    then show ?thesis by (cases v) (auto simp: edge_view_def)
  qed
  then have "x \<notin># fs" for x by fastforce
  then show ?case using multiset_nonemptyE by metis
next
  case (add e es)
  let ?k = "edge_key e"
  from add.prems(1) have e: "?k \<notin># edge_keys es" "unique_keys es" by (auto simp: unique_keys_add)
  from add.prems(3) [of ?k] have "edge_view fs ?k (Some (e_props e))"
    using view_add_same [OF refl e(1)] by auto
  from view_split [OF add.prems(2) this] obtain f fs' where
    f: "fs = add_mset f fs'" "edge_key f = ?k" "e_props f = e_props e" "?k \<notin># edge_keys fs'" by auto
  then have "f = e" by (cases e; cases f) (simp add: edge_key_def)
  moreover have "es = fs'"
  proof (rule add.IH)
    show "unique_keys es" "unique_keys fs'" using e add.prems(2) f by (auto simp: unique_keys_add)
    fix k
    show "\<exists>v. edge_view es k v \<and> edge_view fs' k v"
    proof (cases "k = ?k")
      case True
      with e(1) f(4) show ?thesis by (intro exI [of _ None]) (simp add: view_absent)
    next
      case False
      with add.prems(3) [of k] f show ?thesis by (simp add: view_add_other)
    qed
  qed
  ultimately show ?case using f by simp
qed

text \<open>
  \<open>loading ps h h0\<close>: with the upserts \<open>ps\<close> still to come, \<open>h\<close> holds what \<open>h0\<close> holds, and beyond that only
  what they will overwrite.
\<close>

definition loading :: "primitive list \<Rightarrow> graph \<Rightarrow> graph \<Rightarrow> bool" where
  "loading ps h h0 \<longleftrightarrow>
     (\<forall>k. covers (g_nodes h k) (g_nodes h0 k) (mentioned node_write ps k) (names_at node_write ps k))
     \<and> unique_keys (g_edges h) \<and> unique_keys (g_edges h0)
     \<and> (\<forall>t s d i. \<exists>v v0. edge_view (g_edges h) (t, s, d, Some i) v
          \<and> edge_view (g_edges h0) (t, s, d, Some i) v0
          \<and> covers v v0 (mentioned edge_write ps (t, s, d, i)) (names_at edge_write ps (t, s, d, i)))
     \<and> (\<forall>t s d. edge_view (g_edges h) (t, s, d, None) None \<and> edge_view (g_edges h0) (t, s, d, None) None)"

lemma loadingD:
  assumes "loading ps h h0"
  shows "covers (g_nodes h k) (g_nodes h0 k) (mentioned node_write ps k) (names_at node_write ps k)"
    and "unique_keys (g_edges h)" "unique_keys (g_edges h0)"
    and "\<exists>v v0. edge_view (g_edges h) (t, s, d, Some i) v \<and> edge_view (g_edges h0) (t, s, d, Some i) v0
      \<and> covers v v0 (mentioned edge_write ps (t, s, d, i)) (names_at edge_write ps (t, s, d, i))"
    and "edge_view (g_edges h) (t, s, d, None) None" "edge_view (g_edges h0) (t, s, d, None) None"
  using assms unfolding loading_def by blast+

lemma loadingI:
  assumes "\<And>k. covers (g_nodes h k) (g_nodes h0 k) (mentioned node_write ps k) (names_at node_write ps k)"
    and "unique_keys (g_edges h)" "unique_keys (g_edges h0)"
    and "\<And>t s d i. \<exists>v v0. edge_view (g_edges h) (t, s, d, Some i) v \<and> edge_view (g_edges h0) (t, s, d, Some i) v0
      \<and> covers v v0 (mentioned edge_write ps (t, s, d, i)) (names_at edge_write ps (t, s, d, i))"
    and "\<And>t s d. edge_view (g_edges h) (t, s, d, None) None \<and> edge_view (g_edges h0) (t, s, d, None) None"
  shows "loading ps h h0"
  using assms unfolding loading_def by blast

lemma loading_end: "loading [] h h0 \<Longrightarrow> h = h0"
proof -
  assume l: "loading [] h h0"
  have "g_nodes h = g_nodes h0"
    using loadingD(1) [OF l] by (intro ext covers_end) simp
  moreover have "g_edges h = g_edges h0"
  proof (rule edges_eqI)
    fix k :: edgekey
    obtain t s d j where k: "k = (t, s, d, j)" by (cases k) auto
    show "\<exists>v. edge_view (g_edges h) k v \<and> edge_view (g_edges h0) k v"
    proof (cases j)
      case None
      with loadingD(5,6) [OF l] k show ?thesis by blast
    next
      case (Some i)
      from loadingD(4) [OF l, of t s d i] obtain v v0 where "edge_view (g_edges h) (t, s, d, Some i) v"
        "edge_view (g_edges h0) (t, s, d, Some i) v0" "covers v v0 False {}" by auto
      with covers_end Some k show ?thesis by blast
    qed
  qed (use loadingD(2,3) [OF l] in simp_all)
  ultimately show ?thesis by simp
qed

lemma loading_node:
  assumes "loading (UpsertNode l i qs emb # ps) h h0"
  shows "loading ps (apply_primitive (UpsertNode l i qs emb) h) (apply_primitive (UpsertNode l i qs emb) h0)"
proof -
  let ?p = "UpsertNode l i qs emb"
  have "covers (g_nodes (apply_primitive ?p h) k) (g_nodes (apply_primitive ?p h0) k)
      (mentioned node_write ps k) (names_at node_write ps k)" for k
  proof -
    note c = loadingD(1) [OF assms, of k]
    show ?thesis
    proof (cases "k = (l, i)")
      case True
      with c have "covers (g_nodes h k) (g_nodes h0 k) (mentioned node_write (?p # ps) k)
          (dom (map_of (wanted_node qs emb)) \<union> names_at node_write ps k)" by (simp add: names_at_Cons)
      from covers_write [OF this] True show ?thesis by (simp add: merged_node_wanted held_props_def)
    next
      case False
      with c show ?thesis by (auto simp: names_at_Cons mentioned_Cons)
    qed
  qed
  then show ?thesis
  proof (rule loadingI)
    fix t s d i
    show "\<exists>v v0. edge_view (g_edges (apply_primitive ?p h)) (t, s, d, Some i) v
        \<and> edge_view (g_edges (apply_primitive ?p h0)) (t, s, d, Some i) v0
        \<and> covers v v0 (mentioned edge_write ps (t, s, d, i)) (names_at edge_write ps (t, s, d, i))"
      using loadingD(4) [OF assms, of t s d i] by (simp add: names_at_Cons mentioned_Cons)
  qed (use loadingD(2,3,5,6) [OF assms] in simp_all)
qed

lemma loading_edge:
  assumes "loading (UpsertEdge t i s d qs # ps) h h0" "\<not> missing_target (UpsertEdge t i s d qs) h0"
  shows "loading ps (apply_primitive (UpsertEdge t i s d qs) h) (apply_primitive (UpsertEdge t i s d qs) h0)"
proof -
  let ?p = "UpsertEdge t i s d qs"
  let ?k = "(t, ref_key s, ref_key d, Some i)"
  have nodes: "covers (g_nodes h k) (g_nodes h0 k) (mentioned node_write ps k) (names_at node_write ps k)" for k
    using loadingD(1) [OF assms(1), of k] by (simp add: names_at_Cons mentioned_Cons)
  have there: "g_nodes h k \<noteq> None" if "g_nodes h0 k \<noteq> None" for k
    using nodes [of k] that by (auto simp: covers_def split: option.splits)
  have put: "g_nodes (apply_primitive ?p x) = g_nodes x"
      "g_edges (apply_primitive ?p x) = put_edge ?k qs (g_edges x)"
    if "x = h \<or> x = h0" for x
    using that assms(2) there [of "ref_key s"] there [of "ref_key d"]
    by (auto simp: cy_upsert_edge_put simp del: cy_upsert_edge.simps)
  note u = loadingD(2,3) [OF assms(1)] and view = loadingD(4) [OF assms(1)]
  obtain v v0 where v: "edge_view (g_edges h) ?k v" "edge_view (g_edges h0) ?k v0"
    "covers v v0 (mentioned edge_write (?p # ps) (t, ref_key s, ref_key d, i))
       (names_at edge_write (?p # ps) (t, ref_key s, ref_key d, i))"
    using view by blast
  note view_h = put_edge_view [OF u(1) v(1), where ps = qs] and view_h0 = put_edge_view [OF u(2) v(2), where ps = qs]
  have "\<exists>w w0. edge_view (put_edge ?k qs (g_edges h)) (t', s', d', Some i') w
      \<and> edge_view (put_edge ?k qs (g_edges h0)) (t', s', d', Some i') w0
      \<and> covers w w0 (mentioned edge_write ps (t', s', d', i')) (names_at edge_write ps (t', s', d', i'))"
    for t' s' d' i'
  proof (cases "(t', s', d', i') = (t, ref_key s, ref_key d, i)")
    case True
    from v(3) have "covers v v0 (mentioned edge_write (?p # ps) (t, ref_key s, ref_key d, i))
        (dom (map_of qs) \<union> names_at edge_write ps (t, ref_key s, ref_key d, i))" by (simp add: names_at_Cons)
    from covers_write [OF this] True view_h(1) view_h0(1) show ?thesis
      unfolding held_props_def by blast
  next
    case False
    then have other: "(t', s', d', Some i') \<noteq> ?k" by auto
    have "mentioned edge_write (?p # ps) (t', s', d', i') = mentioned edge_write ps (t', s', d', i')"
      "names_at edge_write (?p # ps) (t', s', d', i') = names_at edge_write ps (t', s', d', i')"
      using False by (auto simp: names_at_Cons mentioned_Cons)
    then show ?thesis
      using view [of t' s' d' i'] by (simp only: view_h(2) [OF other] view_h0(2) [OF other])
  qed
  moreover have "edge_view (put_edge ?k qs (g_edges h)) (t', s', d', None) None
      \<and> edge_view (put_edge ?k qs (g_edges h0)) (t', s', d', None) None" for t' s' d'
  proof -
    have other: "(t', s', d', None) \<noteq> ?k" by simp
    show ?thesis unfolding view_h(2) [OF other] view_h0(2) [OF other]
      using loadingD(5,6) [OF assms(1)] by blast
  qed
  ultimately show ?thesis
    using nodes view_h(3) view_h0(3) put by (intro loadingI) (simp_all only: simp_thms)
qed

fun targets_exist :: "primitive list \<Rightarrow> graph \<Rightarrow> bool" where
  "targets_exist [] g = True"
| "targets_exist (p # ps) g = (\<not> missing_target p g \<and> targets_exist ps (apply_primitive p g))"

lemma loading_all:
  "loading ps h h0 \<Longrightarrow> list_all is_upsert ps \<Longrightarrow> targets_exist ps h0 \<Longrightarrow> apply_all ps h = apply_all ps h0"
proof (induction ps arbitrary: h h0)
  case Nil
  then show ?case by (simp add: loading_end)
next
  case (Cons p ps)
  have "loading ps (apply_primitive p h) (apply_primitive p h0)"
  proof (cases p)
    case UpsertNode
    with Cons.prems(1) show ?thesis using loading_node by blast
  next
    case UpsertEdge
    with Cons.prems(1,3) show ?thesis using loading_edge by auto
  qed (use Cons.prems(2) in simp_all)
  with Cons show ?case by simp
qed


section \<open>What the replacement leaves\<close>

text \<open>An identity-less edge whose legacy identity is not taken by another edge between the same nodes.\<close>

definition stampable :: "graph \<Rightarrow> bool" where
  "stampable g \<longleftrightarrow>
     (\<forall>t s d. (t, s, d, None) \<in># edge_keys (g_edges g)
        \<longrightarrow> (t, s, d, Some (legacy_identity t (snd s) (snd d))) \<notin># edge_keys (g_edges g))"

definition stamped_edge :: "string \<Rightarrow> nodekey \<Rightarrow> nodekey \<Rightarrow> edge \<Rightarrow> edge" where
  "stamped_edge t s d e =
     (if edge_key e = (t, s, d, None) then e\<lparr>e_identity := Some (legacy_identity t (snd s) (snd d))\<rparr> else e)"

lemma ref_key_of [simp]: "ref_key (ref_of k) = k" "ref_id (ref_of k) = snd k" "ref_label (ref_of k) = fst k"
  by (simp_all add: ref_key_def ref_of_def)

lemma legacy_stamp_inj [simp]:
  "legacy_edge_stamp t (ref_of s) (ref_of d) = legacy_edge_stamp t' (ref_of s') (ref_of d')
     \<longleftrightarrow> t = t' \<and> s = s' \<and> d = d'"
  by (auto simp: legacy_edge_stamp_def ref_of_def prod_eq_iff)

lemma apply_legacy_stamp:
  "apply_primitive (legacy_edge_stamp t (ref_of s) (ref_of d)) g
   = g\<lparr>g_edges := image_mset (stamped_edge t s d) (g_edges g)\<rparr>"
proof -
  have "(\<lambda>e. if edge_between t (fst s, snd s) (fst d, snd d) e \<and> e_identity e = None
      then e\<lparr>e_identity := Some (legacy_identity t (snd s) (snd d))\<rparr> else e) = stamped_edge t s d"
    by (intro ext) (auto simp: stamped_edge_def edge_between_def edge_key_def)
  then show ?thesis by (simp add: legacy_edge_stamp_def)
qed

lemma stamped_key:
  "edge_key (stamped_edge t s d e) = (if edge_key e = (t, s, d, None)
     then (t, s, d, Some (legacy_identity t (snd s) (snd d))) else edge_key e)"
  by (auto simp: stamped_edge_def edge_key_def)

lemma stamp_keeps:
  assumes "unique_keys (g_edges g)" "stampable g"
  shows "unique_keys (image_mset (stamped_edge t s d) (g_edges g))"
    and "stampable (g\<lparr>g_edges := image_mset (stamped_edge t s d) (g_edges g)\<rparr>)"
proof -
  from assms(2) have free: "(t', s', d', None) \<in># edge_keys (g_edges g) \<Longrightarrow>
      (t', s', d', Some (legacy_identity t' (snd s') (snd d'))) \<notin># edge_keys (g_edges g)" for t' s' d'
    by (simp only: stampable_def simp_thms)
  have "stamped_edge t s d = (\<lambda>e. if edge_key e = (t, s, d, None)
      then e\<lparr>e_identity := Some (legacy_identity t (snd s) (snd d))\<rparr> else e)"
    by (intro ext) (simp add: stamped_edge_def)
  with unique_stamp [OF assms(1), of t s d] free [of t s d]
  show "unique_keys (image_mset (stamped_edge t s d) (g_edges g))" by (simp only:) blast
  have old: "k \<in># edge_keys (image_mset (stamped_edge t s d) (g_edges g)) \<Longrightarrow>
      (k \<in># edge_keys (g_edges g) \<and> k \<noteq> (t, s, d, None))
      \<or> (k = (t, s, d, Some (legacy_identity t (snd s) (snd d))) \<and> (t, s, d, None) \<in># edge_keys (g_edges g))" for k
    by (auto simp: stamped_key split: if_splits) (metis imageI)
  show "stampable (g\<lparr>g_edges := image_mset (stamped_edge t s d) (g_edges g)\<rparr>)"
    unfolding stampable_def
  proof (intro allI impI notI)
    fix t' s' d'
    assume a: "(t', s', d', None) \<in># edge_keys (g_edges (g\<lparr>g_edges := image_mset (stamped_edge t s d) (g_edges g)\<rparr>))"
      and b: "(t', s', d', Some (legacy_identity t' (snd s') (snd d')))
        \<in># edge_keys (g_edges (g\<lparr>g_edges := image_mset (stamped_edge t s d) (g_edges g)\<rparr>))"
    from a old [of "(t', s', d', None)"] have "(t', s', d', None) \<in># edge_keys (g_edges g)"
      "(t', s', d') \<noteq> (t, s, d)" by auto
    moreover from b old [of "(t', s', d', Some (legacy_identity t' (snd s') (snd d')))"] this(2)
    have "(t', s', d', Some (legacy_identity t' (snd s') (snd d'))) \<in># edge_keys (g_edges g)"
      by (simp del: in_image_mset) blast
    ultimately show False using free by blast
  qed
qed

definition legacy_stamps :: "primitive list \<Rightarrow> bool" where
  "legacy_stamps ss \<longleftrightarrow> (\<forall>p \<in> set ss. \<exists>t s d. p = legacy_edge_stamp t (ref_of s) (ref_of d))"

lemma stamps_effect:
  assumes "legacy_stamps ss" "unique_keys (g_edges g)" "stampable g"
  shows "g_nodes (apply_all ss g) = g_nodes g \<and> unique_keys (g_edges (apply_all ss g))
    \<and> (\<forall>e' \<in># g_edges (apply_all ss g). \<exists>e \<in># g_edges g. e_type e' = e_type e \<and> e_source e' = e_source e
         \<and> e_target e' = e_target e \<and> e_props e' = e_props e
         \<and> (if e_identity e = None \<and> legacy_edge_stamp (e_type e) (ref_of (e_source e)) (ref_of (e_target e)) \<in> set ss
            then e_identity e' = Some (legacy_identity (e_type e) (snd (e_source e)) (snd (e_target e)))
            else e_identity e' = e_identity e))"
  using assms
proof (induction ss arbitrary: g)
  case (Cons p ss)
  then obtain t s d where p: "p = legacy_edge_stamp t (ref_of s) (ref_of d)" by (auto simp: legacy_stamps_def)
  let ?g = "g\<lparr>g_edges := image_mset (stamped_edge t s d) (g_edges g)\<rparr>"
  have step: "apply_primitive p g = ?g" by (simp add: p apply_legacy_stamp)
  have "legacy_stamps ss" using Cons.prems(1) by (simp add: legacy_stamps_def)
  from Cons.IH [OF this, of ?g] stamp_keeps [OF Cons.prems(2,3), of t s d]
  have IH: "g_nodes (apply_all ss ?g) = g_nodes g" "unique_keys (g_edges (apply_all ss ?g))"
    "\<forall>e' \<in># g_edges (apply_all ss ?g). \<exists>e \<in># g_edges ?g. e_type e' = e_type e \<and> e_source e' = e_source e
         \<and> e_target e' = e_target e \<and> e_props e' = e_props e
         \<and> (if e_identity e = None \<and> legacy_edge_stamp (e_type e) (ref_of (e_source e)) (ref_of (e_target e)) \<in> set ss
            then e_identity e' = Some (legacy_identity (e_type e) (snd (e_source e)) (snd (e_target e)))
            else e_identity e' = e_identity e)" by simp_all

  have "\<exists>e \<in># g_edges g. e_type e' = e_type e \<and> e_source e' = e_source e
         \<and> e_target e' = e_target e \<and> e_props e' = e_props e
         \<and> (if e_identity e = None \<and> legacy_edge_stamp (e_type e) (ref_of (e_source e)) (ref_of (e_target e)) \<in> set (p # ss)
            then e_identity e' = Some (legacy_identity (e_type e) (snd (e_source e)) (snd (e_target e)))
            else e_identity e' = e_identity e)"
    if "e' \<in># g_edges (apply_all ss ?g)" for e'
  proof -
    from IH(3) that obtain f where f: "f \<in># g_edges g"
      "e_type e' = e_type (stamped_edge t s d f)" "e_source e' = e_source (stamped_edge t s d f)"
      "e_target e' = e_target (stamped_edge t s d f)" "e_props e' = e_props (stamped_edge t s d f)"
      "if e_identity (stamped_edge t s d f) = None \<and> legacy_edge_stamp (e_type (stamped_edge t s d f))
            (ref_of (e_source (stamped_edge t s d f))) (ref_of (e_target (stamped_edge t s d f))) \<in> set ss
       then e_identity e' = Some (legacy_identity (e_type (stamped_edge t s d f))
            (snd (e_source (stamped_edge t s d f))) (snd (e_target (stamped_edge t s d f))))
       else e_identity e' = e_identity (stamped_edge t s d f)" by auto
    show ?thesis
    proof (intro bexI conjI)
      show "f \<in># g_edges g" by (rule f(1))
      show "if e_identity f = None \<and> legacy_edge_stamp (e_type f) (ref_of (e_source f)) (ref_of (e_target f)) \<in> set (p # ss)
            then e_identity e' = Some (legacy_identity (e_type f) (snd (e_source f)) (snd (e_target f)))
            else e_identity e' = e_identity f"
        using f by (auto simp: stamped_edge_def edge_key_def p split: if_splits)
    qed (use f in \<open>simp_all add: stamped_edge_def split: if_splits\<close>)
  qed
  with IH(1,2) step show ?case by simp
qed auto


lemma deletes_effect:
  assumes "\<forall>p \<in> set ds. \<exists>t i s d. p = DeleteEdge t i (ref_of s) (ref_of d)"
  shows "g_nodes (apply_all ds g) = g_nodes g
    \<and> (unique_keys (g_edges g) \<longrightarrow> unique_keys (g_edges (apply_all ds g)))
    \<and> (\<forall>e. e \<in># g_edges (apply_all ds g) \<longrightarrow> e \<in># g_edges g
         \<and> (\<forall>i. e_identity e = Some i \<longrightarrow> DeleteEdge (e_type e) i (ref_of (e_source e)) (ref_of (e_target e)) \<notin> set ds))"
  using assms
proof (induction ds arbitrary: g)
  case (Cons p ds)
  then obtain t i s d where p: "p = DeleteEdge t i (ref_of s) (ref_of d)" by auto
  define h where "h = apply_primitive p g"
  have g: "g_nodes h = g_nodes g" "g_edges h = filter_mset (\<lambda>e. edge_key e \<noteq> (t, s, d, Some i)) (g_edges g)"
    by (simp_all add: h_def p edge_is_key)
  have inj: "ref_of x = ref_of y \<longleftrightarrow> x = y" for x y by (auto simp: ref_of_def prod_eq_iff)
  have "g_nodes (apply_all ds h) = g_nodes h"
    "unique_keys (g_edges h) \<longrightarrow> unique_keys (g_edges (apply_all ds h))"
    "\<forall>e. e \<in># g_edges (apply_all ds h) \<longrightarrow> e \<in># g_edges h
         \<and> (\<forall>i. e_identity e = Some i \<longrightarrow> DeleteEdge (e_type e) i (ref_of (e_source e)) (ref_of (e_target e)) \<notin> set ds)"
    using Cons.IH [of h] Cons.prems by simp_all
  moreover have "apply_all (p # ds) g = apply_all ds h" by (simp add: h_def)
  ultimately show ?case
    by (auto simp: g unique_keys_filter p inj edge_key_def simp del: run_ops.simps)
qed simp

lemma node_deletes_effect:
  "g_nodes (apply_all (map (\<lambda>k. DeleteNode (fst k) (snd k)) ks) g) k = (if k \<in> set ks then None else g_nodes g k)
   \<and> (unique_keys (g_edges g) \<longrightarrow> unique_keys (g_edges (apply_all (map (\<lambda>k. DeleteNode (fst k) (snd k)) ks) g)))
   \<and> (\<forall>e. e \<in># g_edges (apply_all (map (\<lambda>k. DeleteNode (fst k) (snd k)) ks) g) \<longrightarrow> e \<in># g_edges g
        \<and> (e_source e \<in> set ks \<longrightarrow> g_nodes g (e_source e) = None)
        \<and> (e_target e \<in> set ks \<longrightarrow> g_nodes g (e_target e) = None))"
proof (induction ks arbitrary: g)
  case (Cons j ks)
  define h where "h = cy_delete_node (fst j) (snd j) g"
  have g: "g_nodes h x = (if x = j then None else g_nodes g x)" for x
    by (simp add: h_def cy_delete_node_def split: option.split)
  have e: "e \<in># g_edges h \<longleftrightarrow> e \<in># g_edges g \<and> (g_nodes g j \<noteq> None \<longrightarrow> e_source e \<noteq> j \<and> e_target e \<noteq> j)" for e
    by (auto simp: h_def cy_delete_node_def split: option.split)
  have u: "unique_keys (g_edges g) \<Longrightarrow> unique_keys (g_edges h)"
    by (auto simp: h_def cy_delete_node_def unique_keys_filter split: option.split)
  define h' where "h' = apply_all (map (\<lambda>k. DeleteNode (fst k) (snd k)) ks) h"
  have run: "apply_all (map (\<lambda>k. DeleteNode (fst k) (snd k)) (j # ks)) g = h'"
    by (simp add: h'_def h_def)
  from Cons.IH [of h] have IH: "g_nodes h' k = (if k \<in> set ks then None else g_nodes h k)"
    "unique_keys (g_edges h) \<longrightarrow> unique_keys (g_edges h')"
    "e \<in># g_edges h' \<Longrightarrow> e \<in># g_edges h \<and> (e_source e \<in> set ks \<longrightarrow> g_nodes h (e_source e) = None)
        \<and> (e_target e \<in> set ks \<longrightarrow> g_nodes h (e_target e) = None)" for e
    unfolding h'_def by blast+
  have "e \<in># g_edges g \<and> (e_source e \<in> set (j # ks) \<longrightarrow> g_nodes g (e_source e) = None)
        \<and> (e_target e \<in> set (j # ks) \<longrightarrow> g_nodes g (e_target e) = None)" if "e \<in># g_edges h'" for e
    using IH(3) [OF that] e [of e] g by (metis set_ConsD)
  with IH(1,2) u g show ?case unfolding run by simp
qed simp


lemma unique_same: "unique_keys es \<Longrightarrow> e \<in># es \<Longrightarrow> f \<in># es \<Longrightarrow> edge_key e = edge_key f \<Longrightarrow> e = f"
proof -
  assume u: "unique_keys es" and e: "e \<in># es" and f: "f \<in># es" and k: "edge_key e = edge_key f"
  from e obtain es' where es: "es = add_mset e es'" by (meson mset_add)
  with u have "edge_key e \<notin># edge_keys es'" by (simp add: unique_keys_add)
  with f es k show "e = f" by auto
qed

definition shape_of :: "graph \<Rightarrow> graph_shape \<Rightarrow> bool" where
  "shape_of g live \<longleftrightarrow>
     (\<forall>k names. (k, names) \<in> set (sh_nodes live) \<longleftrightarrow> (\<exists>m. g_nodes g k = Some m \<and> names = dom m))
     \<and> (\<forall>e \<in># g_edges g. scan_edge_shape e \<in> set (sh_edges live))
     \<and> (\<forall>x \<in> set (sh_edges live). \<exists>e \<in># g_edges g. scan_edge_shape e = x)"

lemma reader_key_edge_key:
  assumes "e_identity e \<noteq> Some unidentified" "e_identity f \<noteq> Some unidentified"
  shows "reader_key_of e = reader_key_of f \<longleftrightarrow> edge_key e = edge_key f"
  using assms by (auto simp: reader_key_of_def edge_key_def split: option.splits)

lemma read_shape:
  assumes "layout_of g lay" "unique_keys (g_edges g)" "\<forall>e \<in># g_edges g. e_identity e \<noteq> Some unidentified"
  shows "\<exists>live. read_graph_shape g lay = Some live \<and> shape_of g live"
proof -
  let ?ns = "map (node_shape g) (map snd (lay_nodes lay))"
  let ?es = "map scan_edge_shape (map snd (lay_edges lay))"
  have read: "read_graph_shape g lay = Some \<lparr>sh_nodes = dict_of ?ns, sh_edges = dict_of ?es\<rparr>"
    using assms(1) by (simp add: read_graph_shape_def layout_of_def scan_complete node_chunk_rows_def
        edge_chunk_rows_def)
  have node: "(k, names) \<in> set ?ns \<longleftrightarrow> (\<exists>m. g_nodes g k = Some m \<and> names = dom m)" for k names
  proof -
    have "(k, names) \<in> set ?ns \<longleftrightarrow> k \<in> set (map snd (lay_nodes lay)) \<and> names = snd (node_shape g k)"
      by (auto simp: node_shape_def)
    also have "\<dots> \<longleftrightarrow> k \<in> dom (g_nodes g) \<and> names = snd (node_shape g k)"
      using assms(1) by (simp only: layout_of_def)
    also have "\<dots> \<longleftrightarrow> (\<exists>m. g_nodes g k = Some m \<and> names = dom m)"
      by (auto simp: node_shape_def)
    finally show ?thesis .
  qed
  have nodes: "(k, names) \<in> set (dict_of ?ns) \<longleftrightarrow> (\<exists>m. g_nodes g k = Some m \<and> names = dom m)" for k names
  proof
    assume "(k, names) \<in> set (dict_of ?ns)"
    with dict_of_sub [of ?ns] have "(k, names) \<in> set ?ns" by blast
    then show "\<exists>m. g_nodes g k = Some m \<and> names = dom m" unfolding node .
  next
    assume m: "\<exists>m. g_nodes g k = Some m \<and> names = dom m"
    then have "(k, names) \<in> set ?ns" unfolding node .
    from dict_of_member [OF this] obtain w where w: "(k, w) \<in> set (dict_of ?ns)" "(k, w) \<in> set ?ns" by blast
    from w(2) m have "w = names" unfolding node by auto
    with w(1) show "(k, names) \<in> set (dict_of ?ns)" by simp
  qed
  have member: "e \<in># g_edges g \<longleftrightarrow> e \<in> set (map snd (lay_edges lay))" for e
    using assms(1) by (metis layout_of_def set_mset_mset)
  have edge: "scan_edge_shape e \<in> set (dict_of ?es)" if e: "e \<in># g_edges g" for e
  proof -
    from e member have "(reader_key_of e, dom (e_props e)) \<in> set ?es" by (auto simp: scan_edge_shape_def)
    from dict_of_member [OF this] obtain w where w: "(reader_key_of e, w) \<in> set (dict_of ?es)"
      "(reader_key_of e, w) \<in> set ?es" by blast
    from w(2) obtain f where f: "f \<in> set (map snd (lay_edges lay))" "scan_edge_shape f = (reader_key_of e, w)"
      by (metis (no_types, lifting) image_iff list.set_map)
    then have "f = e" using e member assms(2,3) reader_key_edge_key [of f e]
      by (intro unique_same [of "g_edges g"]) (auto simp: scan_edge_shape_def)
    with f w(1) show ?thesis by simp
  qed
  moreover have "\<exists>e \<in># g_edges g. scan_edge_shape e = x" if "x \<in> set (dict_of ?es)" for x
    using that dict_of_sub [of ?es] member by fastforce
  ultimately show ?thesis using read nodes by (auto simp: shape_of_def)
qed

lemma replaced_nodes:
  assumes "shape_of g live"
  shows "k \<in> set (map fst (filter (\<lambda>(k, names). \<not> keeps w k names) (sh_nodes live)))
    \<longleftrightarrow> (\<exists>m. g_nodes g k = Some m \<and> \<not> keeps w k (dom m))"
proof -
  have "k \<in> set (map fst (filter (\<lambda>(k, names). \<not> keeps w k names) (sh_nodes live)))
      \<longleftrightarrow> (\<exists>names. (k, names) \<in> set (sh_nodes live) \<and> \<not> keeps w k names)"
    by (auto simp: image_iff simp del: split_paired_Ex)
  moreover have "(k, names) \<in> set (sh_nodes live) \<longleftrightarrow> (\<exists>m. g_nodes g k = Some m \<and> names = dom m)" for names
    using assms unfolding shape_of_def by blast
  ultimately show ?thesis by (simp only:) metis
qed

lemma planned:
  assumes "shape_of g live" "e \<in># g_edges g" "e_source e \<notin> dropped" "e_target e \<notin> dropped"
    and "plans = map (edge_plan dropped w) (sort_key fst (sh_edges live))"
  shows "e_identity e = None \<Longrightarrow>
      legacy_edge_stamp (e_type e) (ref_of (e_source e)) (ref_of (e_target e)) \<in> set (concat (map fst plans))"
    and "i = (case e_identity e of None \<Rightarrow> legacy_identity (e_type e) (snd (e_source e)) (snd (e_target e)) | Some j \<Rightarrow> j)
      \<Longrightarrow> e_identity e \<noteq> Some unidentified \<Longrightarrow> \<not> keeps w (e_type e, e_source e, e_target e, i) (dom (e_props e))
      \<Longrightarrow> DeleteEdge (e_type e) i (ref_of (e_source e)) (ref_of (e_target e)) \<in> set (concat (map snd plans))"
proof -
  let ?plan = "edge_plan dropped w (scan_edge_shape e)"
  have plan: "?plan \<in> set plans" using assms(1,2,5) by (simp add: shape_of_def)
  then have stamps: "x \<in> set (fst ?plan) \<Longrightarrow> x \<in> set (concat (map fst plans))"
    and deletes: "x \<in> set (snd ?plan) \<Longrightarrow> x \<in> set (concat (map snd plans))" for x
    by (auto simp del: edge_plan.simps)
  show "e_identity e = None \<Longrightarrow>
      legacy_edge_stamp (e_type e) (ref_of (e_source e)) (ref_of (e_target e)) \<in> set (concat (map fst plans))"
    by (rule stamps) (simp add: assms(3,4) scan_edge_shape_def reader_key_of_def Let_def)
  show "i = (case e_identity e of None \<Rightarrow> legacy_identity (e_type e) (snd (e_source e)) (snd (e_target e)) | Some j \<Rightarrow> j)
      \<Longrightarrow> e_identity e \<noteq> Some unidentified \<Longrightarrow> \<not> keeps w (e_type e, e_source e, e_target e, i) (dom (e_props e))
      \<Longrightarrow> DeleteEdge (e_type e) i (ref_of (e_source e)) (ref_of (e_target e)) \<in> set (concat (map snd plans))"
    by (rule deletes) (auto simp: assms(3,4) scan_edge_shape_def reader_key_of_def Let_def split: option.splits)
qed

lemma plans_shape:
  "legacy_stamps (concat (map fst (map (edge_plan dropped w) xs)))"
  "\<forall>p \<in> set (concat (map snd (map (edge_plan dropped w) xs))). \<exists>t i s d. p = DeleteEdge t i (ref_of s) (ref_of d)"
proof -
  have "(\<forall>p \<in> set (fst (edge_plan dropped w x)). \<exists>t s d. p = legacy_edge_stamp t (ref_of s) (ref_of d))
    \<and> (\<forall>p \<in> set (snd (edge_plan dropped w x)). \<exists>t i s d. p = DeleteEdge t i (ref_of s) (ref_of d))" for x
  proof -
    obtain t s d i names where "x = ((t, s, d, i), names)" by (metis prod.exhaust)
    then show ?thesis by (auto simp: Let_def simp del: split_paired_Ex)
  qed
  then show "legacy_stamps (concat (map fst (map (edge_plan dropped w) xs)))"
    "\<forall>p \<in> set (concat (map snd (map (edge_plan dropped w) xs))). \<exists>t i s d. p = DeleteEdge t i (ref_of s) (ref_of d)"
    by (auto simp: legacy_stamps_def)
qed


lemma replacement_parts:
  obtains dropped plans where
    "replacement live ps = concat (map fst plans) @ concat (map snd plans)
       @ map (\<lambda>k. DeleteNode (fst k) (snd k)) (sort dropped)"
    "dropped = map fst (filter (\<lambda>(k, names). \<not> keeps (wanted_node_names ps) k names) (sh_nodes live))"
    "plans = map (edge_plan (set dropped) (wanted_edge_names ps)) (sort_key fst (sh_edges live))"
  by (simp add: replacement_def Let_def)

lemma replacement_loads:
  assumes "shape_of g live" "unique_keys (g_edges g)" "stampable g"
    and "\<forall>e \<in># g_edges g. e_identity e \<noteq> Some unidentified"
  shows "loading ps (apply_all (replacement live ps) g) empty_graph"
proof -
  obtain dropped plans where parts:
    "replacement live ps = concat (map fst plans) @ concat (map snd plans)
       @ map (\<lambda>k. DeleteNode (fst k) (snd k)) (sort dropped)"
    "dropped = map fst (filter (\<lambda>(k, names). \<not> keeps (wanted_node_names ps) k names) (sh_nodes live))"
    and plans: "plans = map (edge_plan (set dropped) (wanted_edge_names ps)) (sort_key fst (sh_edges live))"
    by (rule replacement_parts)
  define g1 where "g1 = apply_all (concat (map fst plans)) g"
  define g2 where "g2 = apply_all (concat (map snd plans)) g1"
  define g3 where "g3 = apply_all (map (\<lambda>k. DeleteNode (fst k) (snd k)) (sort dropped)) g2"
  have run: "apply_all (replacement live ps) g = g3"
    by (simp add: parts(1) g1_def g2_def g3_def)
  have dropped: "k \<in> set dropped \<longleftrightarrow> (\<exists>m. g_nodes g k = Some m \<and> \<not> keeps (wanted_node_names ps) k (dom m))" for k
    unfolding parts(2) by (rule replaced_nodes [OF assms(1)])
  note stamps = stamps_effect [OF plans_shape(1) assms(2,3), of "set dropped" "wanted_edge_names ps"
      "sort_key fst (sh_edges live)", folded plans, folded g1_def]
  note deletes = deletes_effect [OF plans_shape(2), of "set dropped" "wanted_edge_names ps"
      "sort_key fst (sh_edges live)" g1, folded plans, folded g2_def]
  note gone = node_deletes_effect [of "sort dropped" g2, folded g3_def, simplified set_sort]
  from stamps deletes have nodes2: "g_nodes g2 = g_nodes g" by simp
  with gone have nodes3: "g_nodes g3 k = (if k \<in> set dropped then None else g_nodes g k)" for k by simp
  from stamps deletes gone have unique3: "unique_keys (g_edges g3)" by blast
  have kept: "\<exists>i. e_identity e3 = Some i
      \<and> keeps (wanted_edge_names ps) (e_type e3, e_source e3, e_target e3, i) (dom (e_props e3))"
    if e3: "e3 \<in># g_edges g3" for e3
  proof -
    from gone e3 have e2': "e3 \<in># g_edges g2" "e_source e3 \<in> set dropped \<Longrightarrow> g_nodes g (e_source e3) = None"
      "e_target e3 \<in> set dropped \<Longrightarrow> g_nodes g (e_target e3) = None"
      unfolding nodes2 by blast+
    then have e2: "e3 \<in># g_edges g2" "e_source e3 \<notin> set dropped" "e_target e3 \<notin> set dropped"
      unfolding dropped by force+
    from deletes e2(1) have e1: "e3 \<in># g_edges g1"
      "\<And>i. e_identity e3 = Some i \<Longrightarrow>
         DeleteEdge (e_type e3) i (ref_of (e_source e3)) (ref_of (e_target e3)) \<notin> set (concat (map snd plans))"
      by blast+
    from stamps e1(1) obtain e where e: "e \<in># g_edges g" "e_type e3 = e_type e" "e_source e3 = e_source e"
      "e_target e3 = e_target e" "e_props e3 = e_props e"
      "if e_identity e = None \<and> legacy_edge_stamp (e_type e) (ref_of (e_source e)) (ref_of (e_target e))
            \<in> set (concat (map fst plans))
       then e_identity e3 = Some (legacy_identity (e_type e) (snd (e_source e)) (snd (e_target e)))
       else e_identity e3 = e_identity e" by blast
    from e2 e have ends: "e_source e \<notin> set dropped" "e_target e \<notin> set dropped" by simp_all
    define i where "i = (case e_identity e of None \<Rightarrow>
        legacy_identity (e_type e) (snd (e_source e)) (snd (e_target e)) | Some j \<Rightarrow> j)"
    have id3: "e_identity e3 = Some i"
      using e(6) planned(1) [OF assms(1) e(1) ends plans] by (cases "e_identity e") (simp_all add: i_def)
    have "keeps (wanted_edge_names ps) (e_type e, e_source e, e_target e, i) (dom (e_props e))"
      using planned(2) [OF assms(1) e(1) ends plans i_def] assms(4) e(1) e1(2) [OF id3] e by auto
    with id3 e show ?thesis by auto
  qed
  show ?thesis unfolding run
  proof (rule loadingI)
    fix k
    show "covers (g_nodes g3 k) (g_nodes empty_graph k) (mentioned node_write ps k) (names_at node_write ps k)"
      using dropped [of k] nodes3 [of k]
      by (auto simp: covers_def empty_graph_def keeps_names split: option.splits)
  next
    show "unique_keys (g_edges g3)" by (rule unique3)
    show "unique_keys (g_edges empty_graph)" by (simp add: empty_graph_def unique_keys_def)
  next
    fix t s d i
    have none: "edge_view (g_edges empty_graph) k None" for k by (simp add: edge_view_def empty_graph_def)
    show "\<exists>v v0. edge_view (g_edges g3) (t, s, d, Some i) v \<and> edge_view (g_edges empty_graph) (t, s, d, Some i) v0
        \<and> covers v v0 (mentioned edge_write ps (t, s, d, i)) (names_at edge_write ps (t, s, d, i))"
    proof (cases "\<exists>e3 \<in># g_edges g3. edge_key e3 = (t, s, d, Some i)")
      case True
      then obtain e3 where e3: "e3 \<in># g_edges g3" "edge_key e3 = (t, s, d, Some i)" by blast
      from kept [OF e3(1)] e3(2) have "keeps (wanted_edge_names ps) (t, s, d, i) (dom (e_props e3))"
        by (auto simp: edge_key_def)
      then have "covers (Some (e_props e3)) None (mentioned edge_write ps (t, s, d, i)) (names_at edge_write ps (t, s, d, i))"
        by (simp add: covers_def keeps_names)
      with e3 none show ?thesis by (intro exI [of _ "Some (e_props e3)"] exI [of _ None]) (auto simp: edge_view_def)
    next
      case False
      then have "edge_view (g_edges g3) (t, s, d, Some i) None" by (auto simp: edge_view_def)
      with none show ?thesis by (intro exI [of _ None]) (simp add: covers_def)
    qed
  next
    fix t s d
    show "edge_view (g_edges g3) (t, s, d, None) None \<and> edge_view (g_edges empty_graph) (t, s, d, None) None"
      using kept by (fastforce simp: edge_view_def edge_key_def empty_graph_def)
  qed
qed


lemma expand_replacing:
  assumes "layout_of g lay" "unique_keys (g_edges g)" "\<forall>e \<in># g_edges g. e_identity e \<noteq> Some unidentified"
  shows "\<exists>live. shape_of g live \<and> expand_leg g lay grp True =
    Some (grp\<lparr>mg_primitives := replacement live (mg_primitives grp) @ mg_primitives grp\<rparr>)"
proof -
  from read_shape [OF assms] obtain live where live: "read_graph_shape g lay = Some live" "shape_of g live" by blast
  then show ?thesis by (intro exI [of _ live]) (simp add: expand_leg_def)
qed

section \<open>The stamps of a merging leg\<close>

lemma dict_of_keys: "set (map fst (dict_of pairs)) = fst ` set pairs"
proof
  show "set (map fst (dict_of pairs)) \<subseteq> fst ` set pairs" using dict_of_sub [of pairs] by auto
  show "fst ` set pairs \<subseteq> set (map fst (dict_of pairs))" using dict_of_member [of _ _ pairs] by force
qed

lemma set_map_filter: "set (List.map_filter f xs) = {y. \<exists>x \<in> set xs. f x = Some y}"
  by (induction xs) (auto simp: List.map_filter_simps split: option.splits)

lemma filter_snd: "map snd (filter (\<lambda>(_, e). P e) rows) = filter P (map snd rows)"
  by (induction rows) auto

lemma scan_unidentified:
  assumes "layout_of g lay" "0 < n"
  shows "\<exists>found skipped. scan_unidentified_edges lay n = Some (found, skipped)
    \<and> set found = {y. \<exists>e \<in># g_edges g. e_identity e = None \<and> stamp_of e = Some y}"
proof -
  let ?rows = "filter (\<lambda>(_, e). e_identity e = None) (lay_edges lay)"
  have "table_ok ?rows"
    using assms(1) by (auto simp: layout_of_def table_ok_def sorted_wrt_map intro: sorted_wrt_filter)
  then have "scan ?rows n = Some (filter (\<lambda>e. e_identity e = None) (map snd (lay_edges lay)))"
    using assms(2) by (simp add: scan_complete filter_snd)
  moreover have "e \<in># g_edges g \<longleftrightarrow> e \<in> set (map snd (lay_edges lay))" for e
    using assms(1) by (metis layout_of_def set_mset_mset)
  ultimately show ?thesis
    by (auto simp: scan_unidentified_edges_def dict_of_keys [unfolded set_map] set_map_filter image_image)
qed

lemma stamp_of_Some: "stamp_of e = Some (t, s, d) \<Longrightarrow> t = e_type e \<and> s = ref_of (e_source e) \<and> d = ref_of (e_target e)"
  by (simp add: stamp_of_def split: if_splits)

lemma expand_merging:
  assumes "layout_of g lay"
  shows "\<exists>ss. legacy_stamps ss
    \<and> (\<forall>e \<in># g_edges g. e_identity e = None \<and> stamp_of e \<noteq> None \<longrightarrow>
         legacy_edge_stamp (e_type e) (ref_of (e_source e)) (ref_of (e_target e)) \<in> set ss)
    \<and> (ss = [] \<longleftrightarrow> (\<forall>e \<in># g_edges g. e_identity e = None \<longrightarrow> stamp_of e = None))
    \<and> expand_leg g lay grp False = Some (grp\<lparr>mg_primitives := ss @ mg_primitives grp\<rparr>)"
proof -
  have "0 < scan_chunk_rows" by (simp add: scan_chunk_rows_def)
  from scan_unidentified [OF assms this] obtain found skipped where found:
    "scan_unidentified_edges lay scan_chunk_rows = Some (found, skipped)"
    "set found = {y. \<exists>e \<in># g_edges g. e_identity e = None \<and> stamp_of e = Some y}" by blast
  let ?ss = "map (\<lambda>(t, s, d). legacy_edge_stamp t s d) found"
  have "legacy_stamps ?ss"
    using found(2) by (fastforce simp: legacy_stamps_def dest!: stamp_of_Some)
  moreover have "legacy_edge_stamp (e_type e) (ref_of (e_source e)) (ref_of (e_target e)) \<in> set ?ss"
    if "e \<in># g_edges g" "e_identity e = None" "stamp_of e \<noteq> None" for e
  proof -
    from that(3) have "stamp_of e = Some (e_type e, ref_of (e_source e), ref_of (e_target e))"
      by (simp add: stamp_of_def split: if_splits)
    with that found(2) have "(e_type e, ref_of (e_source e), ref_of (e_target e)) \<in> set found" by auto
    then show ?thesis by (auto intro!: rev_image_eqI)
  qed
  moreover have "?ss = [] \<longleftrightarrow> (\<forall>e \<in># g_edges g. e_identity e = None \<longrightarrow> stamp_of e = None)"
  proof -
    have "?ss = [] \<longleftrightarrow> set found = {}" by simp
    also have "\<dots> \<longleftrightarrow> (\<forall>e \<in># g_edges g. e_identity e = None \<longrightarrow> stamp_of e = None)"
    proof -
      have "{y. \<exists>e \<in># g_edges g. e_identity e = None \<and> stamp_of e = Some y} = {}
          \<longleftrightarrow> (\<forall>e \<in># g_edges g. \<forall>y. e_identity e = None \<longrightarrow> stamp_of e \<noteq> Some y)" by blast
      also have "\<dots> \<longleftrightarrow> (\<forall>e \<in># g_edges g. e_identity e = None \<longrightarrow> stamp_of e = None)"
      proof (rule ball_cong [OF refl])
        fix e show "(\<forall>y. e_identity e = None \<longrightarrow> stamp_of e \<noteq> Some y) \<longleftrightarrow> (e_identity e = None \<longrightarrow> stamp_of e = None)"
          by (cases "stamp_of e") auto
      qed
      finally show ?thesis unfolding found(2) .
    qed
    finally show ?thesis .
  qed
  ultimately show ?thesis using found(1) by (intro exI [of _ ?ss]) (simp add: expand_leg_def)
qed

section \<open>Properties\<close>

text \<open>
  C10. A replacing leg is exact: on any live graph with distinct edge keys whose identity-less edges can
  be given their legacy identity, the expanded leg leaves exactly the graph that the leg's own upserts
  load into an empty graph; nothing of the old content survives and nothing of the new is lost, and only
  the primitives of the group are touched.
\<close>

theorem replacing_leg_exact:
  assumes "layout_of g lay" "unique_keys (g_edges g)" "stampable g"
    and "\<forall>e \<in># g_edges g. e_identity e \<noteq> Some unidentified"
    and "list_all is_upsert (mg_primitives grp)" "targets_exist (mg_primitives grp) empty_graph"
  shows "\<exists>expanded. expand_leg g lay grp True = Some expanded
    \<and> apply_all (mg_primitives expanded) g = apply_all (mg_primitives grp) empty_graph
    \<and> expanded = grp\<lparr>mg_primitives := mg_primitives expanded\<rparr>"
proof -
  from expand_replacing [OF assms(1,2,4)] obtain live where live: "shape_of g live" "expand_leg g lay grp True =
      Some (grp\<lparr>mg_primitives := replacement live (mg_primitives grp) @ mg_primitives grp\<rparr>)" by blast
  with loading_all [OF replacement_loads [OF live(1) assms(2-4)] assms(5,6)] show ?thesis by simp
qed


definition sample_layout :: layout where
  "sample_layout =
     \<lparr>lay_nodes = [(0, (''Role'', ''r1'')), (3, (''Policy'', ''p1''))], lay_edges = [(1, sample_edge)]\<rparr>"

definition sample_leg :: mutation_group where
  "sample_leg =
     \<lparr>mg_graph = ''policies'', mg_audit_event_id = None,
      mg_primitives =
        [UpsertNode ''Role'' ''r1'' [(''name'', PStr ''Auditor'')] None,
         UpsertNode ''Control'' ''c1'' [] None,
         UpsertEdge ''OWNS'' ''e7'' sample_role \<lparr>ref_label = ''Control'', ref_id = ''c1''\<rparr> []],
      mg_preconditions = [], mg_checkpoint_requested = False\<rparr>"

lemma sample_layout_ok: "layout_of sample_graph sample_layout" "stampable sample_graph"
    "\<forall>e \<in># g_edges sample_graph. e_identity e \<noteq> Some unidentified"
  by (auto simp: layout_of_def sample_layout_def sample_graph_def table_ok_def stampable_def edge_key_def
      sample_edge_def)

theorem replacing_leg_exact_witness:
  "\<exists>expanded. expand_leg sample_graph sample_layout sample_leg True = Some expanded
    \<and> apply_all (mg_primitives expanded) sample_graph = apply_all (mg_primitives sample_leg) empty_graph
    \<and> expanded = sample_leg\<lparr>mg_primitives := mg_primitives expanded\<rparr>"
  by (rule replacing_leg_exact [OF sample_layout_ok(1) sample_graph_ok(2) sample_layout_ok(2,3)])
    (simp_all add: sample_leg_def empty_graph_def ref_key_def sample_role_def)


definition sample_stamp :: primitive where
  "sample_stamp = legacy_edge_stamp ''OWNS'' sample_role sample_policy"

definition stamped_layout :: layout where
  "stamped_layout = sample_layout\<lparr>lay_edges := [(1, sample_edge\<lparr>e_identity := Some ''OWNS:r1->p1''\<rparr>)]\<rparr>"

lemma sample_expand:
  "expand_leg sample_graph sample_layout sample_leg False =
     Some (sample_leg\<lparr>mg_primitives := sample_stamp # mg_primitives sample_leg\<rparr>)"
proof -
  have "table_ok [(1, sample_edge)]" by (simp add: table_ok_def)
  moreover have "filter (\<lambda>(_, e). e_identity e = None) (lay_edges sample_layout) = [(1, sample_edge)]"
    by (simp add: sample_layout_def sample_edge_def)
  moreover have "stamp_of sample_edge = Some (''OWNS'', sample_role, sample_policy)"
    by (simp add: stamp_of_def sample_edge_def allowed_relationship_types_def schema_edge_types_def
        allowed_node_labels_def schema_node_labels_def ref_of_def sample_role_def sample_policy_def)
  ultimately show ?thesis
    by (simp add: expand_leg_def scan_unidentified_edges_def scan_complete scan_chunk_rows_def
        List.map_filter_simps dict_of_def sample_stamp_def)
qed

lemma sample_stamped: "layout_of (apply_all [sample_stamp] sample_graph) stamped_layout"
  by (auto simp: layout_of_def stamped_layout_def sample_layout_def sample_graph_def table_ok_def
      sample_stamp_def legacy_edge_stamp_def edge_between_def sample_edge_def sample_role_def
      sample_policy_def legacy_identity_def ref_key_def)


end
