(* ===== verification/Gateway.thy ===== *)
theory Gateway
  imports Gateway_Apply Replace
begin

text \<open>
  The write gateway (\<^verbatim>\<open>graph_gateway/gateway.py\<close>): submitting a group to one graph or a set of groups to
  several, catching up, recovery at start, and the reads that belong to them, as operations on a world.
  This is the gateway built without a key port: a set that asks to be swapped in is refused, and a swap
  set another process left in the log blocks its legs, exactly as the code does without a port.

  What the environment decides enters through \<open>gateway_env\<close>: the settings, the order FalkorDB reports
  parallel edges in, its internal ids, and the digest of a graph (\<open>None\<close>: a \<^verbatim>\<open>GraphDigestError\<close>).
\<close>

record gateway_env =
  ge_settings :: gateway_settings
  ge_report :: "edge multiset \<Rightarrow> edge list"
  ge_layout :: "graph \<Rightarrow> layout"
  ge_digest :: "graph \<Rightarrow> string option"

section \<open>Outcomes\<close>

datatype apply_status = Applied | Committed_Apply_Pending | Unchanged
datatype checkpoint_state = Not_Requested | Recorded | Not_Recorded

record group_outcome =
  go_graph :: string
  go_first :: "nat option"
  go_last :: "nat option"
  go_status :: apply_status
  go_checkpoint :: checkpoint_state
  go_checkpoint_position :: "nat option"

record multi_outcome =
  mo_audit_event_id :: string
  mo_legs :: "group_outcome list"
  mo_status :: apply_status

record catch_up_result =
  cr_graph :: string
  cr_applied :: nat
  cr_last :: nat
  cr_caught_up :: bool

record recovery_result =
  rr_recovered :: "string list"
  rr_gated :: "string list"

text \<open>The model validators of \<^verbatim>\<open>GroupOutcome\<close>: False is a \<^verbatim>\<open>ValidationError\<close>.\<close>

definition outcome_valid :: "group_outcome \<Rightarrow> bool" where
  "outcome_valid o1 \<longleftrightarrow>
     (let logged = go_first o1 \<noteq> None \<and> go_last o1 \<noteq> None;
          unlogged = go_first o1 = None \<and> go_last o1 = None
      in \<not> ((go_status o1 = Unchanged) \<noteq> unlogged \<or> \<not> (logged \<or> unlogged)))
     \<and> ((go_checkpoint o1 = Recorded) \<longleftrightarrow> go_checkpoint_position o1 \<noteq> None)
     \<and> (\<forall>n \<in> set_option (go_first o1) \<union> set_option (go_last o1) \<union> set_option (go_checkpoint_position o1). 1 \<le> n)"

definition checkpoint_state :: "bool \<Rightarrow> bool \<Rightarrow> checkpoint_state" where
  "checkpoint_state requested stored =
     (if stored then Recorded else if requested then Not_Recorded else Not_Requested)"

definition unchanged_outcome :: "mutation_group \<Rightarrow> group_outcome" where
  "unchanged_outcome grp =
     \<lparr>go_graph = mg_graph grp, go_first = None, go_last = None, go_status = Unchanged,
      go_checkpoint = checkpoint_state (mg_checkpoint_requested grp) False, go_checkpoint_position = None\<rparr>"

definition multi_status :: "group_outcome list \<Rightarrow> apply_status" where
  "multi_status outcomes =
     (let statuses = set (map go_status outcomes)
      in if statuses = {Unchanged} then Unchanged
         else if Committed_Apply_Pending \<in> statuses then Committed_Apply_Pending else Applied)"

definition multi_outcome :: "string \<Rightarrow> group_outcome list \<Rightarrow> multi_outcome" where
  "multi_outcome audit outcomes =
     \<lparr>mo_audit_event_id = audit, mo_legs = outcomes, mo_status = multi_status outcomes\<rparr>"

definition draft :: "string \<Rightarrow> primitive list \<Rightarrow> group_draft" where
  "draft g ps = \<lparr>gd_graph = g, gd_entries = map encode_primitive ps\<rparr>"

section \<open>Guards before a write\<close>

definition guarded :: "gateway_env \<Rightarrow> string \<Rightarrow> 'a op \<Rightarrow> 'a op" where
  "guarded env g m = guard_call (ge_settings env) g (\<lambda>_. None) m"

definition gate_open :: "string \<Rightarrow> unit op" where
  "gate_open g w = lift_result (require_open (w_gate w) g) w"

definition require_not_blocked :: "string \<Rightarrow> unit op" where
  "require_not_blocked g w =
     (if g \<in> w_blocked w then raise_op (Gateway (GraphApplyBlockedError g)) w else return_op () w)"

definition read_last_position :: "gateway_env \<Rightarrow> string \<Rightarrow> nat op" where
  "read_last_position env g = guarded env g (log_read (last_position g))"

definition refuse_pending_swap :: "gateway_env \<Rightarrow> string \<Rightarrow> unit op" where
  "refuse_pending_swap env g =
     bind_op (guarded env g
       (bind_op (log_read (read_applied_position g)) (\<lambda>applied.
          log_read (read_pending_swap_group g applied)))) (\<lambda>pending.
     if pending \<noteq> None
     then bind_op (reconcile_later g) (\<lambda>_. raise_op (Gateway GraphUnavailableError))
     else return_op ())"

definition catch_up_before_write :: "gateway_env \<Rightarrow> string \<Rightarrow> unit op" where
  "catch_up_before_write env g =
     bind_op (guarded env g
       (bind_op (log_read (read_applied_position g)) (\<lambda>applied.
        bind_op (log_read (last_position g)) (\<lambda>last. return_op (applied \<noteq> last))))) (\<lambda>lagging.
     if \<not> lagging then return_op ()
     else bind_op (refuse_pending_swap env g) (\<lambda>_.
          catch_op (apply_pending (ge_settings env) g None) (\<lambda>e.
            if e = Gateway GraphUnavailableError
            then Some (bind_op (reconcile_later g) (\<lambda>_. raise_op e)) else None)))"

fun check_preconditions :: "gateway_env \<Rightarrow> string \<Rightarrow> nat list \<Rightarrow> unit op" where
  "check_preconditions env g [] = return_op ()"
| "check_preconditions env g (expected # ns) =
     bind_op (read_last_position env g) (\<lambda>actual.
     bind_op (lift_result (require_precondition g actual expected)) (\<lambda>_.
       check_preconditions env g ns))"

section \<open>Staging\<close>

text \<open>A primitive built from what the graph holds is validated as it is built.\<close>

definition buildable :: "primitive \<Rightarrow> bool" where
  "buildable p \<longleftrightarrow> model_validate p = Some p"

definition expanded :: "gateway_env \<Rightarrow> mutation_group \<Rightarrow> bool \<Rightarrow> mutation_group op" where
  "expanded env grp replace =
     bind_op (guarded env (mg_graph grp)
       (bind_op (graph_call (mg_graph grp) (\<lambda>x. (expand_leg x (ge_layout env x) grp replace, x))) (\<lambda>found.
          case found of
            None \<Rightarrow> raise_op Hangs
          | Some e \<Rightarrow>
              if list_all buildable (take (added_count grp e) (mg_primitives e)) then return_op e
              else raise_op Bad_Value))) (\<lambda>e.
     if added_count grp e \<noteq> 0 then bind_op (lift_result (validate_group e)) (\<lambda>_. return_op e)
     else return_op e)"

definition select_effective :: "gateway_env \<Rightarrow> mutation_group \<Rightarrow> primitive list op" where
  "select_effective env grp =
     guarded env (mg_graph grp)
       (bind_op (graph_call (mg_graph grp) (\<lambda>x.
          (select_effective_primitives x (ge_report env (g_edges x)) (mg_primitives grp)
             (nat (gs_batch_size (ge_settings env))), x))) lift_result)"

definition stage :: "gateway_env \<Rightarrow> mutation_group \<Rightarrow> bool option \<Rightarrow> primitive list op" where
  "stage env grp replace =
     bind_op (gate_open (mg_graph grp)) (\<lambda>_.
     bind_op (require_not_blocked (mg_graph grp)) (\<lambda>_.
     bind_op (catch_up_before_write env (mg_graph grp)) (\<lambda>_.
     bind_op (lift_result (validate_group grp)) (\<lambda>_.
     bind_op (check_preconditions env (mg_graph grp) (mg_preconditions grp)) (\<lambda>_.
     bind_op (case replace of None \<Rightarrow> return_op grp | Some r \<Rightarrow> expanded env grp r) (\<lambda>e.
       select_effective env e))))))"

section \<open>Applying what was committed\<close>

definition checkpoint_failure :: "raised \<Rightarrow> bool" where
  "checkpoint_failure e \<longleftrightarrow>
     e \<in> {RedisTransient, RedisRefused, Gateway GraphLogPersistenceError, Gateway GraphLogPayloadError,
          Gateway GraphLogUnavailableError, Gateway UnexpectedGraphReplyError}"

definition record_checkpoint :: "gateway_env \<Rightarrow> group_row \<Rightarrow> bool op" where
  "record_checkpoint env row =
     catch_op
       (bind_op (graph_call (gr_graph row) (\<lambda>x. (ge_digest env x, x))) (\<lambda>digest.
          case digest of
            None \<Rightarrow> return_op False
          | Some d \<Rightarrow>
              bind_op (log_write (\<lambda>s. bind_result (record_digest_checkpoint (gr_graph row) (gr_last row) d s)
                         (\<lambda>s'. Inr ((), s')))) (\<lambda>_. return_op True)))
       (\<lambda>e. if checkpoint_failure e then Some (return_op False) else None)"

definition apply_committed :: "gateway_env \<Rightarrow> group_row \<Rightarrow> bool \<Rightarrow> group_outcome op" where
  "apply_committed env row requested =
     bind_op (catch_op
       (bind_op (apply_pending (ge_settings env) (gr_graph row) None) (\<lambda>_. return_op Applied))
       (\<lambda>e. if e = Gateway GraphUnavailableError \<or> e = Gateway GraphLogUnavailableError
            then Some (bind_op (reconcile_later (gr_graph row)) (\<lambda>_. return_op Committed_Apply_Pending))
            else None)) (\<lambda>status.
     bind_op (if requested \<and> status = Applied then record_checkpoint env row else return_op False) (\<lambda>stored.
       return_op
         \<lparr>go_graph = gr_graph row, go_first = Some (gr_first row), go_last = Some (gr_last row),
          go_status = status, go_checkpoint = checkpoint_state requested stored,
          go_checkpoint_position = (if stored then Some (gr_last row) else None)\<rparr>))"

section \<open>One graph\<close>

definition submit_locked :: "gateway_env \<Rightarrow> mutation_group \<Rightarrow> group_outcome op" where
  "submit_locked env grp =
     bind_op (stage env grp None) (\<lambda>effective.
     if effective = [] then return_op (unchanged_outcome grp)
     else bind_op (guarded env (mg_graph grp)
            (log_write (append_in_transaction (draft (mg_graph grp) effective) (mg_audit_event_id grp) None)))
            (\<lambda>row. apply_committed env row (mg_checkpoint_requested grp)))"

definition submit_group :: "gateway_env \<Rightarrow> mutation_group \<Rightarrow> group_outcome op" where
  "submit_group env grp = bind_op (gate_open (mg_graph grp)) (\<lambda>_. submit_locked env grp)"


section \<open>Several graphs\<close>

fun for_each :: "('a \<Rightarrow> 'b op) \<Rightarrow> 'a list \<Rightarrow> 'b list op" where
  "for_each f [] = return_op []"
| "for_each f (x # xs) = bind_op (f x) (\<lambda>y. bind_op (for_each f xs) (\<lambda>ys. return_op (y # ys)))"

definition reconcile_all :: "string list \<Rightarrow> unit op" where
  "reconcile_all gs = modify_op (\<lambda>w. w\<lparr>w_reconciling := w_reconciling w \<union> set gs\<rparr>)"

text \<open>\<open>appended\<close> is the dict of the committed groups by graph.\<close>

fun apply_legs_in_place ::
    "gateway_env \<Rightarrow> string \<Rightarrow> (string \<rightharpoonup> group_row) \<Rightarrow> graph_leg list \<Rightarrow> group_outcome list op" where
  "apply_legs_in_place env audit appended [] = return_op []"
| "apply_legs_in_place env audit appended (leg # rest) =
     bind_op (catch_op
       (case appended (leg_graph leg) of
          None \<Rightarrow> return_op (unchanged_outcome (as_group leg audit))
        | Some row \<Rightarrow> apply_committed env row (leg_checkpoint_requested leg))
       (\<lambda>e. if is_apply_error e
            then Some (bind_op (reconcile_all (filter (\<lambda>g. appended g \<noteq> None) (map leg_graph rest)))
                        (\<lambda>_. raise_op e))
            else None)) (\<lambda>o1.
     bind_op (apply_legs_in_place env audit appended rest) (\<lambda>os. return_op (o1 # os)))"

definition stage_legs :: "gateway_env \<Rightarrow> string \<Rightarrow> graph_leg list \<Rightarrow> primitive list list op" where
  "stage_legs env audit legs = for_each (\<lambda>leg. stage env (as_group leg audit) (Some (leg_replace leg))) legs"

definition append_set :: "group_draft list \<Rightarrow> string \<Rightarrow> group_row list op" where
  "append_set drafts audit w =
     (if append_groups drafts (Some audit) False (w_log w) = None then raise_op Bad_Value w
      else log_write (\<lambda>s. the (append_groups drafts (Some audit) False s)) w)"

definition submit_multi_locked :: "gateway_env \<Rightarrow> string \<Rightarrow> graph_leg list \<Rightarrow> multi_outcome op" where
  "submit_multi_locked env audit legs =
     bind_op (stage_legs env audit legs) (\<lambda>staged.
     let changing = filter (\<lambda>(leg, effective). effective \<noteq> []) (zip legs staged)
     in if changing = []
        then return_op (multi_outcome audit (map (\<lambda>leg. unchanged_outcome (as_group leg audit)) legs))
        else let drafts = map (\<lambda>(leg, effective). draft (leg_graph leg) effective) changing
             in bind_op (guarded env (gd_graph (hd drafts)) (append_set drafts audit)) (\<lambda>rows.
                bind_op (apply_legs_in_place env audit (map_of (map (\<lambda>row. (gr_graph row, row)) rows)) legs) (\<lambda>os.
                return_op (multi_outcome audit os))))"

definition submit_multi_graph_group ::
    "gateway_env \<Rightarrow> string \<Rightarrow> graph_leg list \<Rightarrow> bool \<Rightarrow> multi_outcome op" where
  "submit_multi_graph_group env audit legs by_swap =
     (if by_swap then raise_op (Gateway SwapNotConfiguredError)
      else let ordered = sort_key leg_graph legs
           in bind_op (for_each gate_open (map leg_graph ordered)) (\<lambda>_. submit_multi_locked env audit ordered))"

section \<open>Catching up\<close>

record apply_unit =
  au_graphs :: "string list"
  au_swap_set :: "nat option"
  au_legs :: "group_row list"

text \<open>The legs of a swap set that are not applied yet: \<^verbatim>\<open>read_unit\<close> reads one marker per leg.\<close>

fun pending_legs :: "group_row list \<Rightarrow> group_row list op" where
  "pending_legs [] = return_op []"
| "pending_legs (row # rows) =
     bind_op (log_read (read_applied_position (gr_graph row))) (\<lambda>applied.
     bind_op (pending_legs rows) (\<lambda>rest.
       return_op (if applied < gr_last row then row # rest else rest)))"

definition resolve_unit :: "gateway_env \<Rightarrow> string \<Rightarrow> apply_unit op" where
  "resolve_unit env g =
     guarded env g
       (bind_op (log_read (read_applied_position g)) (\<lambda>applied.
        bind_op (log_read (read_pending_swap_group g applied)) (\<lambda>first.
        case first of
          None \<Rightarrow> return_op \<lparr>au_graphs = [g], au_swap_set = None, au_legs = []\<rparr>
        | Some row \<Rightarrow>
            bind_op (log_read (read_swap_set (the (gr_swap row)))) (\<lambda>members.
            bind_op (pending_legs members) (\<lambda>legs.
              return_op \<lparr>au_graphs = map gr_graph legs, au_swap_set = gr_swap row, au_legs = legs\<rparr>)))))"

definition unit_attempts :: nat where
  "unit_attempts = 3"

fun with_unit_from :: "gateway_env \<Rightarrow> string \<Rightarrow> (apply_unit \<Rightarrow> 'a op) \<Rightarrow> nat \<Rightarrow> 'a op" where
  "with_unit_from env g body 0 =
     bind_op (reconcile_later g) (\<lambda>_. raise_op (Gateway GraphUnavailableError))"
| "with_unit_from env g body (Suc n) =
     bind_op (resolve_unit env g) (\<lambda>unit.
     bind_op (resolve_unit env g) (\<lambda>current.
       if set (au_graphs current) \<subseteq> set (au_graphs unit) then body current
       else with_unit_from env g body n))"

definition with_unit :: "gateway_env \<Rightarrow> string \<Rightarrow> (apply_unit \<Rightarrow> 'a op) \<Rightarrow> 'a op" where
  "with_unit env g body = with_unit_from env g body unit_attempts"

definition block_unit :: "string list \<Rightarrow> world \<Rightarrow> world" where
  "block_unit gs w =
     w\<lparr>w_blocked := w_blocked w \<union> set gs,
       w_blocked_units := (\<lambda>g. if g \<in> set gs then Some gs else w_blocked_units w g)\<rparr>"

text \<open>Without a key port a swap cannot be made: \<^verbatim>\<open>_swap_and_advance\<close> raises at once.\<close>

definition swap_unit :: "group_row list \<Rightarrow> bool op" where
  "swap_unit refs =
     (case refs of
        [] \<Rightarrow> raise_op Bad_Value
      | row # _ \<Rightarrow>
          bind_op (modify_op (block_unit (map gr_graph refs))) (\<lambda>_.
            raise_op (Gateway (GraphApplyError (gr_graph row) (Some (gr_first row))))))"

fun apply_before_swap :: "gateway_env \<Rightarrow> group_row list \<Rightarrow> unit op" where
  "apply_before_swap env [] = return_op ()"
| "apply_before_swap env (row # rows) =
     bind_op (apply_pending (ge_settings env) (gr_graph row) (Some (gr_first row))) (\<lambda>_.
       apply_before_swap env rows)"

definition apply_unit_of :: "gateway_env \<Rightarrow> apply_unit \<Rightarrow> bool op" where
  "apply_unit_of env unit =
     (if au_swap_set unit = None
      then bind_op (apply_pending (ge_settings env) (hd (au_graphs unit)) None) (\<lambda>_. return_op True)
      else bind_op (apply_before_swap env (au_legs unit)) (\<lambda>_. swap_unit (au_legs unit)))"

definition standing_of :: "string \<Rightarrow> catch_up_result op" where
  "standing_of g =
     bind_op (log_read (read_applied_position g)) (\<lambda>applied.
     bind_op (log_read (last_position g)) (\<lambda>last.
       return_op \<lparr>cr_graph = g, cr_applied = applied, cr_last = last, cr_caught_up = (applied = last)\<rparr>))"

definition catch_up_unit :: "gateway_env \<Rightarrow> string \<Rightarrow> bool \<Rightarrow> apply_unit \<Rightarrow> catch_up_result op" where
  "catch_up_unit env g honour_gate unit =
     bind_op (if honour_gate then gate_open g else return_op ()) (\<lambda>_.
     bind_op (catch_op (apply_unit_of env unit) (\<lambda>e.
       if e = Gateway GraphUnavailableError
       then Some (bind_op (reconcile_all (au_graphs unit)) (\<lambda>_. return_op False)) else None)) (\<lambda>_.
       standing_of g))"

definition catch_up_from :: "gateway_env \<Rightarrow> string \<Rightarrow> bool \<Rightarrow> catch_up_result op" where
  "catch_up_from env g honour_gate = with_unit env g (catch_up_unit env g honour_gate)"

definition catch_up :: "gateway_env \<Rightarrow> string \<Rightarrow> catch_up_result op" where
  "catch_up env g = bind_op (gate_open g) (\<lambda>_. catch_up_from env g True)"

fun recover_each :: "gateway_env \<Rightarrow> string list \<Rightarrow> recovery_result op" where
  "recover_each env [] = return_op \<lparr>rr_recovered = [], rr_gated = []\<rparr>"
| "recover_each env (g # gs) =
     bind_op (catch_op (bind_op (catch_up env g) (\<lambda>r. return_op (cr_caught_up r)))
       (\<lambda>e. if is_apply_error e \<or> e = Gateway GraphLogUnavailableError then Some (return_op False) else None))
       (\<lambda>finished.
     bind_op (recover_each env gs) (\<lambda>rest.
       return_op (if finished then rest\<lparr>rr_recovered := g # rr_recovered rest\<rparr>
                  else rest\<lparr>rr_gated := g # rr_gated rest\<rparr>)))"

definition recover :: "gateway_env \<Rightarrow> recovery_result op" where
  "recover env = bind_op (log_read graphs_with_pending_entries) (\<lambda>gs. recover_each env gs)"

section \<open>Reads and the legacy stamp\<close>

definition is_caught_up :: "string \<Rightarrow> bool op" where
  "is_caught_up g w =
     (if gate_closed (w_gate w) g then return_op False w
      else bind_op (log_read (read_applied_position g)) (\<lambda>applied.
           bind_op (log_read (last_position g)) (\<lambda>last. return_op (applied = last))) w)"

definition read_log_position :: "gateway_env \<Rightarrow> string \<Rightarrow> nat op" where
  "read_log_position env g = bind_op (gate_open g) (\<lambda>_. read_last_position env g)"

definition sanitize_redis :: "raised \<Rightarrow> 'a op option" where
  "sanitize_redis e =
     (if e = RedisTransient \<or> e = RedisRefused then Some (raise_op (Gateway GraphUnavailableError)) else None)"

definition gateway_read_persisted_elements :: "gateway_env \<Rightarrow> string \<Rightarrow> persisted_elements op" where
  "gateway_read_persisted_elements env g =
     bind_op (gate_open g) (\<lambda>_.
     bind_op (read_last_position env g) (\<lambda>position.
       catch_op (bind_op (graph_call g (\<lambda>x. (Scan.read_persisted_elements (ge_layout env x) position, x)))
                  (\<lambda>found. case found of None \<Rightarrow> raise_op Hangs | Some e \<Rightarrow> return_op e))
         sanitize_redis))"

record backfill_outcome =
  bo_applied :: bool
  bo_stamped :: nat
  bo_skipped :: nat

definition backfill_edge_identity :: "gateway_env \<Rightarrow> string \<Rightarrow> string option \<Rightarrow> backfill_outcome op" where
  "backfill_edge_identity env g audit =
     bind_op (graph_call g (\<lambda>x. (scan_unidentified_edges (ge_layout env x) scan_chunk_rows, x))) (\<lambda>found.
     case found of
       None \<Rightarrow> raise_op Hangs
     | Some (edges, skipped) \<Rightarrow>
         if edges = [] then return_op \<lparr>bo_applied = False, bo_stamped = 0, bo_skipped = skipped\<rparr>
         else if \<not> list_all buildable (map (\<lambda>(t, s, d). legacy_edge_stamp t s d) edges) then raise_op Bad_Value
         else bind_op (submit_group env
                \<lparr>mg_graph = g, mg_audit_event_id = audit,
                 mg_primitives = map (\<lambda>(t, s, d). legacy_edge_stamp t s d) edges,
                 mg_preconditions = [], mg_checkpoint_requested = False\<rparr>) (\<lambda>_.
              return_op \<lparr>bo_applied = True, bo_stamped = length edges, bo_skipped = skipped\<rparr>))"

definition stamp_legacy_edge_identity :: "gateway_env \<Rightarrow> string \<Rightarrow> string option \<Rightarrow> backfill_outcome op" where
  "stamp_legacy_edge_identity env g audit =
     bind_op (gate_open g) (\<lambda>_.
     bind_op (is_caught_up g) (\<lambda>current.
     bind_op (if current then return_op () else bind_op (catch_up env g) (\<lambda>_. return_op ())) (\<lambda>_.
       catch_op (backfill_edge_identity env g audit) sanitize_redis)))"

end
