(* ===== verification/Gateway_Laws.thy ===== *)
theory Gateway_Laws
  imports Gateway "HOL-Library.Sublist"
begin

text \<open>
  What gateway operations keep, whatever the environment answers. \<open>preserves P m Q\<close>: from a world with
  \<open>P\<close>, the operation \<open>m\<close> ends in a world with \<open>P\<close>, also when it raises, and what it returns satisfies
  \<open>Q\<close>. The locales name what a property of worlds has to survive for all operations to keep it: staging
  and catching up need \<open>staging_invariant\<close>, committing writes need \<open>commit_invariant\<close>.
\<close>

section \<open>The calculus\<close>

named_theorems keep \<open>rules for \<open>preserves\<close>\<close>

definition preserves :: "(world \<Rightarrow> bool) \<Rightarrow> 'a op \<Rightarrow> ('a \<Rightarrow> bool) \<Rightarrow> bool" where
  "preserves P m Q \<longleftrightarrow> (\<forall>w r w'. P w \<longrightarrow> m w = (r, w') \<longrightarrow> P w' \<and> (\<forall>x. r = Inr x \<longrightarrow> Q x))"

lemma preservesI: "(\<And>w r w'. P w \<Longrightarrow> m w = (r, w') \<Longrightarrow> P w' \<and> (\<forall>x. r = Inr x \<longrightarrow> Q x)) \<Longrightarrow> preserves P m Q"
  by (simp add: preserves_def)

lemma preservesD: "preserves P m Q \<Longrightarrow> P w \<Longrightarrow> m w = (r, w') \<Longrightarrow> P w'"
  by (simp add: preserves_def)

lemma preservesR: "preserves P m Q \<Longrightarrow> P w \<Longrightarrow> m w = (Inr x, w') \<Longrightarrow> Q x"
  by (simp add: preserves_def)

lemma preserves_weaken: "preserves P m Q \<Longrightarrow> (\<And>x. Q x \<Longrightarrow> R x) \<Longrightarrow> preserves P m R"
  by (simp add: preserves_def)

lemma preserves_return [keep]: "Q x \<Longrightarrow> preserves P (return_op x) Q"
  by (simp add: preserves_def)

lemma preserves_raise [keep]: "preserves P (raise_op e) Q"
  by (simp add: preserves_def)

lemma preserves_lift [keep]: "(\<And>x. r = Inr x \<Longrightarrow> Q x) \<Longrightarrow> preserves P (lift_result r) Q"
  by (cases r) (auto simp: preserves_def lift_result_def)

lemma preserves_bind: "preserves P m R \<Longrightarrow> (\<And>x. R x \<Longrightarrow> preserves P (f x) Q) \<Longrightarrow> preserves P (bind_op m f) Q"
proof (rule preservesI)
  fix w r w'
  assume m: "preserves P m R" and f: "\<And>x. R x \<Longrightarrow> preserves P (f x) Q" and w: "P w" "bind_op m f w = (r, w')"
  obtain r1 w1 where run: "m w = (r1, w1)" by (cases "m w")
  show "P w' \<and> (\<forall>x. r = Inr x \<longrightarrow> Q x)"
  proof (cases r1)
    case (Inl e)
    with w run have "r = Inl e" "w' = w1" by (auto simp: bind_op_def)
    with preservesD [OF m w(1) run] show ?thesis by simp
  next
    case (Inr y)
    with w run have "f y w1 = (r, w')" by (simp add: bind_op_def)
    moreover have "P w1" "R y" using preservesD [OF m w(1) run] preservesR [OF m w(1)] run Inr by auto
    ultimately show ?thesis using f [of y] unfolding preserves_def by blast
  qed
qed

lemma preserves_bind' [keep]: "preserves P m (\<lambda>_. True) \<Longrightarrow> (\<And>x. preserves P (f x) Q) \<Longrightarrow> preserves P (bind_op m f) Q"
  by (rule preserves_bind)

lemma preserves_catch [keep]:
  assumes "preserves P m Q" "\<And>e h. handler e = Some h \<Longrightarrow> preserves P h Q"
  shows "preserves P (catch_op m handler) Q"
proof (rule preservesI)
  fix w r w'
  assume w: "P w" "catch_op m handler w = (r, w')"
  obtain r1 w1 where run: "m w = (r1, w1)" by (cases "m w")
  note P1 = preservesD [OF assms(1) w(1) run]
  show "P w' \<and> (\<forall>x. r = Inr x \<longrightarrow> Q x)"
  proof (cases r1)
    case (Inr y)
    with w run preservesR [OF assms(1) w(1)] P1 show ?thesis by (auto simp: catch_op_def)
  next
    case (Inl e)
    show ?thesis
    proof (cases "handler e")
      case None
      with Inl w run P1 show ?thesis by (auto simp: catch_op_def)
    next
      case (Some h)
      with Inl w run have "h w1 = (r, w')" by (simp add: catch_op_def)
      with assms(2) [OF Some] P1 show ?thesis unfolding preserves_def by blast
    qed
  qed
qed

lemma preserves_guarded_op:
  "(\<And>w. P w \<Longrightarrow> settings_ok (ge_settings env)) \<Longrightarrow> preserves P m Q \<Longrightarrow> preserves P (guarded env g m) Q"
proof (rule preservesI)
  fix w r w'
  assume c: "\<And>w. P w \<Longrightarrow> settings_ok (ge_settings env)" and m: "preserves P m Q" and w: "P w" "guarded env g m w = (r, w')"
  have step: "P t \<Longrightarrow> P (snd (m t))" for t using m unfolding preserves_def by (metis prod.collapse)
  from guard_call_returned [of "ge_settings env" P m, OF c [OF w(1)] step w(1) w(2) [unfolded guarded_def]]
  obtain t q where "P t" "m t = (q, w')" "r = (case q of Inr x \<Rightarrow> Inr x | Inl e \<Rightarrow> Inl (sanitized g None e))"
    by blast
  with m show "P w' \<and> (\<forall>x. r = Inr x \<longrightarrow> Q x)" unfolding preserves_def by (cases q) auto
qed

lemma preserves_for_each [keep]:
  "(\<And>x. x \<in> set xs \<Longrightarrow> preserves P (f x) Q) \<Longrightarrow> preserves P (for_each f xs) (\<lambda>ys. length ys = length xs \<and> list_all Q ys)"
  by (induction xs) (auto intro!: preserves_bind [where R = Q] preserves_return preserves_bind
      [where R = "\<lambda>ys. length ys = length zs \<and> list_all Q ys" for zs])

section \<open>What is staged\<close>

lemma expand_leg_added:
  assumes "expand_leg g lay grp replace = Some e"
  shows "\<exists>added. mg_primitives e = added @ mg_primitives grp \<and> (\<forall>p \<in> set added. prim_props p = [])
    \<and> mg_graph e = mg_graph grp"
proof -
  have plan: "prim_props p = []" if "p \<in> set (fst (edge_plan ds w x)) \<union> set (snd (edge_plan ds w x))" for p ds w x
  proof -
    obtain t s d i names where x: "x = ((t, s, d, i), names)" by (metis prod.exhaust)
    from that show ?thesis by (auto simp: x legacy_edge_stamp_def Let_def split: if_splits)
  qed
  have "\<forall>p \<in> set (replacement live ps). prim_props p = []" for live ps
  proof
    fix p
    assume "p \<in> set (replacement live ps)"
    then consider ds w x where "p \<in> set (fst (edge_plan ds w x)) \<union> set (snd (edge_plan ds w x))"
      | k :: nodekey where "p = DeleteNode (fst k) (snd k)"
      unfolding replacement_def Let_def set_append set_concat set_map by blast
    then show "prim_props p = []" using plan by cases auto
  qed
  moreover have "prim_props (legacy_edge_stamp t s d) = []" for t s d by (simp add: legacy_edge_stamp_def)
  ultimately show ?thesis
    using assms by (auto simp: expand_leg_def split: option.splits if_splits)
qed

lemma walk_subseq: "walk n ps ov = Inr kept \<Longrightarrow> subseq kept ps"
proof (induction n ps ov arbitrary: kept rule: walk.induct)
  case (2 n p ps ov)
  then obtain ov' changed rest where "ov_apply n p ov = Inr (ov', changed)" "walk (Suc n) ps ov' = Inr rest"
    "kept = (if changed then p # rest else rest)"
    by (auto simp: bind_result_Inr)
  moreover from this 2(1) have "subseq rest ps" by blast
  ultimately show ?case by auto
qed simp

lemma select_effective_subseq: "select_effective_primitives g es ps n = Inr kept \<Longrightarrow> subseq kept ps"
  by (simp add: select_effective_primitives_def walk_subseq)

section \<open>What staging and catching up rest on\<close>

locale staging_invariant =
  fixes P :: "world \<Rightarrow> bool" and env :: gateway_env
  assumes settings: "P w \<Longrightarrow> settings_ok (ge_settings env)"
    and memory: "P w \<Longrightarrow> memory_only w w' \<Longrightarrow> P w'"
    and pending: "P w \<Longrightarrow> apply_pending (ge_settings env) g before w = (r, w') \<Longrightarrow> P w'"
begin

lemma preserves_guarded [keep]: "preserves P m Q \<Longrightarrow> preserves P (guarded env g m) Q"
  using settings by (rule preserves_guarded_op)

lemma preserves_memory:
  "(\<And>w r w'. m w = (r, w') \<Longrightarrow> memory_only w w' \<and> (\<forall>x. r = Inr x \<longrightarrow> Q x)) \<Longrightarrow> preserves P m Q"
  using memory unfolding preserves_def by blast

lemma preserves_log_read [keep]: "preserves P (log_read select) (\<lambda>_. True)"
  by (rule preserves_memory) (auto dest: log_read_result(1) outcomes_memory)

lemma preserves_graph_read:
  assumes "\<And>x. Q (f x)"
  shows "preserves P (graph_call g (\<lambda>x. (f x, x))) Q"
proof (rule preserves_memory)
  fix w r w'
  assume run: "graph_call g (\<lambda>x. (f x, x)) w = (r, w')"
  obtain o1 v where n: "next_outcome w = (o1, v)" by (cases "next_outcome w")
  have "memory_only w v" using next_outcome_only [OF n] outcomes_memory by blast
  with run n show "memory_only w w' \<and> (\<forall>x. r = Inr x \<longrightarrow> Q x)"
    by (cases o1) (auto simp: graph_call_def Let_def memory_only_def assms simp del: next_outcome.simps)
qed

lemma preserves_modify [keep]: "(\<And>w. memory_only w (f w)) \<Longrightarrow> preserves P (modify_op f) (\<lambda>_. True)"
  by (rule preserves_memory) (auto simp: modify_op_def)

lemma preserves_reconcile [keep]: "preserves P (reconcile_later g) (\<lambda>_. True)" "preserves P (reconcile_all gs) (\<lambda>_. True)"
  by (simp_all add: reconcile_later_def reconcile_all_def preserves_modify memory_only_def)

lemma preserves_pending [keep]: "preserves P (apply_pending (ge_settings env) g before) (\<lambda>_. True)"
  using pending unfolding preserves_def by blast

lemma preserves_gate [keep]: "preserves P (gate_open g) (\<lambda>_. True)"
  by (simp add: preserves_def gate_open_def)

lemma preserves_not_blocked [keep]: "preserves P (require_not_blocked g) (\<lambda>_. True)"
  by (simp add: preserves_def require_not_blocked_def)

lemma preserves_last_position [keep]: "preserves P (read_last_position env g) (\<lambda>_. True)"
  unfolding read_last_position_def by (intro keep)

lemma preserves_refuse_swap [keep]: "preserves P (refuse_pending_swap env g) (\<lambda>_. True)"
  unfolding refuse_pending_swap_def by (intro keep) (auto intro!: keep)

lemma preserves_catch_up_before [keep]: "preserves P (catch_up_before_write env g) (\<lambda>_. True)"
  unfolding catch_up_before_write_def by (intro keep) (auto intro!: keep split: if_splits)

lemma preserves_preconditions [keep]: "preserves P (check_preconditions env g ns) (\<lambda>_. True)"
  by (induction ns) (auto intro!: keep)

lemma preserves_expanded:
  assumes "list_all wf_primitive (mg_primitives grp)" "\<forall>p \<in> set (mg_primitives grp). listed_names p"
  shows "preserves P (expanded env grp replace) (\<lambda>e. list_all sendable (mg_primitives e) \<and> mg_graph e = mg_graph grp)"
proof -
  let ?R = "\<lambda>e. mg_graph e = mg_graph grp \<and> (\<exists>added. mg_primitives e = added @ mg_primitives grp
    \<and> list_all wf_primitive added)"
  have found: "preserves P (graph_call (mg_graph grp) (\<lambda>x. (expand_leg x (ge_layout env x) grp replace, x)))
      (\<lambda>found. \<forall>e. found = Some e \<longrightarrow> mg_graph e = mg_graph grp
        \<and> (\<exists>added. mg_primitives e = added @ mg_primitives grp \<and> (\<forall>p \<in> set added. prim_props p = [])))"
    using expand_leg_added by (intro preserves_graph_read) blast
  have read: "preserves P (guarded env (mg_graph grp)
       (bind_op (graph_call (mg_graph grp) (\<lambda>x. (expand_leg x (ge_layout env x) grp replace, x))) (\<lambda>found.
          case found of
            None \<Rightarrow> raise_op Hangs
          | Some e \<Rightarrow>
              if list_all buildable (take (added_count grp e) (mg_primitives e)) then return_op e
              else raise_op Bad_Value))) ?R"
  proof (intro preserves_guarded preserves_bind [OF found])
    fix found :: "mutation_group option"
    assume f: "\<forall>e. found = Some e \<longrightarrow> mg_graph e = mg_graph grp
        \<and> (\<exists>added. mg_primitives e = added @ mg_primitives grp \<and> (\<forall>p \<in> set added. prim_props p = []))"
    show "preserves P (case found of None \<Rightarrow> raise_op Hangs
          | Some e \<Rightarrow> if list_all buildable (take (added_count grp e) (mg_primitives e)) then return_op e
              else raise_op Bad_Value) ?R"
    proof (cases found)
      case (Some e)
      with f obtain added where e: "mg_graph e = mg_graph grp" "mg_primitives e = added @ mg_primitives grp"
        "\<forall>p \<in> set added. prim_props p = []" by blast
      then have "added_count grp e = length added" by (simp add: added_count_def)
      then have "list_all buildable (take (added_count grp e) (mg_primitives e)) \<Longrightarrow> list_all wf_primitive added"
        using e by (auto simp: list_all_iff buildable_def wf_primitive_def dict_ok_def)
      with Some e show ?thesis by (auto intro!: preserves_return preserves_raise)
    qed (simp add: preserves_raise)
  qed
  show ?thesis
    unfolding expanded_def
  proof (rule preserves_bind [OF read])
    fix e :: mutation_group
    assume e: "?R e"
    then obtain added where added: "mg_primitives e = added @ mg_primitives grp" "list_all wf_primitive added"
      by blast
    have all: "list_all sendable (mg_primitives e)" if "\<forall>p \<in> set added. listed_names p"
      using that added assms by (auto simp: list_all_iff sendable_def)
    show "preserves P (if added_count grp e \<noteq> 0 then bind_op (lift_result (validate_group e)) (\<lambda>_. return_op e)
      else return_op e) (\<lambda>e. list_all sendable (mg_primitives e) \<and> mg_graph e = mg_graph grp)"
    proof (cases "added_count grp e = 0")
      case True
      with added(1) have "added = []" by (simp add: added_count_def)
      with True all e show ?thesis by (simp add: preserves_return)
    next
      case False
      have "preserves P (lift_result (validate_group e)) (\<lambda>_. \<forall>p \<in> set (mg_primitives e). listed_names p)"
        by (rule preserves_lift) (simp add: validate_group_Inr)
      then have "preserves P (bind_op (lift_result (validate_group e)) (\<lambda>_. return_op e))
          (\<lambda>e. list_all sendable (mg_primitives e) \<and> mg_graph e = mg_graph grp)"
        using added(1) all e by (auto intro!: preserves_bind preserves_return)
      with False show ?thesis by simp
    qed
  qed
qed

lemma preserves_select:
  "list_all sendable (mg_primitives grp) \<Longrightarrow>
    preserves P (select_effective env grp) (\<lambda>ps. list_all sendable ps \<and> subseq ps (mg_primitives grp))"
proof -
  assume s: "list_all sendable (mg_primitives grp)"
  let ?Q = "\<lambda>r :: (gateway_error, primitive list) result.
    \<forall>ps. r = Inr ps \<longrightarrow> list_all sendable ps \<and> subseq ps (mg_primitives grp)"
  have "preserves P (graph_call (mg_graph grp) (\<lambda>x. (select_effective_primitives x (ge_report env (g_edges x))
      (mg_primitives grp) (nat (gs_batch_size (ge_settings env))), x))) ?Q"
    using s by (intro preserves_graph_read)
      (auto simp: list_all_iff dest!: select_effective_subseq dest: list_emb_set)
  then show ?thesis
    unfolding select_effective_def by (intro preserves_guarded preserves_bind [where R = ?Q] preserves_lift) auto
qed

lemma preserves_stage:
  assumes "list_all wf_primitive (mg_primitives grp)"
  shows "preserves P (stage env grp replace)
    (\<lambda>ps. list_all sendable ps \<and> (replace = None \<longrightarrow> subseq ps (mg_primitives grp)))"
proof -
  let ?named = "\<lambda>_ :: unit. \<forall>p \<in> set (mg_primitives grp). listed_names p"
  have valid: "preserves P (lift_result (validate_group grp)) ?named"
    by (rule preserves_lift) (simp add: validate_group_Inr)
  have "preserves P (case replace of None \<Rightarrow> return_op grp | Some r \<Rightarrow> expanded env grp r)
      (\<lambda>e. list_all sendable (mg_primitives e) \<and> (replace = None \<longrightarrow> e = grp))" if "?named ()"
    using assms that preserves_weaken [OF preserves_expanded [OF assms that]]
    by (auto simp: list_all_iff sendable_def intro!: preserves_return split: option.split)
  moreover have "preserves P (select_effective env e)
      (\<lambda>ps. list_all sendable ps \<and> (replace = None \<longrightarrow> subseq ps (mg_primitives grp)))"
    if "list_all sendable (mg_primitives e) \<and> (replace = None \<longrightarrow> e = grp)" for e
    using that by (auto intro: preserves_weaken [OF preserves_select])
  ultimately have "?named () \<Longrightarrow> preserves P (bind_op (case replace of None \<Rightarrow> return_op grp | Some r \<Rightarrow> expanded env grp r)
      (select_effective env)) (\<lambda>ps. list_all sendable ps \<and> (replace = None \<longrightarrow> subseq ps (mg_primitives grp)))"
    by (rule preserves_bind)
  then show ?thesis
    unfolding stage_def
    by (rule preserves_bind' [OF preserves_gate preserves_bind' [OF preserves_not_blocked
        preserves_bind' [OF preserves_catch_up_before preserves_bind [OF valid
          preserves_bind' [OF preserves_preconditions]]]]])
qed

lemma preserves_stage_legs:
  assumes "\<forall>leg \<in> set legs. list_all wf_primitive (leg_primitives leg)"
  shows "preserves P (stage_legs env audit legs) (\<lambda>staged. length staged = length legs
      \<and> list_all (list_all sendable) staged)"
  unfolding stage_legs_def using assms
  by (intro preserves_for_each preserves_weaken [OF preserves_stage]) (simp_all add: as_group_def)

lemma preserves_pending_legs [keep]: "preserves P (pending_legs rows) (\<lambda>_. True)"
  by (induction rows) (auto intro!: keep)

lemma preserves_resolve [keep]: "preserves P (resolve_unit env g) (\<lambda>_. True)"
  unfolding resolve_unit_def by (intro keep) (auto intro!: keep split: option.split)

lemma preserves_with_unit_from: "(\<And>u. preserves P (body u) Q) \<Longrightarrow> preserves P (with_unit_from env g body n) Q"
  by (induction n) (auto intro!: keep)

lemma preserves_before_swap [keep]: "preserves P (apply_before_swap env rows) (\<lambda>_. True)"
  by (induction rows) (auto intro!: keep)

lemma preserves_swap [keep]: "preserves P (swap_unit rows) (\<lambda>_. True)"
  by (cases rows) (auto simp: swap_unit_def block_unit_def memory_only_def intro!: keep)

lemma preserves_apply_unit [keep]: "preserves P (apply_unit_of env u) (\<lambda>_. True)"
  unfolding apply_unit_of_def by (auto intro!: keep)

lemma preserves_standing [keep]: "preserves P (standing_of g) (\<lambda>_. True)"
  unfolding standing_of_def by (intro keep) simp

lemma preserves_catch_up_unit: "preserves P (catch_up_unit env g honour u) (\<lambda>_. True)"
  unfolding catch_up_unit_def by (auto intro!: keep split: if_splits)

lemma preserves_catch_up_from [keep]: "preserves P (catch_up_from env g honour) (\<lambda>_. True)"
  unfolding catch_up_from_def with_unit_def by (rule preserves_with_unit_from) (rule preserves_catch_up_unit)

lemma preserves_catch_up [keep]: "preserves P (catch_up env g) (\<lambda>_. True)"
  unfolding catch_up_def by (intro keep)

lemma preserves_recover_each [keep]: "preserves P (recover_each env gs) (\<lambda>_. True)"
  by (induction gs) (auto intro!: keep split: if_splits)

lemma preserves_recover [keep]: "preserves P (recover env) (\<lambda>_. True)"
  unfolding recover_def by (intro keep)

lemma preserves_is_caught_up [keep]: "preserves P (is_caught_up g) (\<lambda>_. True)"
proof -
  have "preserves P (\<lambda>w. return_op False w) (\<lambda>_. True)" by (simp add: preserves_def)
  moreover have "preserves P (bind_op (log_read (read_applied_position g)) (\<lambda>applied.
      bind_op (log_read (last_position g)) (\<lambda>last. return_op (applied = last)))) (\<lambda>_. True)"
    by (intro keep) simp
  ultimately show ?thesis by (simp add: preserves_def is_caught_up_def)
qed

lemma preserves_read_position: "preserves P (read_log_position env g) (\<lambda>_. True)"
  unfolding read_log_position_def by (intro keep)

lemma preserves_read_elements: "preserves P (gateway_read_persisted_elements env g) (\<lambda>_. True)"
proof -
  have "preserves P (graph_call g (\<lambda>x. (Scan.read_persisted_elements (ge_layout env x) position, x))) (\<lambda>_. True)"
    for position
    by (intro preserves_graph_read) simp
  then show ?thesis
    unfolding gateway_read_persisted_elements_def
    by (auto intro!: keep simp: sanitize_redis_def split: option.split if_splits)
qed

end



section \<open>What writing rests on\<close>

locale applying_invariant = staging_invariant +
  assumes checkpoint: "P w \<Longrightarrow> log_write (\<lambda>s. bind_result (record_digest_checkpoint g p d s) (\<lambda>s'. Inr ((), s'))) w
      = (u, w') \<Longrightarrow> P w'"
begin

lemma preserves_checkpoint [keep]: "preserves P (record_checkpoint env row) (\<lambda>_. True)"
proof -
  have "preserves P (log_write (\<lambda>s. bind_result (record_digest_checkpoint g p d s) (\<lambda>s'. Inr ((), s')))) (\<lambda>_. True)"
    for g p d
    using checkpoint unfolding preserves_def by blast
  moreover have "preserves P (graph_call g (\<lambda>x. (ge_digest env x, x))) (\<lambda>_. True)" for g
    by (intro preserves_graph_read) simp
  ultimately show ?thesis
    unfolding record_checkpoint_def by (auto intro!: keep split: option.split if_splits)
qed

lemma preserves_committed [keep]: "preserves P (apply_committed env row requested) (\<lambda>_. True)"
  unfolding apply_committed_def by (auto intro!: keep split: if_splits)

lemma preserves_apply_legs [keep]: "preserves P (apply_legs_in_place env audit appended legs) (\<lambda>_. True)"
  by (induction legs) (auto intro!: keep split: option.split if_splits)

end

locale commit_invariant = applying_invariant +
  assumes append: "P w \<Longrightarrow> list_all sendable ps \<Longrightarrow>
      log_write (append_in_transaction (draft g ps) audit None) w = (r, w') \<Longrightarrow> P w'"
    and append_set: "P w \<Longrightarrow> \<forall>(g, ps) \<in> set drafts. list_all sendable ps \<Longrightarrow>
      append_set (map (\<lambda>(g, ps). draft g ps) drafts) a w = (s, w') \<Longrightarrow> P w'"
begin

lemma preserves_submit_locked [keep]:
  assumes "list_all wf_primitive (mg_primitives grp)"
  shows "preserves P (submit_locked env grp) (\<lambda>_. True)"
proof -
  have "preserves P (log_write (append_in_transaction (draft g ps) audit None)) (\<lambda>_. True)"
    if "list_all sendable ps" for g ps audit
    using append that unfolding preserves_def by blast
  then show ?thesis
    unfolding submit_locked_def
    by (auto intro!: preserves_bind [OF preserves_stage [OF assms]] keep)
qed

lemma preserves_submit [keep]:
  "list_all wf_primitive (mg_primitives grp) \<Longrightarrow> preserves P (submit_group env grp) (\<lambda>_. True)"
  unfolding submit_group_def by (intro keep)

lemma preserves_append_set:
  assumes "\<forall>(leg, ps) \<in> set changing. list_all sendable ps"
  shows "preserves P (Gateway.append_set (map (\<lambda>(leg, ps). draft (leg_graph leg) ps) changing) audit) (\<lambda>_. True)"
proof -
  have "map (\<lambda>(leg, ps). draft (leg_graph leg) ps) changing
      = map (\<lambda>(g, ps). draft g ps) (map (\<lambda>(leg, ps). (leg_graph leg, ps)) changing)"
    by (simp add: comp_def case_prod_unfold)
  moreover have "\<forall>(g, ps) \<in> set (map (\<lambda>(leg, ps). (leg_graph leg, ps)) changing). list_all sendable ps"
    using assms by auto
  ultimately show ?thesis using append_set unfolding preserves_def by metis
qed

lemma preserves_submit_multi_locked [keep]:
  assumes "\<forall>leg \<in> set legs. list_all wf_primitive (leg_primitives leg)"
  shows "preserves P (submit_multi_locked env audit legs) (\<lambda>_. True)"
proof -
  note staged = preserves_stage_legs [OF assms]
  have "\<forall>(leg, ps) \<in> set (filter (\<lambda>(leg, effective). effective \<noteq> []) (zip legs staged)). list_all sendable ps"
    if "list_all (list_all sendable) staged" for staged
    using that by (auto simp: list_all_iff dest: set_zip_rightD)
  then show ?thesis
    unfolding submit_multi_locked_def Let_def
    by (intro preserves_bind [OF staged]) (auto intro!: keep preserves_append_set)
qed

lemma preserves_submit_multi [keep]:
  assumes "\<forall>leg \<in> set legs. list_all wf_primitive (leg_primitives leg)"
  shows "preserves P (submit_multi_graph_group env audit legs by_swap) (\<lambda>_. True)"
  unfolding submit_multi_graph_group_def Let_def using assms
  by (auto intro!: keep preserves_bind [OF preserves_for_each [where Q = "\<lambda>_. True"]])

lemma preserves_stamp [keep]: "preserves P (stamp_legacy_edge_identity env g audit) (\<lambda>_. True)"
proof -
  have found: "preserves P (graph_call g (\<lambda>x. (scan_unidentified_edges (ge_layout env x) scan_chunk_rows, x)))
      (\<lambda>_. True)"
    by (intro preserves_graph_read) simp
  have wf: "list_all wf_primitive (map (\<lambda>(t, s, d). legacy_edge_stamp t s d) edges)"
    if "list_all buildable (map (\<lambda>(t, s, d). legacy_edge_stamp t s d) edges)" for edges
    using that by (auto simp: list_all_iff buildable_def wf_primitive_def dict_ok_def legacy_edge_stamp_def)
  have "preserves P (backfill_edge_identity env g audit) (\<lambda>_. True)"
    unfolding backfill_edge_identity_def
    by (rule preserves_bind [OF found]) (auto intro!: keep wf split: option.split)
  then show ?thesis
    unfolding stamp_legacy_edge_identity_def by (auto intro!: keep simp: sanitize_redis_def split: if_splits)
qed

end

end
