(* ===== verification/Gateway_Safety.thy ===== *)
theory Gateway_Safety
  imports Gateway_Laws
begin

text \<open>
  What every gateway operation keeps, whatever the environment answers: the graphs stay in step with
  the log, and the log is only ever extended. Both are instances of the locales of \<open>Gateway_Laws\<close>; the
  runs of a gateway are sequences of calls, restarts and environment changes.
\<close>

section \<open>Commits\<close>

lemma log_write_cases:
  assumes "log_write work w = (r, w')"
  obtains v where "outcomes_only w v" "w' = v" "\<exists>e. r = Inl (Gateway e)"
      "answered w \<Longrightarrow> \<exists>e. work (w_log w) = Inl e \<and> r = Inl (Gateway e)"
  | v x s where "outcomes_only w v" "work (w_log w) = Inr (x, s)" "w' = v\<lparr>w_log := s\<rparr>"
      "r = Inr x \<or> r = Inl (Gateway GraphLogPersistenceError)" "answered w \<Longrightarrow> r = Inr x"
proof -
  obtain f v where n: "next_outcome w = (f, v)" by (cases "next_outcome w")
  note only = next_outcome_only [OF n]
  then have log: "w_log v = w_log w" by (auto simp: outcomes_only_def)
  note [simp del] = next_outcome.simps
  show thesis
  proof (cases "f \<noteq> Unreachable \<and> f \<noteq> Refused \<and> (\<exists>x s. work (w_log w) = Inr (x, s))")
    case True
    then obtain x s where "work (w_log w) = Inr (x, s)" by blast
    with True assms n log only show thesis
      by (intro that(2) [of v x s]) (cases f; auto simp: log_write_def)+
  next
    case False
    then consider "f = Unreachable" | "f = Refused" | e where "work (w_log w) = Inl e"
      by (cases "work (w_log w)") auto
    then show thesis
    proof cases
      case 3
      with assms n log only show thesis
        by (intro that(1) [of v]) (cases f; auto simp: log_write_def)+
    next
      case 2
      with assms n log only show thesis
        by (intro that(1) [of v]) (cases "work (w_log w)"; auto simp: log_write_def)+
    next
      case 1
      with assms n log only show thesis by (intro that(1) [of v]) (auto simp: log_write_def)
    qed
  qed
qed

lemma append_inserts:
  "append_in_transaction (draft g ps) audit swap s = Inr (row, s') \<Longrightarrow>
     insert_group g (map encode_primitive ps) audit swap s = Inr (row, s')"
  by (auto simp: append_in_transaction_def draft_def bind_result_Inr)

lemma decode_rows:
  assumes "list_all sendable ps"
  shows "entry_prims (entry_rows g n gid (map encode_primitive ps)) = ps"
    and "\<forall>en \<in> set (entry_rows g n gid (map encode_primitive ps)). \<exists>p. decode_entry en = Inr p \<and> sendable p"
proof -
  have dec: "decode_entry (recorded g k gid (encode_primitive p)) = Inr p" if "sendable p" for p k
    using that by (intro decode_encode) (simp add: sendable_def wf_primitive_def)
  show "entry_prims (entry_rows g n gid (map encode_primitive ps)) = ps"
    using assms by (induction ps arbitrary: n) (simp_all add: entry_prims_def entry_prim_def dec)
  show "\<forall>en \<in> set (entry_rows g n gid (map encode_primitive ps)). \<exists>p. decode_entry en = Inr p \<and> sendable p"
    using assms by (induction ps arbitrary: n) (auto simp: dec)
qed

lemma commit_log:
  assumes "append_in_transaction (draft g ps) audit swap s = Inr (row, s')"
  shows "ls_entries s' = ls_entries s @ entry_rows g (Suc (last_position g s)) (ls_next s) (map encode_primitive ps)"
    and "ls_groups s' = ls_groups s @ [row]" "ls_markers s' = ls_markers s" "ls_checkpoints s' = ls_checkpoints s"
    and "row = \<lparr>gr_id = ls_next s, gr_graph = g, gr_first = Suc (last_position g s),
      gr_last = last_position g s + length ps, gr_audit = audit, gr_swap = swap\<rparr>"
  using append_inserts [OF assms] by (auto simp: insert_group_def Let_def split: if_splits)

lemma commit_world_ok:
  assumes "world_ok base w" "list_all sendable ps"
    and "append_in_transaction (draft g ps) audit swap (w_log w) = Inr (row, s)"
  shows "world_ok base (w\<lparr>w_log := s\<rparr>)"
proof -
  note ins = append_inserts [OF assms(3)]
  note rows = decode_rows [OF assms(2)]
  from assms(1) have ok: "log_ok (w_log w)" "log_sendable (w_log w)" "in_step base h w" for h
    by (auto simp: world_ok_def)
  have "log_sendable s"
    using ok(2) rows(2) unfolding log_sendable_def commit_log [OF assms(3)] by (auto simp: ball_Un)
  moreover have "in_step base h (w\<lparr>w_log := s\<rparr>)" for h
  proof (cases "h = g")
    case True
    have "marker g w \<le> length (logged g w)" using ok(1) by (simp add: log_ok_def)
    then have "apply_all (entry_prims (drop (marker g w) (entries_of g s))) x
        = apply_all ps (apply_all (entry_prims (drop (marker g w) (logged g w))) x)"
      "apply_all (entry_prims (entries_of g s)) x = apply_all ps (apply_all (entry_prims (logged g w)) x)" for x
      using rows(1) by (simp_all add: inserted [OF ins] entry_prims_def)
    with ok(3) [of g] True show ?thesis by (simp add: in_step_def inserted [OF ins])
  next
    case False
    with ok(3) [of h] show ?thesis by (simp add: in_step_def inserted [OF ins])
  qed
  ultimately show ?thesis using insert_ok [OF ok(1) ins] by (simp add: world_ok_def)
qed

text \<open>\<open>log_extends s0 s\<close>: \<open>s\<close> is \<open>s0\<close> with rows added and markers moved forward.\<close>

definition log_extends :: "log_store \<Rightarrow> log_store \<Rightarrow> bool" where
  "log_extends s0 s \<longleftrightarrow>
     prefix (ls_entries s0) (ls_entries s) \<and> prefix (ls_groups s0) (ls_groups s)
     \<and> (\<forall>g. read_applied_position g s0 \<le> read_applied_position g s)
     \<and> (\<forall>k d. ls_checkpoints s0 k = Some d \<longrightarrow> ls_checkpoints s k = Some d)"

text \<open>\<open>same_rows s0 s\<close>: no row was added either; only markers moved.\<close>

definition same_rows :: "log_store \<Rightarrow> log_store \<Rightarrow> bool" where
  "same_rows s0 s \<longleftrightarrow>
     ls_entries s = ls_entries s0 \<and> ls_groups s = ls_groups s0 \<and> ls_checkpoints s = ls_checkpoints s0
     \<and> (\<forall>g. read_applied_position g s0 \<le> read_applied_position g s)"

lemma log_extends_refl [simp]: "log_extends s s" and same_rows_refl [simp]: "same_rows s s"
  by (simp_all add: log_extends_def same_rows_def)

lemma log_extends_trans: "log_extends s0 s1 \<Longrightarrow> log_extends s1 s2 \<Longrightarrow> log_extends s0 s2"
  unfolding log_extends_def by (meson order_trans prefix_order.order_trans)

lemma same_rows_trans: "same_rows s0 s1 \<Longrightarrow> same_rows s1 s2 \<Longrightarrow> same_rows s0 s2"
  unfolding same_rows_def by (auto intro: order_trans)

lemma same_rows_extends: "same_rows s0 s \<Longrightarrow> log_extends s0 s"
  by (simp add: log_extends_def same_rows_def)

lemma applied_more_rows: "applied_more g w w' \<Longrightarrow> same_rows (w_log w) (w_log w')"
proof -
  assume a: "applied_more g w w'"
  have "marker h w \<le> marker h w'" for h
    using applied_moreD(2,4) [OF a] by (cases "h = g") auto
  then show ?thesis using applied_moreD(6,11,12) [OF a] by (simp add: same_rows_def)
qed

lemma pending_rows:
  assumes "apply_pending c g before w = (r, w')" "world_ok base w" "settings_ok c"
  shows "same_rows (w_log w) (w_log w')"
  using applied_more_rows [OF apply_pending_keeps(2) [OF assms]] by simp

lemma commit_extends:
  assumes "append_in_transaction (draft g ps) audit swap s = Inr (row, s')"
  shows "log_extends s s'"
  using commit_log [OF assms] by (simp add: log_extends_def read_applied_position_def)

text \<open>What is added belongs to the swap set \<open>swap\<close>, or to none.\<close>

definition adds_rows :: "nat option \<Rightarrow> log_store \<Rightarrow> log_store \<Rightarrow> bool" where
  "adds_rows swap s s' \<longleftrightarrow> (\<forall>row \<in> set (ls_groups s'). row \<in> set (ls_groups s) \<or> gr_swap row = swap)"

lemma adds_rows_trans: "adds_rows swap s s1 \<Longrightarrow> adds_rows swap s1 s2 \<Longrightarrow> adds_rows swap s s2"
  unfolding adds_rows_def by blast

lemma commit_adds:
  assumes "append_in_transaction (draft g ps) audit swap s = Inr (row, s')"
  shows "adds_rows swap s s'"
  using commit_log [OF assms] by (auto simp: adds_rows_def)

lemma append_each_ok:
  assumes "append_each (map (\<lambda>(g, ps). draft g ps) drafts) audit swap s = Inr (rows, s')"
    and "world_ok base (w\<lparr>w_log := s\<rparr>)" "\<forall>(g, ps) \<in> set drafts. list_all sendable ps"
  shows "world_ok base (w\<lparr>w_log := s'\<rparr>) \<and> log_extends s s' \<and> adds_rows swap s s'"
  using assms
proof (induction drafts arbitrary: s rows)
  case (Cons d drafts)
  obtain g ps where d: "d = (g, ps)" by (cases d)
  from Cons.prems(1) d obtain row s1 rest where
    one: "append_in_transaction (draft g ps) audit swap s = Inr (row, s1)"
    and others: "append_each (map (\<lambda>(g, ps). draft g ps) drafts) audit swap s1 = Inr (rest, s')"
    by (auto simp: bind_result_Inr)
  have "world_ok base (w\<lparr>w_log := s1\<rparr>)"
    using commit_world_ok [OF Cons.prems(2) _ , of ps g audit swap row s1] one Cons.prems(3) d by simp
  from Cons.IH [OF others this] Cons.prems(3) commit_extends [OF one] commit_adds [OF one] show ?case
    by (auto intro: log_extends_trans adds_rows_trans)
qed (simp add: adds_rows_def)

lemma append_set_work:
  assumes "append_set ds audit w = (r, w')"
  shows "(w' = w \<and> r = Inl Bad_Value) \<or> log_write (append_each ds (Some audit) None) w = (r, w')"
proof (cases "append_groups ds (Some audit) False (w_log w) = None")
  case False
  then have "\<forall>s. append_groups ds (Some audit) False s = Some (append_each ds (Some audit) None s)"
    by (auto simp: append_groups_def Let_def split: if_splits)
  with False assms show ?thesis by (simp add: append_set_def)
qed (use assms in \<open>simp add: append_set_def\<close>)

text \<open>\<open>no_swaps\<close>: no group waits to be swapped in.\<close>

definition no_swaps :: "log_store \<Rightarrow> bool" where
  "no_swaps s \<longleftrightarrow> (\<forall>row \<in> set (ls_groups s). gr_swap row = None)"

lemma no_swaps_adds: "no_swaps s \<Longrightarrow> adds_rows None s s' \<Longrightarrow> no_swaps s'"
  unfolding no_swaps_def adds_rows_def by blast

lemma no_swaps_pending: "no_swaps s \<Longrightarrow> read_pending_swap_group g p s = None"
proof -
  assume "no_swaps s"
  then have "filter (\<lambda>r. gr_graph r = g \<and> gr_swap r \<noteq> None \<and> p < gr_last r) (ls_groups s) = []"
    by (auto simp: no_swaps_def filter_empty_conv)
  then show ?thesis by (simp add: read_pending_swap_group_def)
qed

definition sound_world :: "gateway_env \<Rightarrow> (string \<Rightarrow> graph) \<Rightarrow> log_store \<Rightarrow> world \<Rightarrow> bool" where
  "sound_world env base s0 w \<longleftrightarrow>
     settings_ok (ge_settings env) \<and> world_ok base w \<and> log_extends s0 (w_log w) \<and> no_swaps (w_log w)"

definition unwritten_world :: "gateway_env \<Rightarrow> (string \<Rightarrow> graph) \<Rightarrow> log_store \<Rightarrow> world \<Rightarrow> bool" where
  "unwritten_world env base s0 w \<longleftrightarrow>
     settings_ok (ge_settings env) \<and> world_ok base w \<and> same_rows s0 (w_log w)"

lemma sound_memory:
  assumes "memory_only w w'"
  shows "sound_world env base s0 w \<Longrightarrow> sound_world env base s0 w'"
    and "unwritten_world env base s0 w \<Longrightarrow> unwritten_world env base s0 w'"
  using assms world_ok_memory [OF assms, of base]
  by (simp_all add: sound_world_def unwritten_world_def memory_only_def)

lemma sound_next:
  assumes "sound_world env base s0 w" "world_ok base (w\<lparr>w_log := s\<rparr>)" "log_extends (w_log w) s"
    and "adds_rows None (w_log w) s" "outcomes_only w v"
  shows "sound_world env base s0 (v\<lparr>w_log := s\<rparr>)"
proof -
  have "sound_world env base s0 (w\<lparr>w_log := s\<rparr>)"
    using assms(1-4) log_extends_trans [OF _ assms(3)] no_swaps_adds [OF _ assms(4)] by (simp add: sound_world_def)
  moreover have "memory_only (w\<lparr>w_log := s\<rparr>) (v\<lparr>w_log := s\<rparr>)"
    using outcomes_memory [OF assms(5)] by (simp add: memory_only_def)
  ultimately show ?thesis by (rule sound_memory(1) [rotated])
qed

lemma sound_write:
  assumes "sound_world env base s0 w" "log_write work w = (r, w')"
    and "\<And>x s. work (w_log w) = Inr (x, s) \<Longrightarrow> world_ok base (w\<lparr>w_log := s\<rparr>) \<and> log_extends (w_log w) s
      \<and> adds_rows None (w_log w) s"
  shows "sound_world env base s0 w'"
  using assms(2)
proof (cases rule: log_write_cases)
  case (1 v)
  with sound_memory(1) [OF outcomes_memory] assms(1) show ?thesis by blast
next
  case (2 v x s)
  with assms(3) [of x s] sound_next [OF assms(1), of s v] show ?thesis by simp
qed

interpretation unwritten: staging_invariant "unwritten_world env base s0" env for env base s0
proof
  fix w w' g before r
  show "unwritten_world env base s0 w \<Longrightarrow> settings_ok (ge_settings env)" by (simp add: unwritten_world_def)
  show "unwritten_world env base s0 w \<Longrightarrow> memory_only w w' \<Longrightarrow> unwritten_world env base s0 w'"
    by (rule sound_memory(2))
  show "unwritten_world env base s0 w'"
    if "unwritten_world env base s0 w" "apply_pending (ge_settings env) g before w = (r, w')"
    using that(1) apply_pending_keeps(1) [OF that(2), of base]
      same_rows_trans [OF _ pending_rows [OF that(2), of base], of s0]
    by (simp add: unwritten_world_def)
qed

interpretation sound: commit_invariant "sound_world env base s0" env for env base s0
proof
  fix w w' g before r ps audit drafts a s p d u
    and r' :: "(raised, group_row) result"
  show "sound_world env base s0 w \<Longrightarrow> settings_ok (ge_settings env)" by (simp add: sound_world_def)
  show "sound_world env base s0 w \<Longrightarrow> memory_only w w' \<Longrightarrow> sound_world env base s0 w'"
    by (rule sound_memory(1))
  show "sound_world env base s0 w'"
    if "sound_world env base s0 w" "apply_pending (ge_settings env) g before w = (r, w')"
    using that(1) apply_pending_keeps(1) [OF that(2), of base]
      log_extends_trans [OF _ same_rows_extends [OF pending_rows [OF that(2), of base]], of s0]
      pending_rows [OF that(2), of base]
    by (simp add: sound_world_def no_swaps_def same_rows_def)
  show "sound_world env base s0 w'"
    if ok: "sound_world env base s0 w" and ps: "list_all sendable ps"
      and run: "log_write (append_in_transaction (draft g ps) audit None) w = (r', w')"
  proof (rule sound_write [OF ok run])
    fix row t
    assume "append_in_transaction (draft g ps) audit None (w_log w) = Inr (row, t)"
    with commit_world_ok [OF _ ps this] commit_extends [OF this] commit_adds [OF this] ok
    show "world_ok base (w\<lparr>w_log := t\<rparr>) \<and> log_extends (w_log w) t \<and> adds_rows None (w_log w) t"
      by (simp add: sound_world_def)
  qed
  show "sound_world env base s0 w'"
    if ok: "sound_world env base s0 w" and ps: "\<forall>(g, ps) \<in> set drafts. list_all sendable ps"
      and run: "append_set (map (\<lambda>(g, ps). draft g ps) drafts) a w = (s, w')"
  proof -
    consider "w' = w" | "log_write (append_each (map (\<lambda>(g, ps). draft g ps) drafts) (Some a) None) w = (s, w')"
      using append_set_work [OF run] by blast
    then show ?thesis
    proof cases
      case 2
      show ?thesis
      proof (rule sound_write [OF ok 2])
        fix rows t
        assume "append_each (map (\<lambda>(g, ps). draft g ps) drafts) (Some a) None (w_log w) = Inr (rows, t)"
        from append_each_ok [OF this _ ps, of base w] ok
        show "world_ok base (w\<lparr>w_log := t\<rparr>) \<and> log_extends (w_log w) t \<and> adds_rows None (w_log w) t"
      by (simp add: sound_world_def)
      qed
    qed (simp add: ok)
  qed
  show "sound_world env base s0 w'"
    if ok: "sound_world env base s0 w"
      and run: "log_write (\<lambda>s. bind_result (record_digest_checkpoint g p d s) (\<lambda>s'. Inr ((), s'))) w = (u, w')"
  proof (rule sound_write [OF ok run])
    fix x t
    assume "bind_result (record_digest_checkpoint g p d (w_log w)) (\<lambda>s'. Inr ((), s')) = Inr (x, t)"
    then have t: "t = (w_log w)\<lparr>ls_checkpoints := (ls_checkpoints (w_log w))((g, p) \<mapsto> d)\<rparr>"
      "ls_checkpoints (w_log w) (g, p) = None"
      by (auto simp: bind_result_Inr record_digest_checkpoint_def split: if_splits)
    have "log_extends (w_log w) t" using t by (auto simp: log_extends_def read_applied_position_def)
    moreover have "world_ok base (w\<lparr>w_log := t\<rparr>) = world_ok base w"
      by (simp add: t world_ok_def in_step_def log_ok_def log_sendable_def entries_of_def
          read_applied_position_def)
    ultimately show "world_ok base (w\<lparr>w_log := t\<rparr>) \<and> log_extends (w_log w) t \<and> adds_rows None (w_log w) t"
      using ok t(1) by (simp add: sound_world_def adds_rows_def)
  qed
qed

section \<open>Runs\<close>

text \<open>
  A run of the gateway: calls of its operations, calls of the replay gate, restarts of the process and
  whatever the environment decides. A crash inside an operation is the operation with every remaining
  call unreachable, followed by a restart.
\<close>

datatype gateway_call =
    Submit mutation_group
  | Submit_Multi string "graph_leg list" bool
  | Catch_Up string
  | Recover
  | Stamp_Legacy string "string option"
  | Read_Elements string
  | Read_Position string
  | Is_Caught_Up string

fun valid_call :: "gateway_call \<Rightarrow> bool" where
  "valid_call (Submit grp) = valid_group grp"
| "valid_call (Submit_Multi audit legs by_swap) =
     (2 \<le> length legs \<and> distinct (map leg_graph legs) \<and> list_all valid_leg legs)"
| "valid_call _ = True"

fun after_call :: "gateway_env \<Rightarrow> gateway_call \<Rightarrow> world \<Rightarrow> world" where
  "after_call env (Submit grp) w = snd (submit_group env grp w)"
| "after_call env (Submit_Multi audit legs by_swap) w = snd (submit_multi_graph_group env audit legs by_swap w)"
| "after_call env (Catch_Up g) w = snd (catch_up env g w)"
| "after_call env Recover w = snd (recover env w)"
| "after_call env (Stamp_Legacy g audit) w = snd (stamp_legacy_edge_identity env g audit w)"
| "after_call env (Read_Elements g) w = snd (gateway_read_persisted_elements env g w)"
| "after_call env (Read_Position g) w = snd (read_log_position env g w)"
| "after_call env (Is_Caught_Up g) w = snd (is_caught_up g w)"

definition restarted :: "world \<Rightarrow> world" where
  "restarted w = w\<lparr>w_blocked := {}, w_blocked_units := Map.empty, w_gate := new_gate, w_reconciling := {}\<rparr>"

text \<open>The audit log, written by others, gains an event that groups may name.\<close>

definition audited :: "string \<Rightarrow> world \<Rightarrow> world" where
  "audited a w = w\<lparr>w_log := (w_log w)\<lparr>ls_audit := a # ls_audit (w_log w)\<rparr>\<rparr>"

inductive gateway_step :: "gateway_env \<Rightarrow> world \<Rightarrow> world \<Rightarrow> bool" for env where
  Call: "valid_call c \<Longrightarrow> gateway_step env w (after_call env c w)"
| Gate: "gateway_step env w (w\<lparr>w_gate := call_gate gc (w_gate w)\<rparr>)"
| Reconciled: "gateway_step env w (w\<lparr>w_reconciling := gs\<rparr>)"
| Environment: "gateway_step env w (w\<lparr>w_faults := fs\<rparr>)"
| Audited: "gateway_step env w (audited a w)"
| Restart: "gateway_step env w (restarted w)"

inductive_cases gateway_stepE: "gateway_step env w w'"

lemma sound_call:
  assumes "valid_call c" "sound_world env base s0 w"
  shows "sound_world env base s0 (after_call env c w)"
proof -
  have run: "sound_world env base s0 (snd (m w))" if "preserves (sound_world env base s0) m Q" for m :: "'x op" and Q
    using preservesD [OF that assms(2)] by (metis prod.collapse)
  show ?thesis
  proof (cases c)
    case (Submit grp)
    with assms(1) run [OF sound.preserves_submit [of grp env base s0]] show ?thesis by (simp add: valid_group_def)
  next
    case (Submit_Multi audit legs by_swap)
    with assms(1) run [OF sound.preserves_submit_multi [of legs env base s0 audit by_swap]] show ?thesis
      by (simp add: valid_leg_def list_all_iff)
  next
    case (Read_Elements g)
    with run [OF sound.preserves_read_elements] show ?thesis by simp
  next
    case (Read_Position g)
    with run [OF sound.preserves_read_position] show ?thesis by simp
  qed (simp_all add: run [OF sound.preserves_catch_up] run [OF sound.preserves_recover]
      run [OF sound.preserves_stamp] run [OF sound.preserves_is_caught_up])
qed

lemma sound_audited: "sound_world env base s0 w \<Longrightarrow> sound_world env base s0 (audited a w)"
proof -
  have "world_ok base (audited a w) = world_ok base w"
    by (simp add: audited_def world_ok_def in_step_def log_ok_def log_sendable_def entries_of_def
        read_applied_position_def)
  then show "sound_world env base s0 w \<Longrightarrow> sound_world env base s0 (audited a w)"
    by (simp add: sound_world_def log_extends_def no_swaps_def audited_def read_applied_position_def)
qed

lemma sound_step:
  assumes "gateway_step env w w'" "sound_world env base s0 w"
  shows "sound_world env base s0 w'"
  using assms
  using sound_audited
  by (cases rule: gateway_stepE) (auto simp: sound_call restarted_def memory_only_def intro: sound_memory(1))

lemma sound_run:
  assumes "(gateway_step env)\<^sup>*\<^sup>* w w'" "sound_world env base s0 w"
  shows "sound_world env base s0 w'"
  using assms by (induction rule: rtranclp_induct) (auto intro: sound_step)

section \<open>What every run keeps\<close>

definition empty_log :: log_store where
  "empty_log = \<lparr>ls_entries = [], ls_groups = [], ls_markers = Map.empty, ls_checkpoints = Map.empty,
     ls_audit = [], ls_next = 0\<rparr>"

text \<open>A world at the first start: nothing logged; \<open>base\<close> is what the graphs hold.\<close>

definition first_world :: "(string \<Rightarrow> graph) \<Rightarrow> outcome list \<Rightarrow> world" where
  "first_world base fs =
     \<lparr>w_log = empty_log, w_graphs = base, w_blocked = {}, w_blocked_units = Map.empty,
      w_gate = new_gate, w_reconciling = {}, w_faults = fs\<rparr>"

lemma first_world_ok: "world_ok base (first_world base fs)"
  by (simp add: world_ok_def first_world_def empty_log_def log_ok_def log_sendable_def in_step_def
      entries_of_def numbered_from_def read_applied_position_def entry_prims_def)

lemma first_run:
  assumes "settings_ok (ge_settings env)" "(gateway_step env)\<^sup>*\<^sup>* (first_world base fs) w"
  shows "world_ok base w" "no_swaps (w_log w)"
  using sound_run [OF assms(2), of base empty_log] assms(1) first_world_ok [of base fs]
  by (simp_all add: sound_world_def first_world_def empty_log_def no_swaps_def)

definition sample_env :: gateway_env where
  "sample_env = \<lparr>ge_settings = default_settings, ge_report = (\<lambda>_. []),
     ge_layout = (\<lambda>_. \<lparr>lay_nodes = [], lay_edges = []\<rparr>), ge_digest = (\<lambda>_. Some ''d'')\<rparr>"

definition sample_submit :: mutation_group where
  "sample_submit = \<lparr>mg_graph = ''policies'', mg_audit_event_id = None, mg_primitives = [sample_upsert],
     mg_preconditions = [0], mg_checkpoint_requested = False\<rparr>"

lemma sample_submit_valid: "valid_group sample_submit"
  by code_simp

lemma sample_settings: "settings_ok (ge_settings sample_env)"
  by (simp add: settings_ok_def validated_settings_def sample_env_def default_settings_def power_overflows_def)

abbreviation bare :: "string \<Rightarrow> graph" where
  "bare \<equiv> \<lambda>_. empty_graph"

text \<open>
  C1. Whatever calls are made of the gateway, in whatever order, with whatever outcomes of the calls to
  FalkorDB and Postgres and with restarts anywhere: applying to a graph, as it is, the entries its marker
  has not passed gives exactly what the whole log makes of what the graph held at first. In particular a
  graph whose marker is at the end of its log is the replay of that log.
\<close>

theorem graphs_follow_log:
  assumes "settings_ok (ge_settings env)" "(gateway_step env)\<^sup>*\<^sup>* (first_world base fs) w"
  shows "apply_all (entry_prims (read_entries g (read_applied_position g (w_log w)) None (w_log w))) (w_graphs w g)
      = apply_all (entry_prims (entries_of g (w_log w))) (base g)
    \<and> (read_applied_position g (w_log w) = last_position g (w_log w) \<longrightarrow>
      w_graphs w g = apply_all (entry_prims (entries_of g (w_log w))) (base g))"
proof
  have ok: "log_ok (w_log w)" "in_step base g w"
    using first_run [OF assms] by (simp_all add: world_ok_def)
  show step: "apply_all (entry_prims (read_entries g (read_applied_position g (w_log w)) None (w_log w))) (w_graphs w g)
      = apply_all (entry_prims (entries_of g (w_log w))) (base g)"
    using ok by (simp add: in_step_def read_entries_all)
  show "read_applied_position g (w_log w) = last_position g (w_log w) \<longrightarrow>
      w_graphs w g = apply_all (entry_prims (entries_of g (w_log w))) (base g)"
    using step glog.pending_none [OF ok(1), of g] by (auto simp: entry_prims_def)
qed

text \<open>The commit's answer is lost, so the caller is told of a failure; recovery applies what was logged.\<close>

definition sample_faults :: "outcome list" where
  "sample_faults = [Answered, Answered, Answered, Answered, Lost]"

lemma run_call: "valid_call c \<Longrightarrow> (gateway_step env)\<^sup>*\<^sup>* w0 w \<Longrightarrow> (gateway_step env)\<^sup>*\<^sup>* w0 (after_call env c w)"
  using gateway_step.Call by (blast intro: rtranclp.rtrancl_into_rtrancl)

lemma run_restart: "(gateway_step env)\<^sup>*\<^sup>* w0 w \<Longrightarrow> (gateway_step env)\<^sup>*\<^sup>* w0 (restarted w)"
  using gateway_step.Restart by (blast intro: rtranclp.rtrancl_into_rtrancl)

lemma run_audited: "(gateway_step env)\<^sup>*\<^sup>* w0 w \<Longrightarrow> (gateway_step env)\<^sup>*\<^sup>* w0 (audited a w)"
  using gateway_step.Audited by (blast intro: rtranclp.rtrancl_into_rtrancl)

lemma sample_steps:
  "(gateway_step sample_env)\<^sup>*\<^sup>* (first_world bare sample_faults)
     (after_call sample_env Recover (restarted (after_call sample_env (Submit sample_submit) (first_world bare sample_faults))))"
  by (intro run_call run_restart rtranclp.rtrancl_refl) (simp_all add: sample_submit_valid)

theorem graphs_follow_log_witness:
  "let w = after_call sample_env Recover (restarted (after_call sample_env (Submit sample_submit) (first_world bare sample_faults)))
   in w_graphs w ''policies'' = apply_all (entry_prims (entries_of ''policies'' (w_log w))) (bare ''policies'')
      \<and> map en_position (entries_of ''policies'' (w_log w)) = [1]"
proof -
  define w where "w = after_call sample_env Recover
    (restarted (after_call sample_env (Submit sample_submit) (first_world bare sample_faults)))"
  have "read_applied_position ''policies'' (w_log w) = last_position ''policies'' (w_log w)"
    "map en_position (entries_of ''policies'' (w_log w)) = [1]"
    unfolding w_def by code_simp+
  with graphs_follow_log [OF sample_settings sample_steps, of "''policies''"] show ?thesis
    by (simp add: w_def Let_def)
qed

text \<open>
  C11. The log is insert-only under every run: what was logged once stays as it was, at its place, later
  entries only follow; the positions of a graph are 1, 2, 3, ... without a gap; and a marker never moves
  back and never passes the last entry.
\<close>

theorem log_insert_only:
  assumes "settings_ok (ge_settings env)" "(gateway_step env)\<^sup>*\<^sup>* (first_world base fs) w"
    and "(gateway_step env)\<^sup>*\<^sup>* w w'"
  shows "prefix (ls_entries (w_log w)) (ls_entries (w_log w'))
    \<and> prefix (ls_groups (w_log w)) (ls_groups (w_log w'))
    \<and> map en_position (entries_of g (w_log w')) = [1..<Suc (length (entries_of g (w_log w')))]
    \<and> read_applied_position g (w_log w) \<le> read_applied_position g (w_log w')
    \<and> read_applied_position g (w_log w') \<le> length (entries_of g (w_log w'))"
proof -
  have "sound_world env base (w_log w) w"
    using assms(1) first_run [OF assms(1,2)] by (simp add: sound_world_def)
  from sound_run [OF assms(3) this] show ?thesis
    by (simp add: sound_world_def world_ok_def log_ok_def log_extends_def numbered_from_def del: upt_Suc)
qed

theorem log_insert_only_witness:
  "prefix (ls_entries (w_log (after_call sample_env (Submit sample_submit) (first_world bare sample_faults))))
     (ls_entries (w_log (restarted (after_call sample_env (Submit sample_submit) (first_world bare sample_faults)))))
   \<and> ls_entries (w_log (after_call sample_env (Submit sample_submit) (first_world bare sample_faults))) \<noteq> []"
proof
  show "prefix (ls_entries (w_log (after_call sample_env (Submit sample_submit) (first_world bare sample_faults))))
     (ls_entries (w_log (restarted (after_call sample_env (Submit sample_submit) (first_world bare sample_faults)))))"
    by (rule log_insert_only [OF sample_settings run_call [OF _ rtranclp.rtrancl_refl]
        run_restart [OF rtranclp.rtrancl_refl], THEN conjunct1]) (simp add: sample_submit_valid)
  have "length (ls_entries (w_log (snd (submit_group sample_env sample_submit (first_world bare sample_faults))))) = 1"
    by code_simp
  then show "ls_entries (w_log (after_call sample_env (Submit sample_submit) (first_world bare sample_faults))) \<noteq> []"
    by auto
qed

end
