(* ===== verification/Gateway_Submit.thy ===== *)
theory Gateway_Submit
  imports Gateway_Safety
begin

text \<open>
  What a submitted group or set of groups leads to, on every path: \<^verbatim>\<open>submit_group\<close> and
  \<^verbatim>\<open>submit_multi_graph_group\<close> of \<^verbatim>\<open>graph_gateway/gateway.py\<close>. Up to the commit the log is untouched; the
  commit writes everything or nothing, and once; after it only markers, graphs and one digest move.
\<close>

section \<open>The commit\<close>

lemma guarded_write_cases:
  assumes "settings_ok (ge_settings env)" "guarded env g (log_write work) w = (r, w')"
  obtains v where "outcomes_only w v" "w' = v" "\<exists>e. r = Inl (Gateway e)"
      "answered w \<Longrightarrow> \<exists>e. work (w_log w) = Inl e \<and> r = Inl (Gateway e)"
  | v x s where "outcomes_only w v" "work (w_log w) = Inr (x, s)" "w' = v\<lparr>w_log := s\<rparr>"
      "r = Inr x \<or> r = Inl (Gateway GraphLogPersistenceError)" "answered w \<Longrightarrow> r = Inr x"
proof -
  have step: "outcomes_only w t'" if "outcomes_only w t" "log_write work t = (Inl e, t')" "transient e" for t e t'
    using that(2)
  proof (cases rule: log_write_cases)
    case (1 v)
    with that(1) outcomes_trans show ?thesis by blast
  qed (use that(3) in auto)
  have "\<exists>t q. outcomes_only w t \<and> log_write work t = (q, w')
    \<and> r = (case q of Inr x \<Rightarrow> Inr x | Inl e \<Rightarrow> Inl (sanitized g None e))"
    using assms unfolding guarded_def
    by (intro guard_call_last [of "ge_settings env" "outcomes_only w" "log_write work"]) (auto intro: step)
  then obtain t q where t: "outcomes_only w t" "log_write work t = (q, w')"
    "r = (case q of Inr x \<Rightarrow> Inr x | Inl e \<Rightarrow> Inl (sanitized g None e))" by blast
  have log: "w_log t = w_log w" "answered w \<longrightarrow> answered t"
    using t(1) by (auto simp: outcomes_only_def)
  from t(2) show thesis
  proof (cases rule: log_write_cases)
    case (1 v)
    with t log show thesis by (intro that(1) [OF outcomes_trans [OF t(1)]]) auto
  next
    case (2 v x s)
    with t log show thesis by (intro that(2) [OF outcomes_trans [OF t(1) 2(1)], of x s]) auto
  qed
qed

text \<open>\<open>settled base g w\<close>: nothing is owed to \<open>g\<close>, and it is the replay of its log.\<close>

definition settled :: "(string \<Rightarrow> graph) \<Rightarrow> string \<Rightarrow> world \<Rightarrow> bool" where
  "settled base g w \<longleftrightarrow>
     read_applied_position g (w_log w) = last_position g (w_log w)
     \<and> w_graphs w g = apply_all (entry_prims (entries_of g (w_log w))) (base g)"

lemma settledI:
  assumes "world_ok base w" "drop (marker g w) (logged g w) = []"
  shows "settled base g w"
proof -
  have ok: "log_ok (w_log w)" "in_step base g w" using assms(1) by (simp_all add: world_ok_def)
  then have "marker g w \<le> length (logged g w)" by (simp add: log_ok_def)
  with assms(2) ok show ?thesis by (simp add: settled_def in_step_def last_position_length entry_prims_def)
qed

lemma settled_memory: "memory_only w w' \<Longrightarrow> settled base g w' = settled base g w"
  by (simp add: settled_def memory_only_def)

text \<open>\<open>written_world\<close>: the rows logged are those of \<open>s0\<close>; only markers, graphs and digests have moved.\<close>

definition same_groups :: "log_store \<Rightarrow> log_store \<Rightarrow> bool" where
  "same_groups s0 s \<longleftrightarrow> ls_entries s = ls_entries s0 \<and> ls_groups s = ls_groups s0"

definition written_world :: "gateway_env \<Rightarrow> (string \<Rightarrow> graph) \<Rightarrow> log_store \<Rightarrow> world \<Rightarrow> bool" where
  "written_world env base s0 w \<longleftrightarrow>
     settings_ok (ge_settings env) \<and> world_ok base w \<and> same_groups s0 (w_log w)"

lemma checkpoint_only:
  assumes "log_write (\<lambda>s. bind_result (record_digest_checkpoint g p d s) (\<lambda>s'. Inr ((), s'))) w = (u, w')"
  shows "\<exists>c. w_graphs w' = w_graphs w \<and> w_log w' = (w_log w)\<lparr>ls_checkpoints := c\<rparr>"
  using assms
proof (cases rule: log_write_cases)
  case (1 v)
  with outcomes_memory [OF 1(1)] show ?thesis
    by (intro exI [of _ "ls_checkpoints (w_log w)"]) (simp add: memory_only_def)
next
  case (2 v x s)
  with outcomes_memory [OF 2(1)] show ?thesis
    by (auto simp: memory_only_def bind_result_Inr record_digest_checkpoint_def split: if_splits)
qed

lemma checkpoint_ok:
  assumes "w_graphs w' = w_graphs w" "w_log w' = (w_log w)\<lparr>ls_checkpoints := c\<rparr>"
  shows "world_ok base w' = world_ok base w" "settled base g w' = settled base g w"
    and "same_groups s0 (w_log w') = same_groups s0 (w_log w)"
  using assms
  by (simp_all add: world_ok_def in_step_def log_ok_def log_sendable_def entries_of_def
      read_applied_position_def settled_def last_position_def same_groups_def)

interpretation written: applying_invariant "written_world env base s0" env for env base s0
proof
  fix w w' g before r p d u
  show "written_world env base s0 w \<Longrightarrow> settings_ok (ge_settings env)" by (simp add: written_world_def)
  show "written_world env base s0 w \<Longrightarrow> memory_only w w' \<Longrightarrow> written_world env base s0 w'"
    using world_ok_memory [of w w' base] by (simp add: written_world_def memory_only_def)
  show "written_world env base s0 w'"
    if "written_world env base s0 w" "apply_pending (ge_settings env) g before w = (r, w')"
    using that(1) apply_pending_keeps(1) [OF that(2), of base] pending_rows [OF that(2), of base]
    by (simp add: written_world_def same_rows_def same_groups_def)
  show "written_world env base s0 w'"
    if ok: "written_world env base s0 w"
      and run: "log_write (\<lambda>s. bind_result (record_digest_checkpoint g p d s) (\<lambda>s'. Inr ((), s'))) w = (u, w')"
    using ok checkpoint_only [OF run] checkpoint_ok [of w' w] by (auto simp: written_world_def)
qed

lemma record_checkpoint_result:
  assumes "record_checkpoint env row w = (r, w')"
  shows "(\<exists>b. r = Inr b) \<and> (\<exists>c. w_graphs w' = w_graphs w \<and> w_log w' = (w_log w)\<lparr>ls_checkpoints := c\<rparr>)"
proof -
  obtain q w1 where call: "graph_call (gr_graph row) (\<lambda>x. (ge_digest env x, x)) w = (q, w1)"
    by (cases "graph_call (gr_graph row) (\<lambda>x. (ge_digest env x, x)) w")
  have kept: "memory_only w w1"
    using call by (auto simp: graph_call_def Let_def memory_only_def simp del: next_outcome.simps
        split: prod.splits outcome.splits dest: outcomes_memory [OF conjunct1 [OF next_outcome_only]])
  have failure: "q = Inl e \<Longrightarrow> checkpoint_failure e" for e
    using graph_call_raises [of _ _ w e w1] call by (auto simp: call_failure_def checkpoint_failure_def)
  show ?thesis
  proof (cases "\<exists>d. q = Inr (Some d)")
    case False
    then consider e where "q = Inl e" | "q = Inr None"
      by (metis option.exhaust sum.exhaust)
    then have "r = Inr False" "w' = w1"
      using assms call failure by (cases; auto simp: record_checkpoint_def catch_op_def bind_op_def return_op_def)+
    with kept show ?thesis
      by (auto simp: memory_only_def intro!: exI [of _ "ls_checkpoints (w_log w)"])
  next
    case True
    then obtain d where d: "q = Inr (Some d)" by blast
    obtain u w2 where stored:
      "log_write (\<lambda>s. bind_result (record_digest_checkpoint (gr_graph row) (gr_last row) d s)
        (\<lambda>s'. Inr ((), s'))) w1 = (u, w2)"
      by (cases "log_write (\<lambda>s. bind_result (record_digest_checkpoint (gr_graph row) (gr_last row) d s)
        (\<lambda>s'. Inr ((), s'))) w1")
    have fails: "u = Inl e \<Longrightarrow> checkpoint_failure e" for e
      using stored by (auto simp: log_write_def checkpoint_failure_def record_digest_checkpoint_def bind_result_Inl
          simp del: next_outcome.simps split: prod.splits sum.splits if_splits)
    have "(\<exists>b. r = Inr b) \<and> w' = w2"
      using assms call d stored fails
      by (cases u) (auto simp: record_checkpoint_def catch_op_def bind_op_def return_op_def)
    with checkpoint_only [OF stored] kept show ?thesis by (auto simp: memory_only_def)
  qed
qed

lemma apply_committed_result:
  assumes "apply_committed env row requested w = (r, w')" "world_ok base w" "settings_ok (ge_settings env)"
    and "1 \<le> gr_first row" "1 \<le> gr_last row"
  shows "written_world env base (w_log w) w'"
    and "case r of
        Inr o1 \<Rightarrow> outcome_valid o1 \<and> go_graph o1 = gr_graph row \<and> go_first o1 = Some (gr_first row)
          \<and> go_last o1 = Some (gr_last row) \<and> go_status o1 \<noteq> Unchanged
          \<and> (go_status o1 = Applied \<longrightarrow> settled base (gr_graph row) w')
          \<and> (go_status o1 = Committed_Apply_Pending \<longrightarrow> gr_graph row \<in> w_reconciling w')
      | Inl e \<Rightarrow> e = Gateway GraphLogPersistenceError
          \<or> e = Gateway (GraphApplyError (gr_graph row) (Some (marker (gr_graph row) w' + 1)))
            \<and> gr_graph row \<in> w_blocked w'"
    and "answered w \<Longrightarrow> \<exists>o1. r = Inr o1 \<and> go_status o1 = Applied"
    and "h \<noteq> gr_graph row \<Longrightarrow> w_graphs w' h = w_graphs w h"
    and "h \<noteq> gr_graph row \<Longrightarrow> settled base h w' = settled base h w"
proof -
  let ?g = "gr_graph row"
  have "written_world env base (w_log w) w" using assms(2,3) by (simp add: written_world_def same_groups_def)
  from preservesD [OF written.preserves_committed this assms(1)]
  show "written_world env base (w_log w) w'" .
  obtain q w1 where run: "apply_pending (ge_settings env) ?g None w = (q, w1)"
    by (cases "apply_pending (ge_settings env) ?g None w")
  note p = apply_pending_keeps [OF run assms(2,3)]
  have results: "(case r of
        Inr o1 \<Rightarrow> outcome_valid o1 \<and> go_graph o1 = ?g \<and> go_first o1 = Some (gr_first row)
          \<and> go_last o1 = Some (gr_last row) \<and> go_status o1 \<noteq> Unchanged
          \<and> (go_status o1 = Applied \<longrightarrow> settled base ?g w')
          \<and> (go_status o1 = Committed_Apply_Pending \<longrightarrow> ?g \<in> w_reconciling w')
      | Inl e \<Rightarrow> e = Gateway GraphLogPersistenceError
          \<or> e = Gateway (GraphApplyError ?g (Some (marker ?g w' + 1))) \<and> ?g \<in> w_blocked w')
    \<and> (q = Inr () \<longrightarrow> (\<exists>o1. r = Inr o1 \<and> go_status o1 = Applied))
    \<and> w_graphs w' = w_graphs w1 \<and> (\<forall>h. settled base h w' = settled base h w1)"
  proof (cases q)
    case (Inr u)
    then have settled1: "settled base ?g w1"
      using p(1,4) by (auto intro!: settledI simp: limited_def)
    show ?thesis
    proof (cases requested)
      case False
      with assms(1) run Inr settled1 assms(4,5) show ?thesis
        by (auto simp: apply_committed_def catch_op_def bind_op_def return_op_def checkpoint_state_def
            outcome_valid_def Let_def)
    next
      case True
      obtain v w2 where rec: "record_checkpoint env row w1 = (v, w2)" by (cases "record_checkpoint env row w1")
      from record_checkpoint_result [OF rec] obtain b c where b: "v = Inr b"
        "w_graphs w2 = w_graphs w1" "w_log w2 = (w_log w1)\<lparr>ls_checkpoints := c\<rparr>" by blast
      have "settled base h w2 = settled base h w1" for h using checkpoint_ok(2) [OF b(2,3)] by simp
      with assms(1) run Inr rec b(1,2) True settled1 assms(4,5) show ?thesis
        by (auto simp: apply_committed_def catch_op_def bind_op_def return_op_def checkpoint_state_def
            outcome_valid_def Let_def)
    qed
  next
    case (Inl e)
    show ?thesis
    proof (cases "e = Gateway GraphUnavailableError \<or> e = Gateway GraphLogUnavailableError")
      case True
      with assms(1) run Inl assms(4,5) show ?thesis
        by (auto simp: apply_committed_def catch_op_def bind_op_def return_op_def checkpoint_state_def
            outcome_valid_def Let_def reconcile_later_def modify_op_def settled_def)
    next
      case False
      with assms(1) run Inl have r: "r = Inl e" "w' = w1"
        by (auto simp: apply_committed_def catch_op_def bind_op_def)
      with p(3,6) Inl False show ?thesis by auto
    qed
  qed
  then show "case r of
        Inr o1 \<Rightarrow> outcome_valid o1 \<and> go_graph o1 = ?g \<and> go_first o1 = Some (gr_first row)
          \<and> go_last o1 = Some (gr_last row) \<and> go_status o1 \<noteq> Unchanged
          \<and> (go_status o1 = Applied \<longrightarrow> settled base ?g w')
          \<and> (go_status o1 = Committed_Apply_Pending \<longrightarrow> ?g \<in> w_reconciling w')
      | Inl e \<Rightarrow> e = Gateway GraphLogPersistenceError
          \<or> e = Gateway (GraphApplyError ?g (Some (marker ?g w' + 1))) \<and> ?g \<in> w_blocked w'" by blast
  show "\<exists>o1. r = Inr o1 \<and> go_status o1 = Applied" if "answered w"
    using results p(5) [OF that] by blast
  show "w_graphs w' h = w_graphs w h" if "h \<noteq> ?g"
    using results applied_moreD(3) [OF p(2) that] by simp
  show "settled base h w' = settled base h w" if "h \<noteq> ?g"
  proof -
    have "settled base h w1 = settled base h w"
      using applied_moreD(1-3,7) [OF p(2)] that by (simp add: settled_def)
    with results show ?thesis by blast
  qed
qed

section \<open>One group\<close>

text \<open>\<open>group_logged\<close>: the primitives \<open>kept\<close> of the group were logged as one group, after what was there.\<close>

definition group_logged :: "mutation_group \<Rightarrow> primitive list \<Rightarrow> log_store \<Rightarrow> log_store \<Rightarrow> bool" where
  "group_logged grp kept s s' \<longleftrightarrow>
     kept \<noteq> [] \<and> subseq kept (mg_primitives grp) \<and>
     (\<exists>gid.
        ls_entries s' = ls_entries s
          @ entry_rows (mg_graph grp) (Suc (last_position (mg_graph grp) s)) gid (map encode_primitive kept)
        \<and> ls_groups s' = ls_groups s
          @ [\<lparr>gr_id = gid, gr_graph = mg_graph grp, gr_first = Suc (last_position (mg_graph grp) s),
              gr_last = last_position (mg_graph grp) s + length kept, gr_audit = mg_audit_event_id grp,
              gr_swap = None\<rparr>])"

lemma last_position_entries: "ls_entries s = ls_entries s' \<Longrightarrow> last_position g s = last_position g s'"
  by (simp add: last_position_def entries_of_def)

lemma committed_logged:
  assumes "append_in_transaction (draft (mg_graph grp) kept) (mg_audit_event_id grp) None s1 = Inr (row, s2)"
    and "same_rows s s1" "same_groups s2 s'" "kept \<noteq> []" "subseq kept (mg_primitives grp)"
  shows "group_logged grp kept s s'" "gr_first row = Suc (last_position (mg_graph grp) s)"
    and "log_ok s' \<Longrightarrow> log_ok s \<Longrightarrow> gr_last row = last_position (mg_graph grp) s'" "gr_graph row = mg_graph grp"
proof -
  note commit = commit_log [OF assms(1)]
  have last: "last_position g s1 = last_position g s" for g
    using assms(2) by (intro last_position_entries) (simp add: same_rows_def)
  show "group_logged grp kept s s'"
    using commit assms(2-5) by (auto simp: group_logged_def same_rows_def same_groups_def last)
  show "gr_first row = Suc (last_position (mg_graph grp) s)" "gr_graph row = mg_graph grp"
    using commit(5) by (simp_all add: last)
  show "gr_last row = last_position (mg_graph grp) s'" if "log_ok s'" "log_ok s"
  proof -
    have "entries_of (mg_graph grp) s' = entries_of (mg_graph grp) s
        @ entry_rows (mg_graph grp) (Suc (last_position (mg_graph grp) s)) (ls_next s1) (map encode_primitive kept)"
      using commit(1) assms(2,3) by (simp add: entries_of_def same_rows_def same_groups_def graph_entry_rows last)
    with that commit(5) show ?thesis by (simp add: last_position_length last)
  qed
qed

lemma submit_locked_result:
  assumes "submit_locked env grp w = (r, w')" "world_ok base w" "settings_ok (ge_settings env)" "valid_group grp"
  shows "case r of
      Inr o1 \<Rightarrow> outcome_valid o1 \<and> go_graph o1 = mg_graph grp \<and>
        (if go_status o1 = Unchanged then o1 = unchanged_outcome grp \<and> same_rows (w_log w) (w_log w')
         else (\<exists>kept. group_logged grp kept (w_log w) (w_log w'))
           \<and> go_first o1 = Some (Suc (last_position (mg_graph grp) (w_log w)))
           \<and> go_last o1 = Some (last_position (mg_graph grp) (w_log w'))
           \<and> (go_status o1 = Applied \<longrightarrow> settled base (mg_graph grp) w')
           \<and> (go_status o1 = Committed_Apply_Pending \<longrightarrow> mg_graph grp \<in> w_reconciling w'))
    | Inl e \<Rightarrow> same_rows (w_log w) (w_log w')
        \<or> (\<exists>kept. group_logged grp kept (w_log w) (w_log w'))
          \<and> (e = Gateway GraphLogPersistenceError
             \<or> e = Gateway (GraphApplyError (mg_graph grp) (Some (marker (mg_graph grp) w' + 1)))
               \<and> mg_graph grp \<in> w_blocked w')"
proof -
  have wf: "list_all wf_primitive (mg_primitives grp)" using assms(4) by (simp add: valid_group_def)
  obtain q w1 where stage: "stage env grp None w = (q, w1)" by (cases "stage env grp None w")
  have start: "unwritten_world env base (w_log w) w" using assms(2,3) by (simp add: unwritten_world_def)
  have rows1: "same_rows (w_log w) (w_log w1)" and ok1: "world_ok base w1"
    using preservesD [OF unwritten.preserves_stage [OF wf] start stage] by (simp_all add: unwritten_world_def)
  show ?thesis
  proof (cases q)
    case (Inl e)
    with assms(1) stage have "r = Inl e" "w' = w1" by (auto simp: submit_locked_def bind_op_def)
    with rows1 show ?thesis by simp
  next
    case (Inr kept)
    with preservesR [OF unwritten.preserves_stage [OF wf] start] stage
    have kept: "list_all sendable kept" "subseq kept (mg_primitives grp)" by blast+
    show ?thesis
    proof (cases "kept = []")
      case True
      with assms(1) stage Inr rows1 show ?thesis
        by (auto simp: submit_locked_def bind_op_def return_op_def unchanged_outcome_def outcome_valid_def
            checkpoint_state_def)
    next
      case False
      let ?work = "append_in_transaction (draft (mg_graph grp) kept) (mg_audit_event_id grp) None"
      obtain q2 w2 where commit: "guarded env (mg_graph grp) (log_write ?work) w1 = (q2, w2)"
        by (cases "guarded env (mg_graph grp) (log_write ?work) w1")
      from assms(3) commit show ?thesis
      proof (cases rule: guarded_write_cases)
        case (1 v)
        then obtain e where "q2 = Inl e" by blast
        then have "r = Inl e" "w' = w2" using assms(1) stage Inr False commit
          by (auto simp: submit_locked_def bind_op_def)
        with 1(2) rows1 outcomes_memory [OF 1(1)] show ?thesis by (simp add: memory_only_def)
      next
        case (2 v row s)
        have s: "w_log w2 = s" using 2(3) by simp
        have ok2: "world_ok base w2"
        proof -
          have "memory_only (w1\<lparr>w_log := s\<rparr>) w2"
            using outcomes_memory [OF 2(1)] 2(3) by (simp add: memory_only_def)
          with commit_world_ok [OF ok1 kept(1) 2(2)] world_ok_memory show ?thesis by blast
        qed
        show ?thesis
        proof (cases q2)
          case q2: (Inl e)
          with assms(1) stage Inr False commit have "r = Inl e" "w' = w2"
            by (auto simp: submit_locked_def bind_op_def)
          moreover have "group_logged grp kept (w_log w) s"
            by (rule committed_logged(1) [OF 2(2) rows1 _ False kept(2)]) (simp add: same_groups_def)
          moreover have "e = Gateway GraphLogPersistenceError" using q2 2(4) by simp
          ultimately show ?thesis using s by auto
        next
          case q2: (Inr row')
          with 2(4) have "row' = row" by simp
          with assms(1) stage Inr False commit q2
          have run: "apply_committed env row (mg_checkpoint_requested grp) w2 = (r, w')"
            by (simp add: submit_locked_def bind_op_def)
          have positions: "1 \<le> gr_first row" "1 \<le> gr_last row"
            using commit_log(5) [OF 2(2)] False by (cases kept; simp)+
          note c = apply_committed_result [OF run ok2 assms(3) positions]
          have fixed: "same_groups s (w_log w')" "log_ok (w_log w')"
            using c(1) s by (simp_all add: written_world_def world_ok_def)
          have "log_ok (w_log w)" using assms(2) by (simp add: world_ok_def)
          with committed_logged [OF 2(2) rows1 fixed(1) False kept(2)] fixed(2) c(2) show ?thesis
            by (auto split: sum.splits)
        qed
      qed
    qed
  qed
qed



text \<open>A lost answer of the commit: the caller is told of a persistence error, and the group is in the log.\<close>

lemma lost_commit_is_logged:
  "case submit_group sample_env sample_submit (first_world bare sample_faults) of
     (r, w) \<Rightarrow> (case r of Inl e \<Rightarrow> e = Gateway GraphLogPersistenceError | Inr o1 \<Rightarrow> False)
       \<and> length (entries_of ''policies'' (w_log w)) = 1"
  by code_simp

end
