(* ===== verification/Gateway_Complete.thy ===== *)
theory Gateway_Complete
  imports Gateway_Submit
begin

text \<open>
  Runs in which every call is answered: a group takes exactly its effect, catching up catches up, and
  recovery after a start leaves no graph behind its log. \<open>calm w0 m r\<close>: from \<open>w0\<close>, whatever outcomes were
  consumed, \<open>m\<close> returns or raises \<open>r\<close> and has no effect beyond consuming outcomes.
\<close>

section \<open>Calm operations\<close>

definition calm :: "world \<Rightarrow> 'a op \<Rightarrow> (raised, 'a) result \<Rightarrow> bool" where
  "calm w0 m r \<longleftrightarrow> (\<forall>w. outcomes_only w0 w \<longrightarrow> (\<exists>w'. m w = (r, w') \<and> outcomes_only w0 w'))"

lemma calmI: "(\<And>w. outcomes_only w0 w \<Longrightarrow> \<exists>w'. m w = (r, w') \<and> outcomes_only w w') \<Longrightarrow> calm w0 m r"
  unfolding calm_def using outcomes_trans by blast

lemma calmD: "calm w m r \<Longrightarrow> \<exists>w'. m w = (r, w') \<and> outcomes_only w w'"
  unfolding calm_def using outcomes_refl by blast

lemma outcomes_same:
  assumes "outcomes_only w w'"
  shows "answered w \<Longrightarrow> answered w'" "w_log w' = w_log w" "w_graphs w' = w_graphs w"
    "w_blocked w' = w_blocked w" "w_gate w' = w_gate w" "w_reconciling w' = w_reconciling w"
  using assms by (auto simp: outcomes_only_def)

lemma calm_return: "calm w (return_op x) (Inr x)"
  by (rule calmI) auto

lemma calm_lift: "calm w (lift_result q) (case q of Inl e \<Rightarrow> Inl (Gateway e) | Inr x \<Rightarrow> Inr x)"
  by (rule calmI) auto

lemma calm_lift_Inr: "q = Inr x \<Longrightarrow> calm w (lift_result q) (Inr x)"
  using calm_lift [of w q] by simp

lemma calm_bind: "calm w m (Inr x) \<Longrightarrow> calm w (f x) r \<Longrightarrow> calm w (bind_op m f) r"
  unfolding calm_def bind_op_def by fastforce

lemma calm_log_read: "answered w \<Longrightarrow> calm w (log_read select) (Inr (select (w_log w)))"
proof (rule calmI)
  fix v
  assume a: "answered w" and v: "outcomes_only w v"
  obtain r w' where run: "log_read select v = (r, w')" by (cases "log_read select v")
  from log_read_result(1,2) [OF run] outcomes_same(1,2) [OF v] a
  show "\<exists>w'. log_read select v = (Inr (select (w_log w)), w') \<and> outcomes_only v w'"
    using run by auto
qed

lemma calm_graph_read: "answered w \<Longrightarrow> calm w (graph_call g (\<lambda>x. (f x, x))) (Inr (f (w_graphs w g)))"
proof (rule calmI)
  fix v
  assume a: "answered w" and v: "outcomes_only w v"
  obtain q u where n: "next_outcome v = (q, u)" by (cases "next_outcome v")
  with a next_outcome_only [OF n] outcomes_same(1) [OF v] have "q = Answered" "outcomes_only v u" by auto
  moreover from this(2) have "w_graphs u = w_graphs w" using outcomes_same(3) v by simp
  ultimately show "\<exists>w'. graph_call g (\<lambda>x. (f x, x)) v = (Inr (f (w_graphs w g)), w') \<and> outcomes_only v w'"
    using n by (simp add: graph_call_def Let_def del: next_outcome.simps)
qed

lemma calm_guarded:
  assumes "calm w m r" "\<And>e. r = Inl e \<Longrightarrow> \<not> transient e \<and> e \<noteq> RedisRefused"
  shows "calm w (guarded env g m) r"
proof -
  have "guarded env g m v = (r, w')" if m: "m v = (r, w')" for v w'
  proof (cases r)
    case (Inr x)
    with m show ?thesis by (simp add: guarded_def guard_call_def call_with_backoff_def call_from.simps)
  next
    case (Inl e)
    with assms(2) have "\<not> transient e" "sanitized g None e = e" by (cases e; simp)+
    with Inl m show ?thesis by (simp add: guarded_def guard_call_def call_with_backoff_def call_from.simps)
  qed
  with assms(1) show ?thesis unfolding calm_def by metis
qed

lemma calm_guarded_Inr: "calm w m (Inr x) \<Longrightarrow> calm w (guarded env g m) (Inr x)"
  by (rule calm_guarded) simp_all

lemma calm_gate: "require_open (w_gate w) g = Inr () \<Longrightarrow> calm w (gate_open g) (Inr ())"
  by (rule calmI) (auto simp: gate_open_def outcomes_same)

lemma calm_not_blocked: "g \<notin> w_blocked w \<Longrightarrow> calm w (require_not_blocked g) (Inr ())"
  by (rule calmI) (auto simp: require_not_blocked_def outcomes_same)

lemma calm_last_position: "answered w \<Longrightarrow> calm w (read_last_position env g) (Inr (last_position g (w_log w)))"
  unfolding read_last_position_def by (rule calm_guarded_Inr) (rule calm_log_read)

lemma calm_no_lag:
  assumes "answered w" "marker g w = last_position g (w_log w)"
  shows "calm w (catch_up_before_write env g) (Inr ())"
  unfolding catch_up_before_write_def
  by (rule calm_bind, rule calm_guarded_Inr, rule calm_bind, rule calm_log_read [OF assms(1)],
      rule calm_bind, rule calm_log_read [OF assms(1)], rule calm_return) (simp add: assms(2) calm_return)

lemma calm_preconditions:
  assumes "answered w" "\<forall>n \<in> set ns. n = last_position g (w_log w)"
  shows "calm w (check_preconditions env g ns) (Inr ())"
  using assms(2)
proof (induction ns)
  case Nil
  then show ?case by (simp add: calm_return)
next
  case (Cons n ns)
  then have "require_precondition g (last_position g (w_log w)) n = Inr ()"
    by (simp add: require_precondition_def)
  with Cons show ?case
    by (auto intro!: calm_bind [OF calm_last_position [OF assms(1)]] calm_bind [OF calm_lift_Inr])
qed

text \<open>A graph for which writes are accepted at once.\<close>

definition ready :: "string \<Rightarrow> world \<Rightarrow> bool" where
  "ready g w \<longleftrightarrow> require_open (w_gate w) g = Inr () \<and> g \<notin> w_blocked w
     \<and> read_applied_position g (w_log w) = last_position g (w_log w)"

abbreviation kept_of :: "gateway_env \<Rightarrow> mutation_group \<Rightarrow> world \<Rightarrow> (gateway_error, primitive list) result" where
  "kept_of env grp w \<equiv>
     select_effective_primitives (w_graphs w (mg_graph grp)) (ge_report env (g_edges (w_graphs w (mg_graph grp))))
       (mg_primitives grp) (nat (gs_batch_size (ge_settings env)))"

lemma walk_error: "walk n ps ov = Inl e \<Longrightarrow> \<exists>i. e = MissingTargetError i"
proof (induction n ps ov rule: walk.induct)
  case (2 n p ps ov)
  show ?case
  proof (cases "ov_apply n p ov")
    case (Inl e')
    with 2(2) have "ov_apply n p ov = Inl e" by simp
    then show ?thesis
      by (cases p) (auto simp: ov_merge_property_def ov_upsert_edge_def require_node_def bind_result_Inl Let_def
          split: option.splits if_splits)
  next
    case (Inr x)
    with 2 show ?thesis by (cases x) (auto simp: bind_result_Inl)
  qed
qed simp

lemma calm_stage:
  assumes "answered w" "ready (mg_graph grp) w" "validate_group grp = Inr ()"
    and "\<forall>n \<in> set (mg_preconditions grp). n = last_position (mg_graph grp) (w_log w)"
  shows "calm w (stage env grp None) (case kept_of env grp w of Inl e \<Rightarrow> Inl (Gateway e) | Inr kept \<Rightarrow> Inr kept)"
proof -
  have "calm w (select_effective env grp) (case kept_of env grp w of Inl e \<Rightarrow> Inl (Gateway e) | Inr kept \<Rightarrow> Inr kept)"
    unfolding select_effective_def
  proof (rule calm_guarded [OF calm_bind [OF calm_graph_read [OF assms(1)] calm_lift]])
    fix e
    assume "(case kept_of env grp w of Inl e \<Rightarrow> Inl (Gateway e) | Inr kept \<Rightarrow> Inr kept) = Inl e"
    then show "\<not> transient e \<and> e \<noteq> RedisRefused"
      by (auto simp: select_effective_primitives_def dest!: walk_error split: sum.splits)
  qed
  then have "calm w (bind_op (case None of None \<Rightarrow> return_op grp | Some r \<Rightarrow> expanded env grp r) (select_effective env))
      (case kept_of env grp w of Inl e \<Rightarrow> Inl (Gateway e) | Inr kept \<Rightarrow> Inr kept)"
    by (simp add: calm_bind [OF calm_return])
  then show ?thesis
    unfolding stage_def using assms
    by (intro calm_bind [OF calm_gate] calm_bind [OF calm_not_blocked] calm_bind [OF calm_no_lag]
        calm_bind [OF calm_lift_Inr] calm_bind [OF calm_preconditions]) (simp_all add: ready_def)
qed

section \<open>A group takes its effect\<close>

lemma storable_json: "storable v \<Longrightarrow> json_representable v"
proof -
  have scalar: "is_valid_scalar u \<Longrightarrow> json_representable u" for u by (cases u) auto
  show "storable v \<Longrightarrow> json_representable v"
    using scalar by (cases v) (auto simp: storable_def is_valid_items_def list_all_iff)
qed

lemma prepare_sendable:
  assumes "list_all sendable ps"
  shows "require_all prepare_entry (map encode_primitive ps) = Inr ()"
proof -
  have "prepare_entry (encode_primitive p) = Inr (encode_primitive p)" if p: "sendable p" for p
  proof -
    have wf: "wf_primitive p" using p by (simp add: sendable_def)
    have "json_representable v" if "(k, v) \<in> set (prim_props p)" for k v
      using wf_primitive_storable [OF wf that] storable_json by blast
    then show ?thesis
      using wf by (cases p) (auto simp: prepare_entry_def dump_ref_def wf_primitive_def list_all_iff split: if_splits)
  qed
  with assms have "\<exists>u. require_all prepare_entry (map encode_primitive ps) = Inr u"
    by (subst require_all_Inr) (auto simp: list_all_iff)
  then show ?thesis by auto
qed

lemma quiet_submit:
  assumes "settings_ok (ge_settings env)" "world_ok base w" "answered w" "ready (mg_graph grp) w"
    and "valid_group grp" "validate_group grp = Inr ()"
    and "\<forall>n \<in> set (mg_preconditions grp). n = last_position (mg_graph grp) (w_log w)"
    and "\<forall>a. mg_audit_event_id grp = Some a \<longrightarrow> a \<in> set (ls_audit (w_log w))"
    and "kept_of env grp w = Inr kept"
  shows "\<exists>o1 w'. submit_group env grp w = (Inr o1, w')
    \<and> w_graphs w' = (w_graphs w)(mg_graph grp := apply_all kept (w_graphs w (mg_graph grp)))
    \<and> (if kept = [] then w_log w' = w_log w else settled base (mg_graph grp) w')
    \<and> go_status o1 = (if kept = [] then Unchanged else Applied)"
proof -
  let ?g = "mg_graph grp"
  have gate: "require_open (w_gate w) ?g = Inr ()" using assms(4) by (simp add: ready_def)
  obtain w1 where stage: "stage env grp None w = (Inr kept, w1)" "outcomes_only w w1"
    using calmD [OF calm_stage [OF assms(3,4,6,7), of env]] assms(9) by auto
  note same = outcomes_same [OF stage(2)]
  have locked: "submit_group env grp w = submit_locked env grp w"
    using gate by (simp add: submit_group_def gate_open_def bind_op_def lift_result_def return_op_def)
  show ?thesis
  proof (cases "kept = []")
    case True
    with stage(1) same show ?thesis
      by (auto simp: locked submit_locked_def bind_op_def unchanged_outcome_def return_op_def)
  next
    case False
    have listed: "list_all sendable kept"
    proof -
      have "sendable p" if "p \<in> set (mg_primitives grp)" for p
        using that assms(5,6) by (auto simp: valid_group_def list_all_iff sendable_def validate_group_Inr)
      with assms(9) show ?thesis by (auto simp: list_all_iff dest!: select_effective_subseq dest: list_emb_set)
    qed
    let ?work = "append_in_transaction (draft ?g kept) (mg_audit_event_id grp) None"
    obtain row s where work: "?work (w_log w1) = Inr (row, s)"
      using prepare_sendable [OF listed] assms(8) same(2)
      by (cases "mg_audit_event_id grp") (auto simp: append_in_transaction_def draft_def insert_group_def Let_def)
    obtain q w2 where commit: "guarded env ?g (log_write ?work) w1 = (q, w2)"
      by (cases "guarded env ?g (log_write ?work) w1")
    have w2: "q = Inr row" "w_log w2 = s" "w_graphs w2 = w_graphs w" "answered w2"
      using assms(1) commit
      by (cases rule: guarded_write_cases; use work same(1) [OF assms(3)] outcomes_same same in
          \<open>auto simp: answered_def\<close>)+
    have "world_ok base w1" using world_ok_memory [OF outcomes_memory [OF stage(2)]] assms(2) by simp
    from commit_world_ok [OF this listed work] have ok2: "world_ok base w2"
      using world_ok_memory [of "w1\<lparr>w_log := s\<rparr>" w2] w2 same by (simp add: memory_only_def)
    obtain r w' where run: "apply_committed env row (mg_checkpoint_requested grp) w2 = (r, w')"
      by (cases "apply_committed env row (mg_checkpoint_requested grp) w2")
    have positions: "1 \<le> gr_first row" "1 \<le> gr_last row" "gr_graph row = ?g"
      using commit_log(5) [OF work] False by (cases kept; simp)+
    note c = apply_committed_result [OF run ok2 assms(1) positions(1,2)]
    obtain o1 where o1: "r = Inr o1" "go_status o1 = Applied" using c(3) w2(4) by blast
    with c(2) positions(3) have st: "settled base ?g w'" by simp
    have "w_graphs w' ?g = apply_all kept (w_graphs w ?g)"
    proof -
      have "ls_entries (w_log w') = ls_entries (w_log w)
          @ entry_rows ?g (Suc (last_position ?g (w_log w1))) (ls_next (w_log w1)) (map encode_primitive kept)"
        using c(1) commit_log(1) [OF work] w2(2) same(2) by (simp add: written_world_def same_groups_def)
      then have "entry_prims (entries_of ?g (w_log w')) = entry_prims (logged ?g w) @ kept"
        using decode_rows(1) [OF listed] by (simp add: entries_of_def graph_entry_rows entry_prims_def)
      moreover have "in_step base ?g w" "log_ok (w_log w)" using assms(2) by (simp_all add: world_ok_def)
      then have "w_graphs w ?g = apply_all (entry_prims (logged ?g w)) (base ?g)"
        using assms(4) by (simp add: in_step_def ready_def last_position_length entry_prims_def)
      ultimately show ?thesis using st by (simp add: settled_def)
    qed
    moreover have "w_graphs w' h = w_graphs w h" if "h \<noteq> ?g" for h
      using c(4) [of h] that positions(3) w2(3) by simp
    ultimately have "w_graphs w' = (w_graphs w)(?g := apply_all kept (w_graphs w ?g))" by auto
    moreover have "submit_group env grp w = (Inr o1, w')"
      using stage(1) False commit w2(1) run o1(1) by (simp add: locked submit_locked_def bind_op_def)
    ultimately show ?thesis using False st o1(2) by auto
  qed
qed

text \<open>
  C2. When every call is answered, a valid group submitted to a graph that accepts writes has exactly its
  effect: the graph becomes what applying all its primitives, in order, makes of it, and no other graph
  changes, although only the primitives with an effect are logged and applied, batched. The group is
  refused only if some primitive's target is missing at its turn; it then has no effect at all, and the
  error names the first such primitive.

  This holds, with settings whose waits do not overflow within the budget, of a group whose names are listed, whose preconditions hold and whose audit row exists, on a graph \<open>x\<close>
  whose edges have distinct keys (\<open>unique_keys\<close>) and whose property values are storable ones
  (\<open>plain_state\<close>), when the group has no \<^verbatim>\<open>nan\<close> (\<open>nan_free\<close>) and stamps no edge with an identity that
  another edge of the same type and ends has at that moment (\<open>stamps_fresh\<close>). Without the last condition the
  code does not do it: \<open>stamp_onto_used_identity\<close> in \<open>Noop_Filter\<close> is an upsert that the filter drops although it
  changes the graph.
\<close>

theorem answered_submit_exact:
  assumes "settings_ok (ge_settings env)" "(gateway_step env)\<^sup>*\<^sup>* (first_world base fs) w"
    and "answered w" "ready (mg_graph grp) w" "valid_group grp" "validate_group grp = Inr ()"
    and "\<forall>n \<in> set (mg_preconditions grp). n = last_position (mg_graph grp) (w_log w)"
    and "\<forall>a. mg_audit_event_id grp = Some a \<longrightarrow> a \<in> set (ls_audit (w_log w))"
    and "x = w_graphs w (mg_graph grp)" "mset (ge_report env (g_edges x)) = g_edges x"
    and "plain_state x" "unique_keys (g_edges x)"
    and "\<forall>p \<in> set (mg_primitives grp). nan_free p" "stamps_fresh (mg_primitives grp) x"
  shows "case submit_group env grp w of
      (Inr o1, w') \<Rightarrow> w_graphs w' = (w_graphs w)(mg_graph grp := apply_all (mg_primitives grp) x)
        \<and> (go_status o1 = Applied \<and> settled base (mg_graph grp) w'
           \<or> go_status o1 = Unchanged \<and> w_log w' = w_log w)
    | (Inl e, w') \<Rightarrow> w_graphs w' = w_graphs w \<and> w_log w' = w_log w
        \<and> (\<exists>i < length (mg_primitives grp). e = Gateway (MissingTargetError i)
             \<and> missing_target (mg_primitives grp ! i) (apply_all (take i (mg_primitives grp)) x)
             \<and> (\<forall>j < i. \<not> missing_target (mg_primitives grp ! j) (apply_all (take j (mg_primitives grp)) x)))"
proof -
  have good: "\<forall>p \<in> set (mg_primitives grp). wf_primitive p \<and> nan_free p"
    using assms(5,13) by (simp add: valid_group_def list_all_iff)
  note exact = filter_exact [OF assms(10,11,12) good assms(14), of "nat (gs_batch_size (ge_settings env))"]
  show ?thesis
  proof (cases "kept_of env grp w")
    case (Inr kept)
    with quiet_submit [OF assms(1) first_run(1) [OF assms(1,2)] assms(3-8) Inr] exact assms(9)
    show ?thesis by (auto split: if_splits)
  next
    case (Inl e)
    from calmD [OF calm_stage [OF assms(3,4,6,7), of env]] Inl
    obtain w' where "stage env grp None w = (Inl (Gateway e), w')" "outcomes_only w w'" by auto
    moreover from this(1) have "submit_group env grp w = (Inl (Gateway e), w')"
      using assms(4)
      by (simp add: submit_group_def gate_open_def bind_op_def lift_result_def return_op_def ready_def
          submit_locked_def)
    ultimately show ?thesis using exact Inl assms(9) outcomes_same(2,3) by auto
  qed
qed

lemma sample_ready: "ready ''policies'' (first_world bare [])"
  by code_simp

theorem answered_submit_exact_witness:
  "case submit_group sample_env sample_submit (first_world bare []) of
      (Inr o1, w') \<Rightarrow> w_graphs w' = bare(''policies'' := apply_all [sample_upsert] empty_graph)
        \<and> (go_status o1 = Applied \<and> settled bare ''policies'' w'
           \<or> go_status o1 = Unchanged \<and> w_log w' = empty_log)
    | (Inl e, w') \<Rightarrow> False"
proof -
  have "fst (submit_group sample_env sample_submit (first_world bare [])) \<noteq> Inl e" for e
  proof -
    have "isl (fst (submit_group sample_env sample_submit (first_world bare []))) = False" by code_simp
    then show ?thesis by (metis sum.disc(1))
  qed
  moreover have "\<forall>p \<in> set (mg_primitives sample_submit). nan_free p"
  proof -
    have "list_all nan_free (mg_primitives sample_submit)" by code_simp
    then show ?thesis by (simp add: list_all_iff)
  qed
  moreover have "validate_group sample_submit = Inr ()"
    "list_all (\<lambda>n. n = last_position ''policies'' empty_log) (mg_preconditions sample_submit)" by code_simp+
  moreover have "stamps_fresh (mg_primitives sample_submit) empty_graph"
    by (simp add: sample_submit_def sample_upsert_def)
  ultimately show ?thesis
    using answered_submit_exact [OF sample_settings rtranclp.rtrancl_refl, of bare "[]" sample_submit empty_graph]
      sample_ready sample_submit_valid
    by (auto simp: answered_def first_world_def sample_submit_def sample_env_def empty_graph_def
        plain_state_def unique_keys_def list_all_iff split: prod.splits sum.splits)
qed

section \<open>Catching up\<close>

lemma calm_run: "calm w m (Inr x) \<Longrightarrow> outcomes_only w v \<Longrightarrow> \<exists>v'. bind_op m f v = f x v' \<and> outcomes_only w v'"
  unfolding calm_def bind_op_def by fastforce

lemma calm_resolve:
  assumes "answered w" "read_pending_swap_group g (marker g w) (w_log w) = None"
  shows "calm w (resolve_unit env g) (Inr \<lparr>au_graphs = [g], au_swap_set = None, au_legs = []\<rparr>)"
  unfolding resolve_unit_def
  by (rule calm_guarded_Inr, rule calm_bind, rule calm_log_read [OF assms(1)], rule calm_bind,
      rule calm_log_read [OF assms(1)]) (simp add: assms(2) calm_return)

lemma calm_standing:
  "answered w \<Longrightarrow> calm w (standing_of g) (Inr \<lparr>cr_graph = g, cr_applied = marker g w,
     cr_last = last_position g (w_log w), cr_caught_up = (marker g w = last_position g (w_log w))\<rparr>)"
  unfolding standing_of_def
  by (rule calm_bind, erule calm_log_read, rule calm_bind, erule calm_log_read, rule calm_return)

lemma answered_catch_up_result:
  assumes "settings_ok (ge_settings env)" "world_ok base w" "answered w"
    and "require_open (w_gate w) g = Inr ()" "read_pending_swap_group g (marker g w) (w_log w) = None"
  shows "\<exists>w'. catch_up env g w = (Inr \<lparr>cr_graph = g, cr_applied = last_position g (w_log w),
      cr_last = last_position g (w_log w), cr_caught_up = True\<rparr>, w')
    \<and> settled base g w' \<and> world_ok base w' \<and> applied_more g w (w'\<lparr>w_blocked := w_blocked w\<rparr>)
    \<and> w_blocked w' = w_blocked w - {g} \<and> answered w'"
proof -
  let ?unit = "\<lparr>au_graphs = [g], au_swap_set = None, au_legs = []\<rparr>"
  note resolve = calm_resolve [OF assms(3,5), of env]
  let ?body = "catch_up_unit env g True"
  obtain w1 where w1: "catch_up env g w = catch_up_from env g True w1" "outcomes_only w w1"
    unfolding catch_up_def using calm_run [OF calm_gate [OF assms(4)] outcomes_refl] by blast
  obtain w2 where w2: "outcomes_only w w2"
    "catch_up_from env g True w1 = bind_op (resolve_unit env g) (\<lambda>current.
       if set (au_graphs current) \<subseteq> set (au_graphs ?unit) then ?body current
       else with_unit_from env g ?body (Suc (Suc 0))) w2"
    using calm_run [OF resolve w1(2), of "\<lambda>unit. bind_op (resolve_unit env g) (\<lambda>current.
       if set (au_graphs current) \<subseteq> set (au_graphs unit) then ?body current
       else with_unit_from env g ?body (Suc (Suc 0)))"]
    by (auto simp: catch_up_from_def with_unit_def unit_attempts_def numeral_3_eq_3)
  obtain w3 where w3: "outcomes_only w w3" "catch_up_from env g True w1 = catch_up_unit env g True ?unit w3"
    using calm_run [OF resolve w2(1), of "\<lambda>current. if set (au_graphs current) \<subseteq> set (au_graphs ?unit)
       then ?body current else with_unit_from env g ?body (Suc (Suc 0))"] w2(2) by auto
  obtain w4 where w4: "outcomes_only w w4" "catch_up_unit env g True ?unit w3
      = bind_op (catch_op (apply_unit_of env ?unit) (\<lambda>e. if e = Gateway GraphUnavailableError
          then Some (bind_op (reconcile_all (au_graphs ?unit)) (\<lambda>_. return_op False)) else None)) (\<lambda>_. standing_of g) w4"
    using calm_run [OF calm_gate [OF assms(4)] w3(1), of "\<lambda>_. bind_op (catch_op (apply_unit_of env ?unit)
      (\<lambda>e. if e = Gateway GraphUnavailableError
          then Some (bind_op (reconcile_all (au_graphs ?unit)) (\<lambda>_. return_op False)) else None)) (\<lambda>_. standing_of g)"]
    by (auto simp: catch_up_unit_def)
  note same = outcomes_same [OF w4(1)]
  obtain r w5 where run: "apply_pending (ge_settings env) g None w4 = (r, w5)"
    by (cases "apply_pending (ge_settings env) g None w4")
  have ok4: "world_ok base w4" using world_ok_memory [OF outcomes_memory [OF w4(1)]] assms(2) by simp
  note p = apply_pending_keeps [OF run ok4 assms(1)]
  have r: "r = Inr ()" using p(5) same(1) [OF assms(3)] by simp
  have more: "applied_more g w4 (w5\<lparr>w_blocked := w_blocked w4\<rparr>)" by (rule p(2))
  have ans: "answered w5" using applied_moreD(5) [OF more same(1) [OF assms(3)]] by (simp add: answered_def)
  have st: "settled base g w5" using p(1,4) r by (auto intro!: settledI simp: limited_def)
  have last: "last_position g (w_log w5) = last_position g (w_log w)"
    using applied_moreD(7) [OF more, of g] same(2) by simp
  obtain w6 where w6: "standing_of g w5 = (Inr \<lparr>cr_graph = g, cr_applied = last_position g (w_log w),
      cr_last = last_position g (w_log w), cr_caught_up = True\<rparr>, w6)" "outcomes_only w5 w6"
    using calmD [OF calm_standing [OF ans, of g]] st last by (auto simp: settled_def)
  note same6 = outcomes_same [OF w6(2)]
  have "catch_up env g w = standing_of g w5"
    using w1(1) w3(2) w4(2) run r
    by (simp add: apply_unit_of_def bind_op_def catch_op_def return_op_def)
  moreover have "settled base g w6" "world_ok base w6"
    using st p(1) settled_memory world_ok_memory outcomes_memory [OF w6(2)] by blast+
  moreover have "applied_more g w (w6\<lparr>w_blocked := w_blocked w\<rparr>)"
  proof -
    obtain fs where fs: "w6 = w5\<lparr>w_faults := fs\<rparr>" using w6(2) by (auto simp: outcomes_only_def)
    have "outcomes_only (w5\<lparr>w_blocked := w_blocked w4\<rparr>) (w6\<lparr>w_blocked := w_blocked w\<rparr>)"
      unfolding outcomes_only_def
    proof
      show "\<exists>fs. w6\<lparr>w_blocked := w_blocked w\<rparr> = w5\<lparr>w_blocked := w_blocked w4\<rparr>\<lparr>w_faults := fs\<rparr>"
        unfolding fs same(4) by (rule exI [of _ fs]) simp
      show "answered (w5\<lparr>w_blocked := w_blocked w4\<rparr>) \<longrightarrow> answered (w6\<lparr>w_blocked := w_blocked w\<rparr>)"
        using same6(1) by (auto simp: answered_def)
    qed
    then show ?thesis
      using applied_more_trans [OF outcomes_applied_more [OF w4(1)] applied_more_trans [OF more outcomes_applied_more]] by blast
  qed
  moreover have "w_blocked w6 = w_blocked w - {g}" using p(3) r same(4) same6(4) by simp
  ultimately show ?thesis using w6(1) same6(1) ans by auto
qed

lemma with_unit_body:
  "with_unit_from env g body n w = (Inr x, w') \<Longrightarrow> \<exists>u w1. body u w1 = (Inr x, w')"
proof (induction n arbitrary: w)
  case 0
  then show ?case by (auto simp: bind_op_def reconcile_later_def modify_op_def raise_op_def)
next
  case (Suc n)
  from Suc.prems show ?case
    unfolding with_unit_from.simps bind_op_Inr by (elim exE conjE) (auto split: if_splits dest: Suc.IH)
qed

lemma catch_up_standing: "catch_up env g w = (Inr res, w') \<Longrightarrow> \<exists>v. standing_of g v = (Inr res, w')"
proof -
  assume "catch_up env g w = (Inr res, w')"
  then obtain v where "catch_up_from env g True v = (Inr res, w')" by (auto simp: catch_up_def bind_op_Inr)
  then have "with_unit_from env g (catch_up_unit env g True) unit_attempts v = (Inr res, w')"
    by (simp add: catch_up_from_def with_unit_def)
  from with_unit_body [OF this] obtain u v1 where "catch_up_unit env g True u v1 = (Inr res, w')" by blast
  then show ?thesis by (auto simp: catch_up_unit_def bind_op_Inr)
qed

lemma standing_result:
  assumes "standing_of g v = (Inr res, w')"
  shows "res = \<lparr>cr_graph = g, cr_applied = marker g w', cr_last = last_position g (w_log w'),
    cr_caught_up = (marker g w' = last_position g (w_log w'))\<rparr>"
proof -
  from assms obtain applied v1 last v2 where
    1: "log_read (read_applied_position g) v = (Inr applied, v1)" and
    2: "log_read (last_position g) v1 = (Inr last, v2)" and
    res: "res = \<lparr>cr_graph = g, cr_applied = applied, cr_last = last, cr_caught_up = (applied = last)\<rparr>" "w' = v2"
    by (auto simp: standing_of_def bind_op_Inr)
  note log = outcomes_same(2) [OF log_read_result(1) [OF 1]] outcomes_same(2) [OF log_read_result(1) [OF 2]]
  from log_read_result(3) [OF 1] log_read_result(3) [OF 2] res log show ?thesis by simp
qed

text \<open>
  C21. What \<^verbatim>\<open>catch_up\<close> reports is true, whatever the environment answered on the way: the marker and the
  last position are those of the log it leaves, and the graph is reported caught up exactly if nothing is
  owed to it and it is the replay of its log.
\<close>

theorem catch_up_honest:
  assumes "settings_ok (ge_settings env)" "(gateway_step env)\<^sup>*\<^sup>* (first_world base fs) w"
    and "catch_up env g w = (Inr res, w')"
  shows "cr_graph res = g \<and> cr_applied res = read_applied_position g (w_log w')
    \<and> cr_last res = last_position g (w_log w') \<and> cr_applied res \<le> cr_last res
    \<and> (cr_caught_up res \<longleftrightarrow> settled base g w')"
proof -
  have "(gateway_step env)\<^sup>*\<^sup>* (first_world base fs) w'"
    using run_call [OF _ assms(2), of "Catch_Up g"] assms(3) by simp
  from first_run(1) [OF assms(1) this] have ok: "world_ok base w'" .
  then have "log_ok (w_log w')" by (simp add: world_ok_def)
  moreover have "settled base g w'" if "marker g w' = last_position g (w_log w')"
    using that ok calculation by (intro settledI) (simp_all add: last_position_length)
  moreover obtain v where "standing_of g v = (Inr res, w')" using catch_up_standing [OF assms(3)] by blast
  note res = standing_result [OF this]
  ultimately show ?thesis
    using glog.applied_bound [of "w_log w'" g] unfolding res
    by (auto simp: settled_def last_position_length)
qed

definition backlog_world :: world where
  "backlog_world = restarted (after_call sample_env (Submit sample_submit) (first_world bare sample_faults))"

lemma backlog_steps: "(gateway_step sample_env)\<^sup>*\<^sup>* (first_world bare sample_faults) backlog_world"
  unfolding backlog_world_def by (intro run_call run_restart rtranclp.rtrancl_refl) (simp add: sample_submit_valid)

lemma backlog_pending:
  "answered backlog_world" "graphs_with_pending_entries (w_log backlog_world) = [''policies'']"
  "require_open (w_gate backlog_world) g = Inr ()"
proof -
  show "answered backlog_world" unfolding backlog_world_def by code_simp
  show "graphs_with_pending_entries (w_log backlog_world) = [''policies'']" unfolding backlog_world_def by code_simp
  show "require_open (w_gate backlog_world) g = Inr ()"
    by (simp add: backlog_world_def restarted_def new_gate_def require_open_def gate_closed_def)
qed

theorem catch_up_honest_witness:
  "\<exists>res w'. catch_up sample_env ''policies'' backlog_world = (Inr res, w') \<and> cr_applied res = 1
    \<and> cr_caught_up res \<and> settled bare ''policies'' w'"
proof -
  obtain r w' where run: "catch_up sample_env ''policies'' backlog_world = (r, w')"
    by (cases "catch_up sample_env ''policies'' backlog_world")
  have "map_sum id (\<lambda>res. (cr_applied res, cr_caught_up res)) (fst (catch_up sample_env ''policies'' backlog_world))
      = Inr (1, True)"
    unfolding backlog_world_def by code_simp
  with run obtain res where "r = Inr res" "cr_applied res = 1" "cr_caught_up res" by (cases r) auto
  with catch_up_honest [OF sample_settings backlog_steps, of "''policies''" res w'] run show ?thesis by auto
qed

text \<open>
  C22. When every call is answered and no replay gates the graph, catching it up completes: whatever its
  graph lags behind by, the marker ends at the end of the log, the graph is its replay, and so it is
  reported; and of everything else in the world only the graph's own block is lifted: the rows of the log, the
  markers, contents and blocks of all other graphs, the replay gates and the reconciler's list stay as they
  were.
\<close>

theorem answered_catch_up_completes:
  assumes "settings_ok (ge_settings env)" "(gateway_step env)\<^sup>*\<^sup>* (first_world base fs) w"
    and "answered w" "require_open (w_gate w) g = Inr ()"
  shows "\<exists>w' markers outcomes. catch_up env g w = (Inr \<lparr>cr_graph = g, cr_applied = last_position g (w_log w),
        cr_last = last_position g (w_log w), cr_caught_up = True\<rparr>, w')
    \<and> settled base g w' \<and> (\<forall>h. h \<noteq> g \<longrightarrow> markers h = ls_markers (w_log w) h)
    \<and> w' = w\<lparr>w_log := (w_log w)\<lparr>ls_markers := markers\<rparr>, w_graphs := (w_graphs w)(g := w_graphs w' g),
        w_blocked := w_blocked w - {g}, w_faults := outcomes\<rparr>"
proof -
  note ok = first_run [OF assms(1,2)]
  from answered_catch_up_result [OF assms(1) ok(1) assms(3,4) no_swaps_pending [OF ok(2)]]
  obtain w' where w': "catch_up env g w = (Inr \<lparr>cr_graph = g, cr_applied = last_position g (w_log w),
      cr_last = last_position g (w_log w), cr_caught_up = True\<rparr>, w')"
    "settled base g w'" "applied_more g w (w'\<lparr>w_blocked := w_blocked w\<rparr>)" "w_blocked w' = w_blocked w - {g}"
    by blast
  from w'(3) obtain x m os where m: "\<forall>h. h \<noteq> g \<longrightarrow> m h = ls_markers (w_log w) h"
    "w'\<lparr>w_blocked := w_blocked w\<rparr> = w\<lparr>w_log := (w_log w)\<lparr>ls_markers := m\<rparr>, w_graphs := (w_graphs w)(g := x), w_faults := os\<rparr>"
    by (auto simp: applied_more_def)
  have "w' = w'\<lparr>w_blocked := w_blocked w\<rparr>\<lparr>w_blocked := w_blocked w - {g}\<rparr>" using w'(4) by simp
  then have w: "w' = w\<lparr>w_log := (w_log w)\<lparr>ls_markers := m\<rparr>, w_graphs := (w_graphs w)(g := x),
      w_blocked := w_blocked w - {g}, w_faults := os\<rparr>"
    unfolding m(2) by simp
  then have "w_graphs w' g = x" by simp
  with w have "w' = w\<lparr>w_log := (w_log w)\<lparr>ls_markers := m\<rparr>, w_graphs := (w_graphs w)(g := w_graphs w' g),
      w_blocked := w_blocked w - {g}, w_faults := os\<rparr>" by simp
  with w'(1,2) m(1) show ?thesis by blast
qed

theorem answered_catch_up_completes_witness:
  "\<exists>w' markers outcomes. catch_up sample_env ''policies'' backlog_world = (Inr \<lparr>cr_graph = ''policies'',
        cr_applied = last_position ''policies'' (w_log backlog_world),
        cr_last = last_position ''policies'' (w_log backlog_world), cr_caught_up = True\<rparr>, w')
    \<and> settled bare ''policies'' w' \<and> (\<forall>h. h \<noteq> ''policies'' \<longrightarrow> markers h = ls_markers (w_log backlog_world) h)
    \<and> w' = backlog_world\<lparr>w_log := (w_log backlog_world)\<lparr>ls_markers := markers\<rparr>,
        w_graphs := (w_graphs backlog_world)(''policies'' := w_graphs w' ''policies''),
        w_blocked := w_blocked backlog_world - {''policies''}, w_faults := outcomes\<rparr>"
  by (rule answered_catch_up_completes [OF sample_settings backlog_steps backlog_pending(1,3)])

section \<open>Recovery\<close>

lemma recover_each_result:
  assumes "settings_ok (ge_settings env)" "world_ok base w" "answered w" "no_swaps (w_log w)"
    and "\<forall>g. require_open (w_gate w) g = Inr ()"
  shows "\<exists>w'. recover_each env gs w = (Inr \<lparr>rr_recovered = gs, rr_gated = []\<rparr>, w')
    \<and> world_ok base w' \<and> same_rows (w_log w) (w_log w') \<and> (\<forall>g \<in> set gs. settled base g w')
    \<and> (\<forall>g. settled base g w \<longrightarrow> settled base g w') \<and> w_blocked w' = w_blocked w - set gs"
  using assms(2-)
proof (induction gs arbitrary: w)
  case Nil
  then show ?case by simp
next
  case (Cons g gs)
  from answered_catch_up_result [OF assms(1) Cons.prems(1,2) _ no_swaps_pending [OF Cons.prems(3)], of g] Cons.prems(4)
  obtain w1 where w1: "catch_up env g w = (Inr \<lparr>cr_graph = g, cr_applied = last_position g (w_log w),
      cr_last = last_position g (w_log w), cr_caught_up = True\<rparr>, w1)"
    "settled base g w1" "world_ok base w1" "applied_more g w (w1\<lparr>w_blocked := w_blocked w\<rparr>)"
    "w_blocked w1 = w_blocked w - {g}" "answered w1"
    by blast
  have gate: "w_gate w1 = w_gate w" and rows: "same_rows (w_log w) (w_log w1)"
    using applied_moreD(9) [OF w1(4)] applied_more_rows [OF w1(4)] by simp_all
  then have "no_swaps (w_log w1)" using Cons.prems(3) by (simp add: no_swaps_def same_rows_def)
  with Cons.IH [OF w1(3,6)] gate Cons.prems(4) obtain w' where
    w': "recover_each env gs w1 = (Inr \<lparr>rr_recovered = gs, rr_gated = []\<rparr>, w')"
    "world_ok base w'" "same_rows (w_log w1) (w_log w')" "\<forall>g \<in> set gs. settled base g w'"
    "\<forall>g. settled base g w1 \<longrightarrow> settled base g w'" "w_blocked w' = w_blocked w1 - set gs"
    by auto
  have keep: "settled base h w1" if "settled base h w" for h
  proof (cases "h = g")
    case False
    with applied_moreD(1-3,7) [OF w1(4)] that show ?thesis by (simp add: settled_def)
  qed (simp add: w1(2))
  have "recover_each env (g # gs) w = (Inr \<lparr>rr_recovered = g # gs, rr_gated = []\<rparr>, w')"
    using w1(1) w'(1) by (simp add: bind_op_def catch_op_def return_op_def)
  then show ?case using w' w1(2,5) keep same_rows_trans [OF rows] by auto
qed

text \<open>
  C12. Recovery after a start, when every call is answered and no replay is under way: it returns the
  graphs that lagged, gates none, and leaves every graph, recovered or not, the replay of its log; the
  log's rows stay as they were. Run twice it finds nothing to do.
\<close>

theorem answered_recovery_completes:
  assumes "settings_ok (ge_settings env)" "(gateway_step env)\<^sup>*\<^sup>* (first_world base fs) w"
    and "answered w" "\<forall>g. require_open (w_gate w) g = Inr ()"
  shows "\<exists>w'. recover env w = (Inr \<lparr>rr_recovered = graphs_with_pending_entries (w_log w), rr_gated = []\<rparr>, w')
    \<and> (\<forall>g. settled base g w') \<and> same_rows (w_log w) (w_log w')
    \<and> graphs_with_pending_entries (w_log w') = []"
proof -
  let ?gs = "graphs_with_pending_entries (w_log w)"
  note ok = first_run [OF assms(1,2)]
  obtain w1 where w1: "log_read graphs_with_pending_entries w = (Inr ?gs, w1)" "outcomes_only w w1"
    using calmD [OF calm_log_read [OF assms(3)]] by blast
  note same = outcomes_same [OF w1(2)]
  have ok1: "world_ok base w1" using world_ok_memory [OF outcomes_memory [OF w1(2)]] ok(1) by simp
  from recover_each_result [OF assms(1) ok1 same(1) [OF assms(3)], of ?gs] same ok(2) assms(4)
  obtain w' where w': "recover_each env ?gs w1 = (Inr \<lparr>rr_recovered = ?gs, rr_gated = []\<rparr>, w')"
    "same_rows (w_log w) (w_log w')" "\<forall>g \<in> set ?gs. settled base g w'"
    "\<forall>g. settled base g w1 \<longrightarrow> settled base g w'" by auto
  have every: "settled base g w'" for g
  proof (cases "g \<in> set ?gs")
    case False
    have log: "log_ok (w_log w)" using ok(1) by (simp add: world_ok_def)
    have "marker g w = length (logged g w)"
    proof (cases "logged g w = []")
      case True
      with glog.applied_bound [OF log, of g] show ?thesis by simp
    next
      case listed: False
      then obtain en where "en \<in> set (ls_entries (w_log w))" "en_graph en = g"
        by (auto simp: entries_of_def filter_empty_conv)
      then have "g \<in> set (logged_graphs (w_log w))" by (auto simp: logged_graphs_def)
      with False have "\<not> marker g w < last_position g (w_log w)"
        by (simp add: graphs_with_pending_entries_def)
      with glog.applied_bound [OF log, of g] show ?thesis by (simp add: last_position_length [OF log])
    qed
    then have "settled base g w1" using ok1 same(2) by (intro settledI) simp_all
    with w'(4) show ?thesis by blast
  qed (simp add: w'(3))
  moreover have "graphs_with_pending_entries (w_log w') = []"
    using every by (auto simp: graphs_with_pending_entries_def settled_def filter_empty_conv)
  moreover have "recover env w = (Inr \<lparr>rr_recovered = ?gs, rr_gated = []\<rparr>, w')"
    using w1(1) w'(1) by (simp add: recover_def bind_op_def)
  ultimately show ?thesis using w'(2) by blast
qed

theorem answered_recovery_completes_witness:
  "\<exists>w'. recover sample_env backlog_world = (Inr \<lparr>rr_recovered = [''policies''], rr_gated = []\<rparr>, w')
    \<and> (\<forall>g. settled bare g w') \<and> graphs_with_pending_entries (w_log w') = []"
  using answered_recovery_completes [OF sample_settings backlog_steps backlog_pending(1)] backlog_pending(2,3)
  by auto

end
