(* ===== verification/Gateway_Multi.thy ===== *)
theory Gateway_Multi
  imports Gateway_Submit
begin

text \<open>
  A set of groups over several graphs (\<^verbatim>\<open>submit_multi_graph_group\<close> of \<^verbatim>\<open>graph_gateway/gateway.py\<close>): one
  commit holds every leg that changes something, or nothing is logged at all.
\<close>

section \<open>What a set logs\<close>

text \<open>\<open>set_logged\<close>: one group for each member of \<open>changing\<close>, all of them together.\<close>

definition set_logged :: "(string \<times> primitive list) list \<Rightarrow> string \<Rightarrow> log_store \<Rightarrow> log_store \<Rightarrow> bool" where
  "set_logged changing audit s s' \<longleftrightarrow>
     (\<exists>rows. ls_groups s' = ls_groups s @ rows
        \<and> map gr_graph rows = map fst changing
        \<and> (\<forall>row \<in> set rows. gr_audit row = Some audit \<and> gr_swap row = None))
     \<and> (\<forall>g. entry_prims (entries_of g s') = entry_prims (entries_of g s)
          @ (case map_of changing g of None \<Rightarrow> [] | Some ps \<Rightarrow> ps))"

lemma commit_entries:
  assumes "append_in_transaction (draft g ps) audit swap s = Inr (row, s')" "list_all sendable ps"
  shows "entry_prims (entries_of h s') = entry_prims (entries_of h s) @ (if h = g then ps else [])"
  using inserted(1) [OF append_inserts [OF assms(1)], of h] decode_rows(1) [OF assms(2)]
  by (simp add: entry_prims_def)

lemma append_each_logged:
  assumes "append_each (map (\<lambda>(g, ps). draft g ps) changing) (Some audit) None s = Inr (rows, s')"
    and "\<forall>(g, ps) \<in> set changing. list_all sendable ps \<and> ps \<noteq> []" "distinct (map fst changing)"
  shows "ls_groups s' = ls_groups s @ rows \<and> map gr_graph rows = map fst changing
    \<and> (\<forall>row \<in> set rows. gr_audit row = Some audit \<and> gr_swap row = None \<and> 1 \<le> gr_first row \<and> 1 \<le> gr_last row)
    \<and> (\<forall>g. entry_prims (entries_of g s') = entry_prims (entries_of g s)
          @ (case map_of changing g of None \<Rightarrow> [] | Some ps \<Rightarrow> ps))"
  using assms
proof (induction changing arbitrary: s rows)
  case (Cons c changing)
  obtain g ps where c: "c = (g, ps)" by (cases c)
  from Cons.prems(1) c obtain row s1 rest where
    one: "append_in_transaction (draft g ps) (Some audit) None s = Inr (row, s1)"
    and others: "append_each (map (\<lambda>(g, ps). draft g ps) changing) (Some audit) None s1 = Inr (rest, s')"
    and rows: "rows = row # rest"
    by (auto simp: bind_result_Inr)
  have ps: "list_all sendable ps" "ps \<noteq> []" "map_of changing g = None"
    using Cons.prems(2,3) c by (auto simp: map_of_eq_None_iff)
  have row: "gr_graph row = g" "gr_audit row = Some audit" "gr_swap row = None" "1 \<le> gr_first row" "1 \<le> gr_last row"
    using commit_log(5) [OF one] ps(2) by (cases ps; simp)+
  from Cons.IH [OF others] Cons.prems(2,3) have IH: "ls_groups s' = ls_groups s1 @ rest \<and> map gr_graph rest = map fst changing
    \<and> (\<forall>row \<in> set rest. gr_audit row = Some audit \<and> gr_swap row = None \<and> 1 \<le> gr_first row \<and> 1 \<le> gr_last row)
    \<and> (\<forall>g. entry_prims (entries_of g s') = entry_prims (entries_of g s1)
          @ (case map_of changing g of None \<Rightarrow> [] | Some ps \<Rightarrow> ps))"
    by simp
  have "entry_prims (entries_of h s') = entry_prims (entries_of h s)
      @ (case map_of (c # changing) h of None \<Rightarrow> [] | Some ps \<Rightarrow> ps)" for h
    using IH commit_entries [OF one ps(1), of h] ps(3) c by (cases "h = g") auto
  with IH row rows commit_log(2) [OF one] c show ?case by simp
qed simp

section \<open>The legs of a committed set\<close>

lemma apply_legs_result:
  assumes "apply_legs_in_place env audit appended legs w = (r, w')" "world_ok base w" "settings_ok (ge_settings env)"
    and "distinct (map leg_graph legs)"
    and "\<forall>g row. appended g = Some row \<longrightarrow> gr_graph row = g \<and> 1 \<le> gr_first row \<and> 1 \<le> gr_last row"
  shows "written_world env base (w_log w) w'"
    and "case r of
        Inr os \<Rightarrow> map go_graph os = map leg_graph legs \<and> list_all outcome_valid os
          \<and> (\<forall>o1 \<in> set os. go_status o1 = Unchanged \<longleftrightarrow> appended (go_graph o1) = None)
          \<and> (\<forall>o1 \<in> set os. go_status o1 = Applied \<longrightarrow> settled base (go_graph o1) w')
      | Inl e \<Rightarrow> e = Gateway GraphLogPersistenceError
          \<or> (\<exists>g p. e = Gateway (GraphApplyError g p) \<and> g \<in> leg_graph ` set legs \<and> g \<in> w_blocked w')"
    and "h \<notin> leg_graph ` set legs \<Longrightarrow> settled base h w \<Longrightarrow> settled base h w'"
proof -
  have "written_world env base (w_log w) w" using assms(2,3) by (simp add: written_world_def same_groups_def)
  from preservesD [OF written.preserves_apply_legs this assms(1)] show "written_world env base (w_log w) w'" .
  have "(case r of
        Inr os \<Rightarrow> map go_graph os = map leg_graph legs \<and> list_all outcome_valid os
          \<and> (\<forall>o1 \<in> set os. go_status o1 = Unchanged \<longleftrightarrow> appended (go_graph o1) = None)
          \<and> (\<forall>o1 \<in> set os. go_status o1 = Applied \<longrightarrow> settled base (go_graph o1) w')
      | Inl e \<Rightarrow> e = Gateway GraphLogPersistenceError
          \<or> (\<exists>g p. e = Gateway (GraphApplyError g p) \<and> g \<in> leg_graph ` set legs \<and> g \<in> w_blocked w'))
    \<and> (\<forall>h. h \<notin> leg_graph ` set legs \<longrightarrow> settled base h w \<longrightarrow> settled base h w')"
    using assms(1,2,4)
  proof (induction legs arbitrary: w r)
    case Nil
    then show ?case by simp
  next
    case (Cons leg legs)
    let ?g = "leg_graph leg"
    let ?first = "case appended ?g of None \<Rightarrow> return_op (unchanged_outcome (as_group leg audit))
        | Some row \<Rightarrow> apply_committed env row (leg_checkpoint_requested leg)"
    obtain q w1 where first: "?first w = (q, w1)" by (cases "?first w")
    have one: "world_ok base w1 \<and> (\<forall>h. h \<noteq> ?g \<longrightarrow> settled base h w1 = settled base h w)
      \<and> (case q of Inr o1 \<Rightarrow> go_graph o1 = ?g \<and> outcome_valid o1
            \<and> (go_status o1 = Unchanged \<longleftrightarrow> appended ?g = None) \<and> (go_status o1 = Applied \<longrightarrow> settled base ?g w1)
          | Inl e \<Rightarrow> e = Gateway GraphLogPersistenceError
              \<or> (\<exists>p. e = Gateway (GraphApplyError ?g p) \<and> ?g \<in> w_blocked w1))"
    proof (cases "appended ?g")
      case None
      with first Cons.prems(2) show ?thesis
        by (auto simp: unchanged_outcome_def as_group_def outcome_valid_def checkpoint_state_def)
    next
      case (Some row)
      with first have run: "apply_committed env row (leg_checkpoint_requested leg) w = (q, w1)" by simp
      from assms(5) Some have row: "gr_graph row = ?g" "1 \<le> gr_first row" "1 \<le> gr_last row" by blast+
      note c = apply_committed_result [OF run Cons.prems(2) assms(3) row(2,3)]
      from c(1,2,5) row(1) Some show ?thesis by (auto simp: written_world_def split: sum.splits)
    qed
    show ?case
    proof (cases q)
      case (Inl e)
      have "r = Inl e \<and> w_blocked w' = w_blocked w1 \<and> memory_only w1 w'"
        using Cons.prems(1) first Inl
        by (auto simp: bind_op_def catch_op_def reconcile_all_def modify_op_def raise_op_def memory_only_def
            split: if_splits)
      then show ?thesis using one Inl settled_memory by auto
    next
      case (Inr o1)
      obtain q2 w2 where rest: "apply_legs_in_place env audit appended legs w1 = (q2, w2)"
        by (cases "apply_legs_in_place env audit appended legs w1")
      with Cons.prems(1) first Inr have r: "w' = w2" "r = (case q2 of Inl e \<Rightarrow> Inl e | Inr os \<Rightarrow> Inr (o1 # os))"
        by (auto simp: bind_op_def catch_op_def return_op_def split: sum.splits)
      note IH = Cons.IH [OF rest [folded r(1)]]
      have g: "?g \<notin> leg_graph ` set legs" "distinct (map leg_graph legs)" using Cons.prems(3) by auto
      from one Inr have ok1: "world_ok base w1" by simp
      note later = IH [OF ok1 g(2)]
      show ?thesis
      proof (cases q2)
        case (Inl e)
        with later r one show ?thesis by auto
      next
        case (Inr os)
        have "settled base ?g w'" if "go_status o1 = Applied" using that one \<open>q = Inr o1\<close> later g(1) by simp
        with later r one \<open>q = Inr o1\<close> Inr show ?thesis by auto
      qed
    qed
  qed
  then show "case r of
        Inr os \<Rightarrow> map go_graph os = map leg_graph legs \<and> list_all outcome_valid os
          \<and> (\<forall>o1 \<in> set os. go_status o1 = Unchanged \<longleftrightarrow> appended (go_graph o1) = None)
          \<and> (\<forall>o1 \<in> set os. go_status o1 = Applied \<longrightarrow> settled base (go_graph o1) w')
      | Inl e \<Rightarrow> e = Gateway GraphLogPersistenceError
          \<or> (\<exists>g p. e = Gateway (GraphApplyError g p) \<and> g \<in> leg_graph ` set legs \<and> g \<in> w_blocked w')"
    "h \<notin> leg_graph ` set legs \<Longrightarrow> settled base h w \<Longrightarrow> settled base h w'"
    by blast+
qed

section \<open>All or none\<close>

lemma append_set_eq:
  "append_set ds audit = raise_op Bad_Value \<or> append_set ds audit = log_write (append_each ds (Some audit) None)"
proof (cases "ds = [] \<or> map gd_graph ds \<noteq> sort (remdups (map gd_graph ds))")
  case True
  then have "append_groups ds (Some audit) False s = None" for s by (simp add: append_groups_def)
  then have "append_set ds audit = raise_op Bad_Value" by (intro ext) (simp add: append_set_def)
  then show ?thesis ..
next
  case False
  then have "append_groups ds (Some audit) False s = Some (append_each ds (Some audit) None s)" for s
    by (simp add: append_groups_def Let_def)
  then have "append_set ds audit = log_write (append_each ds (Some audit) None)"
    by (intro ext) (simp add: append_set_def)
  then show ?thesis ..
qed

lemma gates_memory: "for_each gate_open gs w = (r, w') \<Longrightarrow> w' = w"
proof (induction gs arbitrary: w w' r)
  case (Cons g gs)
  obtain q w1 where "gate_open g w = (q, w1)" by (cases "gate_open g w")
  moreover from this have "w1 = w" by (simp add: gate_open_def)
  moreover obtain q2 w2 where "for_each gate_open gs w = (q2, w2)" by (cases "for_each gate_open gs w")
  moreover from this Cons.IH have "w2 = w" by blast
  ultimately show ?case using Cons.prems by (auto simp: bind_op_def split: sum.splits)
qed simp

lemma multi_status_unchanged: "multi_status os = Unchanged \<longleftrightarrow> os \<noteq> [] \<and> (\<forall>o1 \<in> set os. go_status o1 = Unchanged)"
proof -
  have "go_status ` set os = {Unchanged} \<longleftrightarrow> os \<noteq> [] \<and> (\<forall>o1 \<in> set os. go_status o1 = Unchanged)"
    by (cases os) auto
  then show ?thesis by (simp add: multi_status_def Let_def)
qed

lemma sort_map_key: "map f (sort_key f xs) = sort (map f xs)"
  by (rule properties_for_sort [symmetric]) simp_all

lemma subseq_subset: "subseq xs ys \<Longrightarrow> set xs \<subseteq> set ys"
  by (induction rule: list_emb.induct) auto

lemma subseq_distinct: "subseq xs ys \<Longrightarrow> distinct ys \<Longrightarrow> distinct xs"
proof (induction rule: list_emb.induct)
  case (list_emb_Cons2 x y xs ys)
  then show ?case using list_emb_set [of "(=)" xs ys] by auto
qed auto

definition set_committed :: "graph_leg list \<Rightarrow> string \<Rightarrow> string set \<Rightarrow> world \<Rightarrow> world \<Rightarrow> bool" where
  "set_committed legs audit gs w w' \<longleftrightarrow>
     (\<exists>changing. set_logged changing audit (w_log w) (w_log w') \<and> gs = set (map fst changing)
        \<and> changing \<noteq> [] \<and> subseq (map fst changing) (map leg_graph (sort_key leg_graph legs))
        \<and> (\<forall>(g, ps) \<in> set changing. ps \<noteq> []))"

lemma zip_changing:
  fixes legs :: "graph_leg list" and staged :: "primitive list list"
  assumes "length staged = length legs"
  shows "subseq (map fst (filter (\<lambda>(leg, ps). ps \<noteq> []) (zip legs staged))) legs"
proof -
  have "subseq (filter P (zip legs staged)) (zip legs staged)" for P :: "graph_leg \<times> primitive list \<Rightarrow> bool" by simp
  then have "subseq (map fst (filter (\<lambda>(leg, ps). ps \<noteq> []) (zip legs staged))) (map fst (zip legs staged))"
    by (rule subseq_map)
  then show ?thesis using assms by simp
qed

text \<open>\<open>set_result\<close>: what the caller of a set learns, and what the log then holds.\<close>

definition set_result ::
    "(string \<Rightarrow> graph) \<Rightarrow> graph_leg list \<Rightarrow> string \<Rightarrow> world \<Rightarrow> (raised, multi_outcome) result \<Rightarrow> world \<Rightarrow> bool" where
  "set_result base legs audit w r w' \<longleftrightarrow> (case r of
      Inr mo \<Rightarrow> map go_graph (mo_legs mo) = sort (map leg_graph legs) \<and> list_all outcome_valid (mo_legs mo)
        \<and> (if mo_status mo = Unchanged then same_rows (w_log w) (w_log w')
           else set_committed legs audit {go_graph o1 |o1. o1 \<in> set (mo_legs mo) \<and> go_status o1 \<noteq> Unchanged} w w')
        \<and> (\<forall>o1 \<in> set (mo_legs mo). go_status o1 = Applied \<longrightarrow> settled base (go_graph o1) w')
    | Inl e \<Rightarrow> same_rows (w_log w) (w_log w')
        \<or> (\<exists>gs. set_committed legs audit gs w w')
          \<and> (e = Gateway GraphLogPersistenceError
             \<or> (\<exists>g p. e = Gateway (GraphApplyError g p) \<and> g \<in> leg_graph ` set legs \<and> g \<in> w_blocked w')))"

lemma changed_graphs:
  assumes "\<forall>o1 \<in> set os. go_status o1 = Unchanged \<longleftrightarrow> go_graph o1 \<notin> N" "N \<subseteq> go_graph ` set os"
  shows "{go_graph o1 |o1. o1 \<in> set os \<and> go_status o1 \<noteq> Unchanged} = N"
proof (intro equalityI subsetI)
  fix g
  assume "g \<in> N"
  with assms(2) obtain o1 where "o1 \<in> set os" "g = go_graph o1" by blast
  with assms(1) \<open>g \<in> N\<close> show "g \<in> {go_graph o1 |o1. o1 \<in> set os \<and> go_status o1 \<noteq> Unchanged}" by blast
next
  fix g
  assume "g \<in> {go_graph o1 |o1. o1 \<in> set os \<and> go_status o1 \<noteq> Unchanged}"
  with assms(1) show "g \<in> N" by blast
qed

lemma applied_set_result:
  assumes run: "apply_legs_in_place env audit (map_of (map (\<lambda>row. (gr_graph row, row)) rows)) ordered w2 = (q3, w3)"
    and ok: "world_ok base w2" "settings_ok (ge_settings env)"
    and legs: "ordered = sort_key leg_graph legs" "distinct (map leg_graph legs)"
    and rows: "map gr_graph rows = map fst changing" "\<forall>row \<in> set rows. 1 \<le> gr_first row \<and> 1 \<le> gr_last row"
    and sub: "subseq (map fst changing) (map leg_graph ordered)" "changing \<noteq> []"
    and committed: "\<And>v. same_groups (w_log w2) (w_log v) \<Longrightarrow> set_committed legs audit (set (map fst changing)) w v"
  shows "set_result base legs audit w (case q3 of Inl e \<Rightarrow> Inl e | Inr os \<Rightarrow> Inr (multi_outcome audit os)) w3"
proof -
  let ?appended = "map_of (map (\<lambda>row. (gr_graph row, row)) rows)"
  have ordered: "map leg_graph ordered = sort (map leg_graph legs)" "distinct (map leg_graph ordered)"
    "set ordered = set legs"
    using legs by (simp_all add: distinct_map sort_map_key)
  have found: "\<forall>g row. ?appended g = Some row \<longrightarrow> gr_graph row = g \<and> 1 \<le> gr_first row \<and> 1 \<le> gr_last row"
    using rows(2) by (auto dest!: map_of_SomeD)
  have names: "set (map gr_graph rows) = set (map fst changing)" using rows(1) by simp
  have none: "?appended g = None \<longleftrightarrow> g \<notin> set (map fst changing)" for g
    unfolding map_of_eq_None_iff names [symmetric] by (auto simp: image_iff)
  note l = apply_legs_result [OF run ok ordered(2) found]
  have all: "set_committed legs audit (set (map fst changing)) w w3"
    using l(1) by (intro committed) (simp add: written_world_def)
  show ?thesis
  proof (cases q3)
    case (Inl e)
    with l(2) all ordered(3) show ?thesis by (auto simp: set_result_def)
  next
    case q3: (Inr os)
    with l(2) have os: "map go_graph os = map leg_graph ordered" "list_all outcome_valid os"
      "\<forall>o1 \<in> set os. go_status o1 = Unchanged \<longleftrightarrow> go_graph o1 \<notin> set (map fst changing)"
      "\<forall>o1 \<in> set os. go_status o1 = Applied \<longrightarrow> settled base (go_graph o1) w3"
      by (simp_all add: none)
    have "set (map fst changing) \<subseteq> go_graph ` set os"
      using subseq_subset [OF sub(1)] unfolding os(1) [symmetric] by simp
    note changed = changed_graphs [OF os(3) this]
    with sub(2) have "multi_status os \<noteq> Unchanged"
      by (cases changing) (auto simp: multi_status_unchanged)
    then show ?thesis using q3 os all ordered(1) by (simp add: set_result_def multi_outcome_def changed)
  qed
qed

lemma commit_set_result:
  assumes run: "bind_op (guarded env name (append_set (map (\<lambda>(g, ps). draft g ps) changing) audit)) (\<lambda>rows.
      bind_op (apply_legs_in_place env audit (map_of (map (\<lambda>row. (gr_graph row, row)) rows)) ordered)
        (\<lambda>os. return_op (multi_outcome audit os))) w1 = (r, w')"
    and before: "same_rows (w_log w) (w_log w1)" "world_ok base w1" "settings_ok (ge_settings env)"
    and legs: "ordered = sort_key leg_graph legs" "distinct (map leg_graph legs)"
    and changing: "subseq (map fst changing) (map leg_graph ordered)" "changing \<noteq> []"
    and content: "\<forall>(g, ps) \<in> set changing. list_all sendable ps \<and> ps \<noteq> []"
  shows "set_result base legs audit w r w'"
proof -
  let ?drafts = "map (\<lambda>(g, ps). draft g ps) changing"
  have distinct: "distinct (map fst changing)"
    using changing(1) legs by (intro subseq_distinct [OF changing(1)]) (simp add: distinct_map)
  obtain q2 w2 where commit: "guarded env name (append_set ?drafts audit) w1 = (q2, w2)"
    by (cases "guarded env name (append_set ?drafts audit) w1")
  have failed: "r = Inl e \<and> w' = w2" if "q2 = Inl e" for e
    using run commit that by (simp add: bind_op_def)
  show ?thesis
  proof (cases "append_set ?drafts audit = raise_op Bad_Value")
    case True
    then have "q2 = Inl Bad_Value" "w2 = w1"
      using commit by (auto simp: guarded_def guard_call_def call_with_backoff_def call_from.simps raise_op_def)
    with failed before(1) show ?thesis by (simp add: set_result_def)
  next
    case False
    with append_set_eq commit
    have "guarded env name (log_write (append_each ?drafts (Some audit) None)) w1 = (q2, w2)" by metis
    from before(3) this show ?thesis
    proof (cases rule: guarded_write_cases)
      case (1 v)
      then obtain e where "q2 = Inl e" by blast
      with failed 1(1,2) before(1) outcomes_memory [OF 1(1)] show ?thesis
        by (simp add: memory_only_def set_result_def)
    next
      case (2 v rows s)
      note appended = append_each_logged [OF 2(2) content distinct]
      have s: "w_log w2 = s" using 2(3) by simp
      have old: "entries_of g (w_log w1) = entries_of g (w_log w)" "ls_groups (w_log w1) = ls_groups (w_log w)" for g
        using before(1) by (simp_all add: same_rows_def entries_of_def)
      have committed: "set_committed legs audit (set (map fst changing)) w v'" if "same_groups (w_log w2) (w_log v')" for v'
      proof -
        have "entries_of g (w_log v') = entries_of g s" for g using that s by (simp add: same_groups_def entries_of_def)
        then have "set_logged changing audit (w_log w) (w_log v')"
          using appended that old s by (auto simp: set_logged_def same_groups_def)
        then show ?thesis unfolding set_committed_def using changing content legs(1) by blast
      qed
      show ?thesis
      proof (cases q2)
        case (Inl e)
        with 2(4) have "e = Gateway GraphLogPersistenceError" by simp
        moreover have "set_committed legs audit (set (map fst changing)) w w2"
          by (rule committed) (simp add: same_groups_def)
        ultimately show ?thesis using failed [OF Inl] by (auto simp: set_result_def)
      next
        case (Inr rows')
        with 2(4) have rows': "rows' = rows" by simp
        let ?appended = "map_of (map (\<lambda>row. (gr_graph row, row)) rows)"
        obtain q3 w3 where legs_run: "apply_legs_in_place env audit ?appended ordered w2 = (q3, w3)"
          by (cases "apply_legs_in_place env audit ?appended ordered w2")
        have r: "w' = w3" "r = (case q3 of Inl e \<Rightarrow> Inl e | Inr os \<Rightarrow> Inr (multi_outcome audit os))"
          using run commit Inr rows' legs_run by (auto simp: bind_op_def return_op_def split: sum.splits)
        have "memory_only (w1\<lparr>w_log := s\<rparr>) w2"
          using outcomes_memory [OF 2(1)] 2(3) by (simp add: memory_only_def)
        moreover have "world_ok base (w1\<lparr>w_log := s\<rparr>)"
          using append_each_ok [OF 2(2), of base w1] before(2) content by auto
        ultimately have ok2: "world_ok base w2" using world_ok_memory by blast
        have "map gr_graph rows = map fst changing" "\<forall>row \<in> set rows. 1 \<le> gr_first row \<and> 1 \<le> gr_last row"
          using appended by auto
        from applied_set_result [OF legs_run ok2 before(3) legs this changing committed]
        show ?thesis unfolding r .
      qed
    qed
  qed
qed

lemma submit_multi_locked_result:
  assumes "submit_multi_locked env audit ordered w = (r, w')" "world_ok base w" "settings_ok (ge_settings env)"
    and "ordered = sort_key leg_graph legs" "distinct (map leg_graph legs)" "list_all valid_leg legs" "legs \<noteq> []"
  shows "set_result base legs audit w r w'"
proof -
  have legs: "map leg_graph ordered = sort (map leg_graph legs)" "set ordered = set legs" "ordered \<noteq> []"
    using assms(4,5,7) by (auto simp: sort_map_key) (metis set_empty set_sort)
  have wf: "\<forall>leg \<in> set ordered. list_all wf_primitive (leg_primitives leg)"
    using assms(6) legs(2) by (auto simp: list_all_iff valid_leg_def)
  obtain q w1 where stage: "stage_legs env audit ordered w = (q, w1)" by (cases "stage_legs env audit ordered w")
  have start: "unwritten_world env base (w_log w) w" using assms(2,3) by (simp add: unwritten_world_def)
  note stages = unwritten.preserves_stage_legs [OF wf]
  have rows1: "same_rows (w_log w) (w_log w1)" and ok1: "world_ok base w1"
    using preservesD [OF stages start stage] by (simp_all add: unwritten_world_def)
  show ?thesis
  proof (cases q)
    case (Inl e)
    with assms(1) stage have "r = Inl e" "w' = w1" by (auto simp: submit_multi_locked_def bind_op_def)
    with rows1 show ?thesis by (simp add: set_result_def)
  next
    case (Inr staged)
    with preservesR [OF stages start] stage
    have staged: "length staged = length ordered" "list_all (list_all sendable) staged" by blast+
    define pairs where "pairs = filter (\<lambda>(leg, effective). effective \<noteq> []) (zip ordered staged)"
    define changing where "changing = map (\<lambda>(leg, ps). (leg_graph leg, ps)) pairs"
    have drafts: "map (\<lambda>(leg, effective). draft (leg_graph leg) effective) pairs = map (\<lambda>(g, ps). draft g ps) changing"
      and names: "map fst changing = map leg_graph (map fst pairs)"
      by (simp_all add: changing_def case_prod_unfold)
    have sub: "subseq (map fst changing) (map leg_graph ordered)"
      unfolding names pairs_def by (rule subseq_map) (rule zip_changing [OF staged(1)])
    have content: "\<forall>(g, ps) \<in> set changing. list_all sendable ps \<and> ps \<noteq> []"
      using staged(2) by (auto simp: changing_def pairs_def list_all_iff dest!: set_zip_rightD)
    show ?thesis
    proof (cases "pairs = []")
      case True
      with assms(1) stage Inr have r: "w' = w1"
        "r = Inr (multi_outcome audit (map (\<lambda>leg. unchanged_outcome (as_group leg audit)) ordered))"
        unfolding submit_multi_locked_def bind_op_def pairs_def by (auto simp: Let_def return_op_def)
      show ?thesis
        using rows1 legs(1,3)
        by (auto simp: set_result_def r multi_outcome_def multi_status_unchanged unchanged_outcome_def as_group_def
            comp_def list_all_iff outcome_valid_def checkpoint_state_def)
    next
      case False
      have "bind_op (guarded env (gd_graph (hd (map (\<lambda>(g, ps). draft g ps) changing)))
          (append_set (map (\<lambda>(g, ps). draft g ps) changing) audit)) (\<lambda>rows.
        bind_op (apply_legs_in_place env audit (map_of (map (\<lambda>row. (gr_graph row, row)) rows)) ordered)
        (\<lambda>os. return_op (multi_outcome audit os))) w1 = (r, w')"
        using assms(1) False
        unfolding submit_multi_locked_def bind_op_def [of "stage_legs env audit ordered"] stage Inr Let_def
        by (simp add: pairs_def [symmetric] drafts)
      from commit_set_result [OF this rows1 ok1 assms(3,4,5) sub _ content] False
      show ?thesis by (simp add: changing_def)
    qed
  qed
qed


definition sample_legs :: "graph_leg list" where
  "sample_legs =
     [\<lparr>leg_graph = ''q'', leg_primitives = [UpsertNode ''Role'' ''r'' [] None], leg_preconditions = [],
       leg_replace = False, leg_checkpoint_requested = True\<rparr>,
      \<lparr>leg_graph = ''p'', leg_primitives = [DeleteNode ''Role'' ''r''], leg_preconditions = [0],
       leg_replace = False, leg_checkpoint_requested = False\<rparr>]"


text \<open>A lost answer of the commit of the set: the caller is told of a persistence error, and the leg is logged.\<close>

lemma lost_set_is_logged:
  "case submit_multi_graph_group sample_env ''e'' sample_legs False
          (audited ''e'' (first_world bare (replicate 13 Answered @ [Lost]))) of
     (r, w) \<Rightarrow> (case r of Inl e \<Rightarrow> e = Gateway GraphLogPersistenceError | Inr mo \<Rightarrow> False)
       \<and> length (entries_of ''q'' (w_log w)) = 1"
  by code_simp

end
