(* ===== verification/Audit_Trail.thy ===== *)
theory Audit_Trail
  imports Prelude
begin

text \<open>
  The audit trail (\<^verbatim>\<open>ps_service/audit\<close>): the typed \<open>details\<close> of an action, the insert-only rows, the two ways of
  writing one (on the caller's own transaction, or in a transaction of its own), the fail-closed
  opening row and the best-effort follow-up row, who an operation is attributed to, and the filtered,
  newest-first, keyset-paginated query.

  The rows are the list of the events in the order they were committed.  What the database does with
  one call is its \<open>fate\<close>: it runs, it is not configured, it cannot be reached, it breaks before the
  commit, or the commit happens and its answer is lost.
\<close>

section \<open>Details models and rows\<close>

text \<open>
  A details model lists its fields: the name, what the field accepts, and its default (\<open>None\<close>: the
  field is required; \<open>Some Unset\<close>: it may be \<^verbatim>\<open>None\<close> and is by default).  A payload is accepted when it
  names no other field and every field has an accepted value or a default; fields left unset are not
  stored.
\<close>

datatype details_value = Text string | Texts "string list" | Unset

datatype field_kind = One_of "string list" | Any_text | Text_list

type_synonym details_model = "(string \<times> field_kind \<times> details_value option) list"

type_synonym audit_details = "(string, details_value) dict"

type_synonym action_registry = "(string, details_model) dict"

fun accepts :: "field_kind \<Rightarrow> details_value \<Rightarrow> bool" where
  "accepts (One_of literals) (Text t) = (t \<in> set literals)"
| "accepts Any_text (Text t) = True"
| "accepts Text_list (Texts ts) = True"
| "accepts _ _ = False"

definition stored_value :: "string \<Rightarrow> details_value \<Rightarrow> audit_details" where
  "stored_value k v = (if v = Unset then [] else [(k, v)])"

fun details_field :: "audit_details \<Rightarrow> string \<times> field_kind \<times> details_value option \<Rightarrow> audit_details option" where
  "details_field payload (k, kind, dflt) =
     (case map_of payload k of
        Some v \<Rightarrow> (if accepts kind v \<or> v = Unset \<and> dflt = Some Unset then Some (stored_value k v) else None)
      | None \<Rightarrow> map_option (stored_value k) dflt)"

definition validate_details :: "details_model \<Rightarrow> audit_details \<Rightarrow> audit_details option" where
  "validate_details model payload =
     (if list_all (\<lambda>(k, v). k \<in> fst ` set model) payload
      then map_option concat (those (map (details_field payload) model)) else None)"

definition register_audit_action :: "string \<Rightarrow> details_model \<Rightarrow> action_registry \<Rightarrow> action_registry option" where
  "register_audit_action action model registry =
     (case map_of registry action of Some m \<Rightarrow> None | None \<Rightarrow> Some (AList.update action model registry))"

definition resolve_details_model :: "action_registry \<Rightarrow> string \<Rightarrow> details_model option" where
  "resolve_details_model registry action = map_of registry action"

datatype audit_outcome = Effect_applied | Effect_rejected | Effect_failed

record audit_event =
  ev_actor :: "string \<times> string"
  ev_action :: string
  ev_resource_type :: string
  ev_resource_id :: string
  ev_outcome :: audit_outcome
  ev_details :: audit_details

type_synonym trail = "audit_event list"

datatype audit_error =
    AuditUnknownActionError
  | AuditInvalidDetailsError
  | AuditPostgresUnavailableError
  | AuditPersistenceError

datatype fate = Db_runs | Db_unconfigured | Db_unreachable | Db_breaks | Db_commit_lost

section \<open>Writing a row\<close>

definition audit_record :: "action_registry \<Rightarrow> audit_event \<Rightarrow> trail \<Rightarrow> (audit_error, trail) result" where
  "audit_record registry ev trail =
     (case resolve_details_model registry (ev_action ev) of
        None \<Rightarrow> Inl AuditUnknownActionError
      | Some model \<Rightarrow>
          (case validate_details model (ev_details ev) of
             None \<Rightarrow> Inl AuditInvalidDetailsError
           | Some d \<Rightarrow> Inr (trail @ [ev\<lparr>ev_details := d\<rparr>])))"

definition record_standalone ::
    "action_registry \<Rightarrow> fate \<Rightarrow> audit_event \<Rightarrow> trail \<Rightarrow> (audit_error, unit) result \<times> trail" where
  "record_standalone registry f ev trail =
     (if f = Db_unconfigured \<or> f = Db_unreachable then (Inl AuditPostgresUnavailableError, trail)
      else (case audit_record registry ev trail of
              Inl e \<Rightarrow> (Inl e, trail)
            | Inr trail' \<Rightarrow>
                (if f = Db_runs then (Inr (), trail')
                 else (Inl AuditPersistenceError, if f = Db_commit_lost then trail' else trail))))"

datatype emit_error = AuditTrailUnavailableError

definition record_opening_row ::
    "action_registry \<Rightarrow> fate \<Rightarrow> audit_event \<Rightarrow> trail \<Rightarrow> (emit_error, unit) result \<times> trail" where
  "record_opening_row registry f ev trail =
     (case record_standalone registry f (ev\<lparr>ev_outcome := Effect_applied\<rparr>) trail of
        (Inl e, t) \<Rightarrow> (Inl AuditTrailUnavailableError, t)
      | (Inr _, t) \<Rightarrow> (Inr (), t))"

definition record_follow_up_row :: "action_registry \<Rightarrow> fate \<Rightarrow> audit_event \<Rightarrow> trail \<Rightarrow> bool \<times> trail" where
  "record_follow_up_row registry f ev trail =
     (case record_standalone registry f ev trail of (Inl e, t) \<Rightarrow> (False, t) | (Inr _, t) \<Rightarrow> (True, t))"

text \<open>Who an operation is attributed to: the verified caller, else the bypass sentinel, else nobody.\<close>

definition local_test_bypass_actor :: string where
  "local_test_bypass_actor = ''system:local-test-bypass''"

definition resolve_audit_actor :: "(string \<times> string) option \<Rightarrow> bool \<Rightarrow> (string \<times> string) option" where
  "resolve_audit_actor caller bypass =
     (case caller of
        Some p \<Rightarrow> Some p
      | None \<Rightarrow> (if bypass then Some (local_test_bypass_actor, local_test_bypass_actor) else None))"

section \<open>Querying\<close>

text \<open>
  A stored row has its generated id (the 128-bit value of the UUID) and the time it was written (in
  microseconds).  \<open>query_page\<close> is the query with its cursor decoded: the position of the last row of the
  page before.
\<close>

record audit_row = audit_event +
  row_id :: nat
  occurred_at :: int

text \<open>
  A \<^verbatim>\<open>datetime\<close> of a caller: with an offset, an instant; without one, a local time, which the database
  reads in its session's time zone (\<open>zone\<close>).  Python orders two of a kind, and raises on two of different kinds.
\<close>

datatype timestamp = Naive int | Aware int

type_synonym time_zone = "int \<Rightarrow> int"

fun instant :: "time_zone \<Rightarrow> timestamp \<Rightarrow> int" where
  "instant zone (Naive t) = zone t"
| "instant zone (Aware t) = t"

fun is_later :: "timestamp \<Rightarrow> timestamp \<Rightarrow> bool option" where
  "is_later (Naive a) (Naive b) = Some (b < a)"
| "is_later (Aware a) (Aware b) = Some (b < a)"
| "is_later _ _ = None"

record audit_filters =
  f_actor_subject :: "string option"
  f_actor_issuer :: "string option"
  f_resource_type :: "string option"
  f_resource_id :: "string option"
  f_action :: "string option"
  f_occurred_from :: "timestamp option"
  f_occurred_to :: "timestamp option"
  f_details :: "(string, string) dict option"

definition audit_details_filter_keys :: "string list" where
  "audit_details_filter_keys = [''celex'', ''regulatory_instrument_id'', ''instrument_id'']"

definition holds_if_set :: "('a \<Rightarrow> bool) \<Rightarrow> 'a option \<Rightarrow> bool" where
  "holds_if_set P x = (case x of None \<Rightarrow> True | Some v \<Rightarrow> P v)"

definition row_position :: "audit_row \<Rightarrow> int \<times> nat" where
  "row_position r = (occurred_at r, row_id r)"

definition selects :: "time_zone \<Rightarrow> audit_filters \<Rightarrow> audit_row \<Rightarrow> bool" where
  "selects zone f r \<longleftrightarrow>
     holds_if_set (\<lambda>v. fst (ev_actor r) = v) (f_actor_subject f)
     \<and> holds_if_set (\<lambda>v. snd (ev_actor r) = v) (f_actor_issuer f)
     \<and> holds_if_set (\<lambda>v. ev_resource_type r = v) (f_resource_type f)
     \<and> holds_if_set (\<lambda>v. ev_resource_id r = v) (f_resource_id f)
     \<and> holds_if_set (\<lambda>v. ev_action r = v) (f_action f)
     \<and> holds_if_set (list_all (\<lambda>(k, v). map_of (ev_details r) k = Some (Text v))) (f_details f)
     \<and> holds_if_set (\<lambda>t. instant zone t \<le> occurred_at r) (f_occurred_from f)
     \<and> holds_if_set (\<lambda>t. occurred_at r \<le> instant zone t) (f_occurred_to f)"

definition details_filter_ok :: "audit_filters \<Rightarrow> bool" where
  "details_filter_ok f \<longleftrightarrow> holds_if_set (list_all (\<lambda>(k, v). k \<in> set audit_details_filter_keys)) (f_details f)"

definition newest_first :: "audit_row list \<Rightarrow> audit_row list" where
  "newest_first rows = rev (sort_key row_position rows)"

record audit_page =
  page_events :: "audit_row list"
  next_cursor :: "(int \<times> nat) option"

datatype query_error = Query_KeyError | Query_unavailable

definition fetched_rows :: "time_zone \<Rightarrow> audit_filters \<Rightarrow> (int \<times> nat) option \<Rightarrow> nat \<Rightarrow> audit_row list \<Rightarrow> audit_row list" where
  "fetched_rows zone f bound page_size rows =
     take (page_size + 1)
       (newest_first (filter (\<lambda>r. selects zone f r \<and> holds_if_set (\<lambda>b. row_position r < b) bound) rows))"

definition query_page ::
    "fate \<Rightarrow> time_zone \<Rightarrow> audit_filters \<Rightarrow> (int \<times> nat) option \<Rightarrow> nat \<Rightarrow> audit_row list \<Rightarrow> (query_error, audit_page) result" where
  "query_page ft zone f bound page_size rows =
     (if \<not> details_filter_ok f then Inl Query_KeyError
      else if ft \<noteq> Db_runs then Inl Query_unavailable
      else let records = fetched_rows zone f bound page_size rows; events = take page_size records in
        Inr \<lparr>page_events = events,
             next_cursor = (if page_size < length records \<and> events \<noteq> []
                            then Some (row_position (last events)) else None)\<rparr>)"

text \<open>A reader follows the pages until there is no next one; \<open>budget\<close> pages are enough for as many rows.\<close>

fun walk_pages :: "nat \<Rightarrow> time_zone \<Rightarrow> audit_filters \<Rightarrow> (int \<times> nat) option \<Rightarrow> nat \<Rightarrow> audit_row list \<Rightarrow> audit_row list option" where
  "walk_pages 0 zone f bound page_size rows = None"
| "walk_pages (Suc budget) zone f bound page_size rows =
     (case query_page Db_runs zone f bound page_size rows of
        Inl e \<Rightarrow> None
      | Inr pg \<Rightarrow>
          (case next_cursor pg of
             None \<Rightarrow> Some (page_events pg)
           | Some b \<Rightarrow> map_option (\<lambda>rest. page_events pg @ rest) (walk_pages budget zone f (Some b) page_size rows)))"

section \<open>Laws\<close>

lemma record_standalone_cases:
  "snd (record_standalone registry f ev trail) = trail
   \<or> (\<exists>d. snd (record_standalone registry f ev trail) = trail @ [ev\<lparr>ev_details := d\<rparr>])"
  by (auto simp: record_standalone_def audit_record_def split: option.splits)

lemma record_standalone_written:
  "fst (record_standalone registry f ev trail) = Inr () \<Longrightarrow>
   \<exists>model d. resolve_details_model registry (ev_action ev) = Some model
     \<and> validate_details model (ev_details ev) = Some d
     \<and> snd (record_standalone registry f ev trail) = trail @ [ev\<lparr>ev_details := d\<rparr>]"
  by (auto simp: record_standalone_def audit_record_def split: if_splits option.splits)

subsection \<open>Pages\<close>

lemma newest_first_filter: "newest_first (filter P rows) = filter P (newest_first rows)"
  by (simp only: newest_first_def filter_sort [symmetric] rev_filter)

lemma set_newest_first [simp]: "set (newest_first rows) = set rows"
  by (simp add: newest_first_def)

lemma length_newest_first [simp]: "length (newest_first rows) = length rows"
  by (simp add: newest_first_def)

definition descending :: "audit_row list \<Rightarrow> bool" where
  "descending rows \<longleftrightarrow> sorted_wrt (\<lambda>r s. row_position s < row_position r) rows"

lemma newest_first_descending:
  assumes "distinct (map row_position rows)"
  shows "descending (newest_first rows)"
proof -
  have "distinct (map row_position (sort_key row_position rows))"
    using assms by (metis distinct_map distinct_sort set_sort)
  moreover have "sorted (map row_position (sort_key row_position rows))" by simp
  ultimately have "sorted_wrt (<) (map row_position (sort_key row_position rows))"
    by (simp add: strict_sorted_iff)
  then show ?thesis
    by (simp add: descending_def newest_first_def sorted_wrt_rev sorted_wrt_map)
qed

lemma below_last_of_prefix:
  assumes "descending xs" "0 < p" "p < length xs"
  shows "filter (\<lambda>r. row_position r < row_position (last (take p xs))) xs = drop p xs"
proof -
  let ?l = "row_position (last (take p xs))"
  have at: "last (take p xs) = xs ! (p - 1)"
    using assms by (cases "take p xs = []") (auto simp: last_conv_nth min_def)
  have split: "filter Q xs = filter Q (take p xs) @ filter Q (drop p xs)" for Q
    by (metis append_take_drop_id filter_append)
  have nth: "i < j \<Longrightarrow> j < length xs \<Longrightarrow> row_position (xs ! j) < row_position (xs ! i)" for i j
    using assms(1) by (auto simp: descending_def sorted_wrt_iff_nth_less)
  have "filter (\<lambda>r. row_position r < ?l) (take p xs) = []"
  proof (rule filter_False, rule ballI)
    fix r assume "r \<in> set (take p xs)"
    then obtain i where i: "i < p" "r = xs ! i" using assms(3) by (auto simp: in_set_conv_nth)
    show "\<not> row_position r < ?l"
    proof (cases "i = p - 1")
      case False
      with i have "row_position (xs ! (p - 1)) < row_position (xs ! i)" using nth assms(3) by simp
      then show ?thesis using i at by auto
    qed (use i at in simp)
  qed
  moreover have "filter (\<lambda>r. row_position r < ?l) (drop p xs) = drop p xs"
  proof (rule filter_True, rule ballI)
    fix r assume "r \<in> set (drop p xs)"
    then obtain i where "i < length xs - p" "r = xs ! (p + i)" by (auto simp: in_set_conv_nth)
    then show "row_position r < ?l" using nth[of "p - 1" "p + i"] at assms(2) by simp
  qed
  ultimately show ?thesis using split by simp
qed

definition matching_rows :: "time_zone \<Rightarrow> audit_filters \<Rightarrow> (int \<times> nat) option \<Rightarrow> audit_row list \<Rightarrow> audit_row list" where
  "matching_rows zone f bound rows =
     filter (\<lambda>r. holds_if_set (\<lambda>b. row_position r < b) bound) (newest_first (filter (selects zone f) rows))"

lemma fetched_rows_eq: "fetched_rows zone f bound p rows = take (p + 1) (matching_rows zone f bound rows)"
  by (simp add: fetched_rows_def matching_rows_def newest_first_filter conj_commute)

lemma matching_descending:
  assumes "distinct (map row_position rows)" shows "descending (matching_rows zone f bound rows)"
  using newest_first_descending[OF assms]
  by (simp add: descending_def matching_rows_def newest_first_filter sorted_wrt_filter)

lemma matching_next:
  assumes "distinct (map row_position rows)" "0 < p" "p < length (matching_rows zone f bound rows)"
  shows "matching_rows zone f (Some (row_position (last (take p (matching_rows zone f bound rows))))) rows
         = drop p (matching_rows zone f bound rows)"
proof -
  let ?M = "matching_rows zone f bound rows" and ?b = "row_position (last (take p (matching_rows zone f bound rows)))"
  have "last (take p ?M) \<in> set ?M"
    using assms(2,3) by (metis in_set_takeD last_in_set length_greater_0_conv less_trans take_eq_Nil neq0_conv)
  then have inside: "holds_if_set (\<lambda>b. ?b < b) bound"
    by (simp add: matching_rows_def)
  have "matching_rows zone f (Some ?b) rows = filter (\<lambda>r. row_position r < ?b) ?M"
    using inside unfolding matching_rows_def filter_filter
    by (intro filter_cong) (auto simp: holds_if_set_def split: option.splits)
  then show ?thesis
    using below_last_of_prefix[OF matching_descending[OF assms(1)] assms(2,3)] by simp
qed

lemma query_page_runs:
  assumes "details_filter_ok f" "0 < p"
  shows "query_page Db_runs zone f bound p rows
    = Inr \<lparr>page_events = take p (matching_rows zone f bound rows),
           next_cursor = (if p < length (matching_rows zone f bound rows)
             then Some (row_position (last (take p (matching_rows zone f bound rows)))) else None)\<rparr>"
  using assms by (auto simp: query_page_def fetched_rows_eq Let_def min_def)

lemma walk_pages_from:
  assumes "distinct (map row_position rows)" "details_filter_ok f" "0 < p"
    "length (matching_rows zone f bound rows) < budget"
  shows "walk_pages budget zone f bound p rows = Some (matching_rows zone f bound rows)"
  using assms(4)
proof (induction budget arbitrary: bound)
  case (Suc budget)
  let ?M = "matching_rows zone f bound rows"
  show ?case
  proof (cases "p < length ?M")
    case True
    let ?b = "Some (row_position (last (take p ?M)))"
    have rest: "matching_rows zone f ?b rows = drop p ?M" by (rule matching_next[OF assms(1,3) True])
    have "length (matching_rows zone f ?b rows) < budget" using rest Suc.prems True assms(3) by simp
    from Suc.IH[OF this] show ?thesis
      using True rest by (simp add: query_page_runs[OF assms(2,3)])
  qed (simp add: query_page_runs[OF assms(2,3)])
qed simp

text \<open>C23. Pages.
  Following the cursors from the first page of any accepted filter, with any positive page size, the
  reader sees exactly the rows the filter selects, each once and newest first, and is told there is no
  next page after at most one more page than there are such rows. The rows have distinct positions (time and
  id; the id is the table's key); a bound without an offset is read in the time zone of the session, any zone.\<close>

theorem pages_cover_the_trail:
  assumes "distinct (map row_position rows)" "details_filter_ok f" "0 < page_size"
  shows "walk_pages (length (filter (selects zone f) rows) + 1) zone f None page_size rows
    = Some (newest_first (filter (selects zone f) rows))"
proof -
  have "matching_rows zone f None rows = newest_first (filter (selects zone f) rows)"
    by (simp add: matching_rows_def holds_if_set_def)
  then show ?thesis using walk_pages_from[OF assms, where bound = None] by (simp del: walk_pages.simps)
qed

definition sample_audit_row :: "string \<Rightarrow> nat \<Rightarrow> int \<Rightarrow> audit_row" where
  "sample_audit_row act i t = \<lparr>ev_actor = (''ada'', ''idp''), ev_action = act, ev_resource_type = ''principal'',
     ev_resource_id = ''bob'', ev_outcome = Effect_applied, ev_details = [], row_id = i, occurred_at = t\<rparr>"

definition sample_zone :: time_zone where
  "sample_zone t = t - 58"

definition sample_audit_filters :: audit_filters where
  "sample_audit_filters = \<lparr>f_actor_subject = Some ''ada'', f_actor_issuer = None, f_resource_type = None,
     f_resource_id = None, f_action = Some ''access_role.grant'', f_occurred_from = Some (Naive 60), f_occurred_to = None,
     f_details = None\<rparr>"

definition sample_audit_rows :: "audit_row list" where
  "sample_audit_rows = [sample_audit_row ''access_role.grant'' 7 1, sample_audit_row ''access_role.grant'' 3 2,
     sample_audit_row ''access_role.revoke'' 4 3, sample_audit_row ''access_role.grant'' 9 5,
     sample_audit_row ''access_role.grant'' 8 5]"

theorem pages_cover_the_trail_witness:
  "walk_pages 4 sample_zone sample_audit_filters None 2 sample_audit_rows
     = Some [sample_audit_row ''access_role.grant'' 9 5, sample_audit_row ''access_role.grant'' 8 5,
             sample_audit_row ''access_role.grant'' 3 2]"
proof -
  have "distinct (map row_position sample_audit_rows)" "details_filter_ok sample_audit_filters" by code_simp+
  then have "walk_pages (length (filter (selects sample_zone sample_audit_filters) sample_audit_rows) + 1) sample_zone sample_audit_filters None 2
      sample_audit_rows = Some (newest_first (filter (selects sample_zone sample_audit_filters) sample_audit_rows))"
    by (intro pages_cover_the_trail) simp_all
  moreover have "length (filter (selects sample_zone sample_audit_filters) sample_audit_rows) + 1 = 4" by code_simp
  moreover have "newest_first (filter (selects sample_zone sample_audit_filters) sample_audit_rows)
      = [sample_audit_row ''access_role.grant'' 9 5, sample_audit_row ''access_role.grant'' 8 5,
         sample_audit_row ''access_role.grant'' 3 2]" by code_simp
  ultimately show ?thesis by (simp only:)
qed

end
