(* ===== verification/Access_Store.thy ===== *)
theory Access_Store
  imports Audit_Trail
begin

text \<open>
  Access roles (\<^verbatim>\<open>ps_service/authz\<close>): the roles, the grant and revoke rules (\<^verbatim>\<open>rules.py\<close>), the audit actions
  (\<^verbatim>\<open>audit_actions.py\<close>) and the store (\<^verbatim>\<open>store.py\<close>).  The state is the assignment table, whose rows are in
  insertion order and unique per principal and role, next to the audit trail, because a state change
  and its audit row commit together.  Every store call is one database transaction and meets a \<open>fate\<close>.
\<close>

section \<open>Roles and rules\<close>

datatype access_role = AUTHENTICATED_USER | SYSTEM_OWNER | SYSTEM_ADMIN | POLICY_MANAGER | COMPLIANCE_OFFICER

fun role_value :: "access_role \<Rightarrow> string" where
  "role_value AUTHENTICATED_USER = ''AuthenticatedUser''"
| "role_value SYSTEM_OWNER = ''SystemOwner''"
| "role_value SYSTEM_ADMIN = ''SystemAdmin''"
| "role_value POLICY_MANAGER = ''PolicyManager''"
| "role_value COMPLIANCE_OFFICER = ''ComplianceOfficer''"

definition access_roles :: "access_role list" where
  "access_roles = [AUTHENTICATED_USER, SYSTEM_OWNER, SYSTEM_ADMIN, POLICY_MANAGER, COMPLIANCE_OFFICER]"

definition role_of :: "string \<Rightarrow> access_role option" where
  "role_of name = find (\<lambda>r. role_value r = name) access_roles"

lemma role_of_value [simp]: "role_of (role_value r) = Some r"
  by (cases r) (simp_all add: role_of_def access_roles_def)

lemma role_value_inject [simp]: "role_value r = role_value r' \<longleftrightarrow> r = r'"
  by (metis option.inject role_of_value)

lemma role_of_Some: "role_of name = Some r \<longleftrightarrow> role_value r = name"
proof
  show "role_of name = Some r \<Longrightarrow> role_value r = name"
    by (auto simp: role_of_def find_Some_iff)
qed auto

type_synonym principal = "string \<times> string"

datatype access_action = Grant_action | Revoke_action

record rule_context =
  ctx_actor :: principal
  ctx_target :: principal
  ctx_role :: access_role
  ctx_action :: access_action
  active_system_owner_count :: nat
  actor_is_system_owner :: bool

definition block_self_target :: "rule_context \<Rightarrow> bool" where
  "block_self_target ctx \<longleftrightarrow>
     ctx_actor ctx \<noteq> ctx_target ctx
     \<or> actor_is_system_owner ctx \<and> \<not> (ctx_action ctx = Revoke_action \<and> ctx_role ctx = SYSTEM_OWNER)"

definition enforce_system_owner_floor :: "rule_context \<Rightarrow> bool" where
  "enforce_system_owner_floor ctx \<longleftrightarrow> \<not> active_system_owner_count ctx \<le> 1"

section \<open>Audit actions\<close>

definition managed_role_values :: "string list" where
  "managed_role_values = [''SystemOwner'', ''SystemAdmin'', ''PolicyManager'', ''ComplianceOfficer'']"

definition access_registry :: action_registry where
  "access_registry =
     [(''access_role.bootstrap'', [(''access_role'', One_of [''SystemOwner''], Some (Text ''SystemOwner''))]),
      (''access_role.bootstrap_rejected'',
         [(''reason_code'', One_of [''bootstrap_identity_mismatch''], Some (Text ''bootstrap_identity_mismatch''))]),
      (''access_role.grant'',
         [(''access_role'', One_of managed_role_values, None),
          (''reason_code'', One_of [''access_denied'', ''self_grant_blocked''], Some Unset)]),
      (''access_role.revoke'',
         [(''access_role'', One_of managed_role_values, None),
          (''reason_code'', One_of [''access_denied'', ''self_revoke_blocked'', ''system_owner_floor_violation''], Some Unset)]),
      (''access.gate'', [(''required_role'', One_of managed_role_values, None)])]"

section \<open>The store\<close>

record assignment =
  holder :: principal
  held_role :: access_role
  granted_by :: principal

record access_state =
  assignments :: "assignment list"
  audit_trail :: trail

record access_config =
  bootstrap_owner_subject :: "string option"
  bootstrap_owner_issuer :: "string option"
  bypass_active :: bool
  registered_actions :: "string list"
  registered_resource_types :: "string list"
  collation_key :: "string \<Rightarrow> nat list"
  row_stamp :: "nat \<Rightarrow> nat \<times> int"
  session_zone :: time_zone

datatype store_error =
    StatePostgresConnectionError
  | AccessRoleAssignmentPersistenceError
  | AccessRoleSystemOwnerFloorRaceError
  | Store_audit_error audit_error

definition bootstrap_sentinel :: principal where
  "bootstrap_sentinel = (''system:bootstrap'', ''system:bootstrap'')"

definition insert_assignment :: "assignment \<Rightarrow> assignment list \<Rightarrow> assignment list" where
  "insert_assignment a rows =
     (if \<exists>b \<in> set rows. holder b = holder a \<and> held_role b = held_role a then rows else rows @ [a])"

definition delete_assignment :: "principal \<Rightarrow> access_role \<Rightarrow> assignment list \<Rightarrow> assignment list" where
  "delete_assignment p r rows = filter (\<lambda>a. \<not> (holder a = p \<and> held_role a = r)) rows"

definition owner_count :: "assignment list \<Rightarrow> nat" where
  "owner_count rows = length (filter (\<lambda>a. held_role a = SYSTEM_OWNER) rows)"

definition roles_held :: "principal \<Rightarrow> assignment list \<Rightarrow> access_role set" where
  "roles_held p rows = held_role ` set (filter (\<lambda>a. holder a = p) rows)"

text \<open>
  One transaction: a body that raises rolls back; a body that returns commits when the database runs.
\<close>

definition transact ::
    "fate \<Rightarrow> (access_state \<Rightarrow> (store_error, 'a \<times> access_state) result) \<Rightarrow> access_state
     \<Rightarrow> (store_error, 'a) result \<times> access_state" where
  "transact f body s =
     (case f of
        Db_unconfigured \<Rightarrow> (Inl StatePostgresConnectionError, s)
      | Db_unreachable \<Rightarrow> (Inl AccessRoleAssignmentPersistenceError, s)
      | Db_breaks \<Rightarrow> (Inl AccessRoleAssignmentPersistenceError, s)
      | Db_commit_lost \<Rightarrow>
          (Inl AccessRoleAssignmentPersistenceError, case body s of Inl e \<Rightarrow> s | Inr (x, s') \<Rightarrow> s')
      | Db_runs \<Rightarrow> (case body s of Inl e \<Rightarrow> (Inl e, s) | Inr (x, s') \<Rightarrow> (Inr x, s')))"

definition access_event :: "principal \<Rightarrow> string \<Rightarrow> string \<Rightarrow> audit_outcome \<Rightarrow> audit_details \<Rightarrow> audit_event" where
  "access_event actor act target out det =
     \<lparr>ev_actor = actor, ev_action = act, ev_resource_type = ''principal'', ev_resource_id = target,
      ev_outcome = out, ev_details = det\<rparr>"

definition with_audit :: "audit_event \<Rightarrow> 'a \<Rightarrow> access_state \<Rightarrow> (store_error, 'a \<times> access_state) result" where
  "with_audit ev x s =
     (case audit_record access_registry ev (audit_trail s) of
        Inl e \<Rightarrow> Inl (Store_audit_error e)
      | Inr t \<Rightarrow> Inr (x, s\<lparr>audit_trail := t\<rparr>))"

definition bootstrap_body :: "access_config \<Rightarrow> principal \<Rightarrow> access_state \<Rightarrow> (store_error, access_role set \<times> access_state) result" where
  "bootstrap_body cfg p s =
     (if assignments s \<noteq> [] then Inr ({AUTHENTICATED_USER}, s)
      else if (Some (fst p), Some (snd p)) \<noteq> (bootstrap_owner_subject cfg, bootstrap_owner_issuer cfg)
      then with_audit (access_event bootstrap_sentinel ''access_role.bootstrap_rejected'' (fst p) Effect_rejected
             [(''reason_code'', Text ''bootstrap_identity_mismatch'')]) {AUTHENTICATED_USER} s
      else with_audit (access_event bootstrap_sentinel ''access_role.bootstrap'' (fst p) Effect_applied
             [(''access_role'', Text (role_value SYSTEM_OWNER))]) {AUTHENTICATED_USER, SYSTEM_OWNER}
             (s\<lparr>assignments := fold (\<lambda>r. insert_assignment \<lparr>holder = p, held_role = r, granted_by = bootstrap_sentinel\<rparr>)
                [AUTHENTICATED_USER, SYSTEM_OWNER] (assignments s)\<rparr>))"

definition grant_body :: "principal \<Rightarrow> principal \<Rightarrow> access_role \<Rightarrow> access_state \<Rightarrow> (store_error, unit \<times> access_state) result" where
  "grant_body actor target r s =
     with_audit (access_event actor ''access_role.grant'' (fst target) Effect_applied [(''access_role'', Text (role_value r))]) ()
       (s\<lparr>assignments := insert_assignment \<lparr>holder = target, held_role = r, granted_by = actor\<rparr> (assignments s)\<rparr>)"

definition delete_body :: "principal \<Rightarrow> principal \<Rightarrow> access_role \<Rightarrow> access_state \<Rightarrow> (store_error, unit \<times> access_state) result" where
  "delete_body actor target r s =
     with_audit (access_event actor ''access_role.revoke'' (fst target) Effect_applied [(''access_role'', Text (role_value r))]) ()
       (s\<lparr>assignments := delete_assignment target r (assignments s)\<rparr>)"

definition revoke_owner_body :: "principal \<Rightarrow> principal \<Rightarrow> access_state \<Rightarrow> (store_error, unit \<times> access_state) result" where
  "revoke_owner_body actor target s =
     (if owner_count (assignments s) \<le> 1 then Inl AccessRoleSystemOwnerFloorRaceError
      else delete_body actor target SYSTEM_OWNER s)"

definition revoke_body :: "principal \<Rightarrow> principal \<Rightarrow> access_role \<Rightarrow> access_state \<Rightarrow> (store_error, unit \<times> access_state) result" where
  "revoke_body actor target r s =
     (if r = SYSTEM_OWNER then revoke_owner_body actor target s else delete_body actor target r s)"

definition read_body :: "(access_state \<Rightarrow> 'a) \<Rightarrow> access_state \<Rightarrow> (store_error, 'a \<times> access_state) result" where
  "read_body g s = Inr (g s, s)"

text \<open>
  The configuration names the expected first owner.  Next to it stand the names the other components
  registered for audit queries, and the three things only the database knows: the sort key its collation
  gives a text, the id and time it stamps the n-th audit row with, and the time zone of its sessions.
\<close>

definition listing_key :: "access_config \<Rightarrow> assignment \<Rightarrow> nat list \<times> nat list \<times> nat list" where
  "listing_key cfg a =
     (collation_key cfg (fst (holder a)), collation_key cfg (snd (holder a)), collation_key cfg (role_value (held_role a)))"

definition all_assignments :: "access_config \<Rightarrow> access_state \<Rightarrow> assignment list" where
  "all_assignments cfg s = sort_key (listing_key cfg) (assignments s)"

definition stored_rows :: "access_config \<Rightarrow> trail \<Rightarrow> audit_row list" where
  "stored_rows cfg t =
     map (\<lambda>i. audit_event.extend (t ! i) (audit_row.fields (fst (row_stamp cfg i)) (snd (row_stamp cfg i)))) [0..<length t]"

definition rejection :: "access_action \<Rightarrow> principal \<Rightarrow> principal \<Rightarrow> access_role \<Rightarrow> string \<Rightarrow> audit_event" where
  "rejection act actor target r reason =
     access_event actor (case act of Grant_action \<Rightarrow> ''access_role.grant'' | Revoke_action \<Rightarrow> ''access_role.revoke'')
       (fst target) Effect_rejected [(''access_role'', Text (role_value r)), (''reason_code'', Text reason)]"

definition record_rejected ::
    "fate \<Rightarrow> access_action \<Rightarrow> principal \<Rightarrow> principal \<Rightarrow> access_role \<Rightarrow> string \<Rightarrow> access_state
     \<Rightarrow> (audit_error, unit) result \<times> access_state" where
  "record_rejected f act actor target r reason s =
     (case record_standalone access_registry f (rejection act actor target r reason) (audit_trail s) of
        (q, t) \<Rightarrow> (q, s\<lparr>audit_trail := t\<rparr>))"

end
