(* ===== verification/Access_Service.thy ===== *)
theory Access_Service
  imports Access_Store
begin

text \<open>
  The access-role service (\<^verbatim>\<open>authz/service.py\<close>, \<^verbatim>\<open>request_gate.py\<close>, \<^verbatim>\<open>startup.py\<close>).  A request is a resumption: what it does
  next is one store call, and how it goes on depends on the answer.  So the same definition is run to its
  end by itself (\<open>run_request\<close>), or one store call at a time among the calls of other requests
  (\<open>serve\<close>), which is how requests of a concurrent service interleave.
\<close>

section \<open>Requests\<close>

record role_gate =
  gate_operation :: string
  gate_minimum :: access_role

definition gate_denial :: "role_gate \<Rightarrow> principal \<Rightarrow> audit_event" where
  "gate_denial gate actor =
     \<lparr>ev_actor = actor, ev_action = ''access.gate'', ev_resource_type = ''operation'',
      ev_resource_id = gate_operation gate, ev_outcome = Effect_rejected,
      ev_details = [(''required_role'', Text (role_value (gate_minimum gate)))]\<rparr>"

definition record_gate_denial :: "fate \<Rightarrow> role_gate \<Rightarrow> principal \<Rightarrow> access_state \<Rightarrow> bool \<times> access_state" where
  "record_gate_denial f gate actor s =
     (case record_follow_up_row access_registry f (gate_denial gate actor) (audit_trail s) of
        (q, t) \<Rightarrow> (q, s\<lparr>audit_trail := t\<rparr>))"

datatype 'r request =
    Done 'r
  | Ask_roles principal "(store_error, access_role set) result \<Rightarrow> 'r request"
  | Ask_bootstrap principal "(store_error, access_role set) result \<Rightarrow> 'r request"
  | Ask_grant principal principal access_role "(store_error, unit) result \<Rightarrow> 'r request"
  | Ask_revoke principal principal access_role "(store_error, unit) result \<Rightarrow> 'r request"
  | Ask_owner_count "(store_error, nat) result \<Rightarrow> 'r request"
  | Ask_listing "(store_error, assignment list) result \<Rightarrow> 'r request"
  | Ask_rejected access_action principal principal access_role string "(audit_error, unit) result \<Rightarrow> 'r request"
  | Ask_gate_row role_gate principal "bool \<Rightarrow> 'r request"
  | Ask_page audit_filters "(int \<times> nat) option" nat "(query_error, audit_page) result \<Rightarrow> 'r request"

primrec bind_request :: "'a request \<Rightarrow> ('a \<Rightarrow> 'b request) \<Rightarrow> 'b request" where
  "bind_request (Done x) f = f x"
| "bind_request (Ask_roles p k) f = Ask_roles p (\<lambda>r. bind_request (k r) f)"
| "bind_request (Ask_bootstrap p k) f = Ask_bootstrap p (\<lambda>r. bind_request (k r) f)"
| "bind_request (Ask_grant a t r k) f = Ask_grant a t r (\<lambda>q. bind_request (k q) f)"
| "bind_request (Ask_revoke a t r k) f = Ask_revoke a t r (\<lambda>q. bind_request (k q) f)"
| "bind_request (Ask_owner_count k) f = Ask_owner_count (\<lambda>q. bind_request (k q) f)"
| "bind_request (Ask_listing k) f = Ask_listing (\<lambda>q. bind_request (k q) f)"
| "bind_request (Ask_rejected act a t r reason k) f = Ask_rejected act a t r reason (\<lambda>q. bind_request (k q) f)"
| "bind_request (Ask_gate_row g a k) f = Ask_gate_row g a (\<lambda>q. bind_request (k q) f)"
| "bind_request (Ask_page fl b n k) f = Ask_page fl b n (\<lambda>q. bind_request (k q) f)"

definition and_then :: "('e + 'a) request \<Rightarrow> ('a \<Rightarrow> ('e + 'b) request) \<Rightarrow> ('e + 'b) request" where
  "and_then m f = bind_request m (\<lambda>r. case r of Inl e \<Rightarrow> Done (Inl e) | Inr x \<Rightarrow> f x)"

text \<open>One store call, with the fate the database gives it.\<close>

fun serve :: "access_config \<Rightarrow> fate \<Rightarrow> 'r request \<Rightarrow> access_state \<Rightarrow> 'r request \<times> access_state" where
  "serve cfg f (Done x) s = (Done x, s)"
| "serve cfg f (Ask_roles p k) s = apfst k (transact f (read_body (\<lambda>s. roles_held p (assignments s))) s)"
| "serve cfg f (Ask_bootstrap p k) s = apfst k (transact f (bootstrap_body cfg p) s)"
| "serve cfg f (Ask_grant a t r k) s = apfst k (transact f (grant_body a t r) s)"
| "serve cfg f (Ask_revoke a t r k) s = apfst k (transact f (revoke_body a t r) s)"
| "serve cfg f (Ask_owner_count k) s = apfst k (transact f (read_body (\<lambda>s. owner_count (assignments s))) s)"
| "serve cfg f (Ask_listing k) s = apfst k (transact f (read_body (all_assignments cfg)) s)"
| "serve cfg f (Ask_rejected act a t r reason k) s = apfst k (record_rejected f act a t r reason s)"
| "serve cfg f (Ask_gate_row g a k) s = apfst k (record_gate_denial f g a s)"
| "serve cfg f (Ask_page fl b n k) s = (k (query_page f (session_zone cfg) fl b n (stored_rows cfg (audit_trail s))), s)"

definition next_fate :: "fate list \<Rightarrow> fate" where
  "next_fate fs = (case fs of [] \<Rightarrow> Db_runs | f # _ \<Rightarrow> f)"

primrec run_request :: "'r request \<Rightarrow> access_config \<Rightarrow> fate list \<Rightarrow> access_state \<Rightarrow> 'r \<times> access_state" where
  "run_request (Done x) = (\<lambda>cfg fs s. (x, s))"
| "run_request (Ask_roles p k) = (\<lambda>cfg fs s.
     case transact (next_fate fs) (read_body (\<lambda>s. roles_held p (assignments s))) s of (q, s') \<Rightarrow> run_request (k q) cfg (tl fs) s')"
| "run_request (Ask_bootstrap p k) = (\<lambda>cfg fs s.
     case transact (next_fate fs) (bootstrap_body cfg p) s of (q, s') \<Rightarrow> run_request (k q) cfg (tl fs) s')"
| "run_request (Ask_grant a t r k) = (\<lambda>cfg fs s.
     case transact (next_fate fs) (grant_body a t r) s of (q, s') \<Rightarrow> run_request (k q) cfg (tl fs) s')"
| "run_request (Ask_revoke a t r k) = (\<lambda>cfg fs s.
     case transact (next_fate fs) (revoke_body a t r) s of (q, s') \<Rightarrow> run_request (k q) cfg (tl fs) s')"
| "run_request (Ask_owner_count k) = (\<lambda>cfg fs s.
     case transact (next_fate fs) (read_body (\<lambda>s. owner_count (assignments s))) s of (q, s') \<Rightarrow> run_request (k q) cfg (tl fs) s')"
| "run_request (Ask_listing k) = (\<lambda>cfg fs s.
     case transact (next_fate fs) (read_body (all_assignments cfg)) s of (q, s') \<Rightarrow> run_request (k q) cfg (tl fs) s')"
| "run_request (Ask_rejected act a t r reason k) = (\<lambda>cfg fs s.
     case record_rejected (next_fate fs) act a t r reason s of (q, s') \<Rightarrow> run_request (k q) cfg (tl fs) s')"
| "run_request (Ask_gate_row g a k) = (\<lambda>cfg fs s.
     case record_gate_denial (next_fate fs) g a s of (q, s') \<Rightarrow> run_request (k q) cfg (tl fs) s')"
| "run_request (Ask_page fl b n k) = (\<lambda>cfg fs s.
     run_request (k (query_page (next_fate fs) (session_zone cfg) fl b n (stored_rows cfg (audit_trail s)))) cfg (tl fs) s)"

section \<open>Role checks\<close>

datatype access_error =
    AccessDeniedError
  | AuthorizationStoreUnavailableError
  | InvalidAccessRoleError
  | InvalidAuditQueryFilterError
  | SelfGrantOrRevokeBlockedError
  | SystemOwnerFloorViolationError
  | Type_Error
  | Escaped_store store_error
  | Escaped_audit audit_error
  | Escaped_query query_error

type_synonym 'a authz = "(access_error + 'a) request"

definition store_failed :: "store_error \<Rightarrow> access_error" where
  "store_failed e =
     (if e = StatePostgresConnectionError \<or> e = AccessRoleAssignmentPersistenceError
      then AuthorizationStoreUnavailableError else Escaped_store e)"

definition or_unavailable :: "(store_error, 'a) result \<Rightarrow> 'a authz" where
  "or_unavailable q = Done (case q of Inl e \<Rightarrow> Inl (store_failed e) | Inr x \<Rightarrow> Inr x)"

definition resolve_active_roles :: "principal \<Rightarrow> access_role set authz" where
  "resolve_active_roles p =
     and_then (Ask_roles p or_unavailable) (\<lambda>existing.
       if existing \<noteq> {} then Done (Inr (existing \<union> {AUTHENTICATED_USER}))
       else Ask_bootstrap p or_unavailable)"

definition system_admin_or_above :: "access_role set" where
  "system_admin_or_above = {SYSTEM_ADMIN, SYSTEM_OWNER}"

definition decide_role :: "access_role set \<Rightarrow> access_role \<Rightarrow> bool" where
  "decide_role active minimum \<longleftrightarrow>
     active \<inter> (if minimum = SYSTEM_ADMIN then system_admin_or_above else {minimum}) \<noteq> {}"

definition raise_if_denied :: "bool \<Rightarrow> unit authz" where
  "raise_if_denied allowed = Done (if allowed then Inr () else Inl AccessDeniedError)"

definition check_role :: "principal \<Rightarrow> access_role \<Rightarrow> bool authz" where
  "check_role p minimum =
     and_then (Ask_roles p or_unavailable) (\<lambda>active. Done (Inr (decide_role (active \<union> {AUTHENTICATED_USER}) minimum)))"

definition require_admin :: "principal \<Rightarrow> unit authz" where
  "require_admin p = and_then (check_role p SYSTEM_ADMIN) raise_if_denied"

text \<open>The roster and the warning that exactly one active owner is left.\<close>

definition list_assignments :: "principal \<Rightarrow> (assignment list \<times> bool) authz" where
  "list_assignments p =
     and_then (require_admin p) (\<lambda>_.
     and_then (Ask_listing or_unavailable) (\<lambda>rows.
     and_then (Ask_owner_count or_unavailable) (\<lambda>n. Done (Inr (rows, n = 1)))))"

section \<open>Granting and revoking\<close>

fun grant_rbac :: "access_role \<Rightarrow> access_role set option" where
  "grant_rbac SYSTEM_ADMIN = Some {SYSTEM_OWNER}"
| "grant_rbac POLICY_MANAGER = Some {SYSTEM_OWNER, SYSTEM_ADMIN}"
| "grant_rbac SYSTEM_OWNER = Some {SYSTEM_OWNER}"
| "grant_rbac COMPLIANCE_OFFICER = Some {SYSTEM_OWNER, SYSTEM_ADMIN}"
| "grant_rbac AUTHENTICATED_USER = None"

fun revoke_rbac :: "access_role \<Rightarrow> access_role set option" where
  "revoke_rbac SYSTEM_ADMIN = Some {SYSTEM_OWNER}"
| "revoke_rbac POLICY_MANAGER = Some {SYSTEM_OWNER, SYSTEM_ADMIN}"
| "revoke_rbac SYSTEM_OWNER = Some {SYSTEM_OWNER, SYSTEM_ADMIN}"
| "revoke_rbac COMPLIANCE_OFFICER = Some {SYSTEM_OWNER, SYSTEM_ADMIN}"
| "revoke_rbac AUTHENTICATED_USER = None"

definition parse_grantable_access_role ::
    "(access_role \<Rightarrow> access_role set option) \<Rightarrow> string \<Rightarrow> (access_role \<times> access_role set) option" where
  "parse_grantable_access_role rbac name =
     (case role_of name of None \<Rightarrow> None | Some r \<Rightarrow> map_option (\<lambda>allowed. (r, allowed)) (rbac r))"

definition record_rejected_or_raise_unavailable ::
    "access_action \<Rightarrow> principal \<Rightarrow> principal \<Rightarrow> access_role \<Rightarrow> string \<Rightarrow> unit authz" where
  "record_rejected_or_raise_unavailable act actor target r reason =
     Ask_rejected act actor target r reason (\<lambda>q. Done (case q of
       Inr u \<Rightarrow> Inr u
     | Inl e \<Rightarrow> Inl (if e = AuditPostgresUnavailableError \<or> e = AuditPersistenceError
                  then AuthorizationStoreUnavailableError else Escaped_audit e)))"

definition deny ::
    "access_action \<Rightarrow> principal \<Rightarrow> principal \<Rightarrow> access_role \<Rightarrow> string \<Rightarrow> access_error \<Rightarrow> 'a authz" where
  "deny act actor target r reason err =
     and_then (record_rejected_or_raise_unavailable act actor target r reason) (\<lambda>_. Done (Inl err))"

definition grant_role :: "principal \<Rightarrow> string \<Rightarrow> string \<Rightarrow> string \<Rightarrow> bool authz" where
  "grant_role actor target_subject name issuer =
     (case parse_grantable_access_role grant_rbac name of
        None \<Rightarrow> Done (Inl InvalidAccessRoleError)
      | Some (r, allowed) \<Rightarrow>
          let target = (target_subject, issuer) in
          and_then (resolve_active_roles actor) (\<lambda>actor_roles.
            if actor_roles \<inter> allowed = {}
            then deny Grant_action actor target r ''access_denied'' AccessDeniedError
            else if \<not> block_self_target \<lparr>ctx_actor = actor, ctx_target = target, ctx_role = r, ctx_action = Grant_action,
                        active_system_owner_count = 0, actor_is_system_owner = SYSTEM_OWNER \<in> actor_roles\<rparr>
            then deny Grant_action actor target r ''self_grant_blocked'' SelfGrantOrRevokeBlockedError
            else and_then (Ask_grant actor target r or_unavailable) (\<lambda>_.
                 and_then (Ask_owner_count or_unavailable) (\<lambda>n. Done (Inr (n = 1))))))"

definition revoke_and_count :: "principal \<Rightarrow> principal \<Rightarrow> access_role \<Rightarrow> bool authz" where
  "revoke_and_count actor target r =
     bind_request (and_then (Ask_revoke actor target r Done) (\<lambda>_. Ask_owner_count Done)) (\<lambda>q. case q of
       Inr n \<Rightarrow> Done (Inr (n = 1))
     | Inl AccessRoleSystemOwnerFloorRaceError \<Rightarrow>
         deny Revoke_action actor target r ''system_owner_floor_violation'' SystemOwnerFloorViolationError
     | Inl e \<Rightarrow> Done (Inl (store_failed e)))"

definition revoke_role :: "principal \<Rightarrow> string \<Rightarrow> string \<Rightarrow> string \<Rightarrow> bool authz" where
  "revoke_role actor target_subject name issuer =
     (case parse_grantable_access_role revoke_rbac name of
        None \<Rightarrow> Done (Inl InvalidAccessRoleError)
      | Some (r, allowed) \<Rightarrow>
          let target = (target_subject, issuer) in
          and_then (resolve_active_roles actor) (\<lambda>actor_roles.
            if actor_roles \<inter> allowed = {}
            then deny Revoke_action actor target r ''access_denied'' AccessDeniedError
            else if \<not> block_self_target \<lparr>ctx_actor = actor, ctx_target = target, ctx_role = r, ctx_action = Revoke_action,
                        active_system_owner_count = 0, actor_is_system_owner = SYSTEM_OWNER \<in> actor_roles\<rparr>
            then deny Revoke_action actor target r ''self_revoke_blocked'' SelfGrantOrRevokeBlockedError
            else if r = SYSTEM_OWNER
            then and_then (Ask_owner_count or_unavailable) (\<lambda>n.
                   if \<not> enforce_system_owner_floor \<lparr>ctx_actor = actor, ctx_target = target, ctx_role = r,
                          ctx_action = Revoke_action, active_system_owner_count = n, actor_is_system_owner = False\<rparr>
                   then deny Revoke_action actor target r ''system_owner_floor_violation'' SystemOwnerFloorViolationError
                   else revoke_and_count actor target r)
            else revoke_and_count actor target r))"

section \<open>Audit queries, the request gate and start-up\<close>

datatype page_cursor = First_page | After_position "int \<times> nat" | Malformed_cursor

definition max_page_size :: nat where
  "max_page_size = 100"

text \<open>Comparing an \<^verbatim>\<open>occurred_from\<close> and an \<^verbatim>\<open>occurred_to\<close> of which only one has an offset is a \<^verbatim>\<open>TypeError\<close>.\<close>

definition validate_audit_query_filters ::
    "access_config \<Rightarrow> audit_filters \<Rightarrow> nat \<Rightarrow> (access_error, unit) result" where
  "validate_audit_query_filters cfg f page_size =
     (if \<not> holds_if_set (\<lambda>a. a \<in> set (registered_actions cfg)) (f_action f)
         \<or> \<not> holds_if_set (\<lambda>t. t \<in> set (registered_resource_types cfg)) (f_resource_type f)
      then Inl InvalidAuditQueryFilterError
      else bind_result
        (case (f_occurred_from f, f_occurred_to f) of
           (Some a, Some b) \<Rightarrow>
             (case is_later a b of
                None \<Rightarrow> Inl Type_Error
              | Some later \<Rightarrow> if later then Inl InvalidAuditQueryFilterError else Inr ())
         | _ \<Rightarrow> Inr ()) (\<lambda>_.
        if max_page_size < page_size
           \<or> \<not> holds_if_set (list_all (\<lambda>(k, v). k \<in> set audit_details_filter_keys \<and> v \<noteq> [])) (f_details f)
        then Inl InvalidAuditQueryFilterError else Inr ()))"

definition list_audit_events :: "access_config \<Rightarrow> principal \<Rightarrow> audit_filters \<Rightarrow> page_cursor \<Rightarrow> nat \<Rightarrow> audit_page authz" where
  "list_audit_events cfg p f cursor page_size =
     and_then (require_admin p) (\<lambda>_.
       case validate_audit_query_filters cfg f page_size of
         Inl e \<Rightarrow> Done (Inl e)
       | Inr u \<Rightarrow>
           if cursor = Malformed_cursor then Done (Inl InvalidAuditQueryFilterError)
           else Ask_page f (case cursor of After_position b \<Rightarrow> Some b | _ \<Rightarrow> None) page_size (\<lambda>q. Done (case q of
                  Inr pg \<Rightarrow> Inr pg
                | Inl e \<Rightarrow> Inl (if e = Query_unavailable then AuthorizationStoreUnavailableError else Escaped_query e))))"

definition enforce_role_gate :: "role_gate \<Rightarrow> principal option \<Rightarrow> principal option \<Rightarrow> unit authz" where
  "enforce_role_gate gate caller audit_actor =
     (case caller of
        None \<Rightarrow> raise_if_denied False
      | Some p \<Rightarrow>
          and_then (resolve_active_roles p) (\<lambda>active.
            let allowed = decide_role active (gate_minimum gate) in
            case audit_actor of
              Some a \<Rightarrow> (if allowed then raise_if_denied allowed
                         else Ask_gate_row gate a (\<lambda>_. raise_if_denied allowed))
            | None \<Rightarrow> raise_if_denied allowed))"

text \<open>Start-up: the names of the missing settings, unless the bypass is active or none is missing.\<close>

definition require_bootstrap_owner_configured :: "access_config \<Rightarrow> (string list, unit) result" where
  "require_bootstrap_owner_configured cfg =
     (if bypass_active cfg then Inr ()
      else if bootstrap_owner_subject cfg = None \<or> bootstrap_owner_issuer cfg = None
      then Inl (map fst (filter (\<lambda>(name, v). v = None)
             [(''PS_AUTHZ_BOOTSTRAP_OWNER_SUBJECT'', bootstrap_owner_subject cfg),
              (''PS_AUTHZ_BOOTSTRAP_OWNER_ISSUER'', bootstrap_owner_issuer cfg)]))
      else Inr ())"

section \<open>Concurrent requests\<close>

text \<open>
  The process serves any number of requests.  A step lets a new request in, or one store call of a
  request that is under way, with any fate.  A request keeps the call it came from.
\<close>

datatype access_call =
    Call_grant principal string string string
  | Call_revoke principal string string string
  | Call_roster principal
  | Call_check principal access_role
  | Call_events principal audit_filters page_cursor nat
  | Call_gate role_gate "principal option" "principal option"

datatype access_answer =
    Floor_warning bool
  | Roster "assignment list" bool
  | Decision bool
  | Events audit_page
  | Passed

definition answer_with :: "('a \<Rightarrow> access_answer) \<Rightarrow> 'a authz \<Rightarrow> access_answer authz" where
  "answer_with h m = and_then m (\<lambda>x. Done (Inr (h x)))"

fun access_service :: "access_config \<Rightarrow> access_call \<Rightarrow> access_answer authz" where
  "access_service cfg (Call_grant a t name iss) = answer_with Floor_warning (grant_role a t name iss)"
| "access_service cfg (Call_revoke a t name iss) = answer_with Floor_warning (revoke_role a t name iss)"
| "access_service cfg (Call_roster p) = answer_with (\<lambda>(rows, w). Roster rows w) (list_assignments p)"
| "access_service cfg (Call_check p minimum) = answer_with Decision (check_role p minimum)"
| "access_service cfg (Call_events p f c n) = answer_with Events (list_audit_events cfg p f c n)"
| "access_service cfg (Call_gate g p a) = answer_with (\<lambda>u. Passed) (enforce_role_gate g p a)"

type_synonym access_system = "access_state \<times> (access_call \<times> access_answer authz) list"

inductive access_step :: "access_config \<Rightarrow> access_system \<Rightarrow> access_system \<Rightarrow> bool" for cfg where
  arrives: "access_step cfg (s, rs) (s, rs @ [(c, access_service cfg c)])"
| proceeds: "i < length rs \<Longrightarrow> rs ! i = (c, q) \<Longrightarrow> serve cfg f q s = (q', s') \<Longrightarrow>
    access_step cfg (s, rs) (s', rs[i := (c, q')])"

inductive access_run :: "access_config \<Rightarrow> access_system \<Rightarrow> access_system \<Rightarrow> bool" for cfg where
  starts: "access_run cfg y y"
| steps: "access_run cfg y z \<Longrightarrow> access_step cfg z z' \<Longrightarrow> access_run cfg y z'"

inductive_cases access_stepE: "access_step cfg y z"

definition empty_access :: access_state where
  "empty_access = \<lparr>assignments = [], audit_trail = []\<rparr>"

end
