(* ===== verification/Access_Laws.thy ===== *)
theory Access_Laws
  imports Access_Service
begin

text \<open>
  The laws of the access-role store.  \<open>store_move\<close> is its contract: what a store call, whatever its fate and
  whatever request it belongs to, may do to the table and the trail.  Every served call is such a move
  (\<open>serve_moves\<close>), so an invariant of the moves (locale \<open>access_invariant\<close>) is one of every run of every mix of
  requests.  Its interpretations: a principal holds a role once, and an owner, once seated, stays seated.
\<close>

section \<open>What the audit details accept\<close>

definition bootstrap_event :: "principal \<Rightarrow> audit_event" where
  "bootstrap_event p = access_event bootstrap_sentinel ''access_role.bootstrap'' (fst p) Effect_applied
     [(''access_role'', Text (role_value SYSTEM_OWNER))]"

definition grant_event :: "principal \<Rightarrow> principal \<Rightarrow> access_role \<Rightarrow> audit_event" where
  "grant_event a t r = access_event a ''access_role.grant'' (fst t) Effect_applied [(''access_role'', Text (role_value r))]"

definition revoke_event :: "principal \<Rightarrow> principal \<Rightarrow> access_role \<Rightarrow> audit_event" where
  "revoke_event a t r = access_event a ''access_role.revoke'' (fst t) Effect_applied [(''access_role'', Text (role_value r))]"

definition mismatch_event :: "principal \<Rightarrow> audit_event" where
  "mismatch_event p = access_event bootstrap_sentinel ''access_role.bootstrap_rejected'' (fst p) Effect_rejected
     [(''reason_code'', Text ''bootstrap_identity_mismatch'')]"

lemmas access_event_defs = bootstrap_event_def grant_event_def revoke_event_def mismatch_event_def access_event_def

definition denial_reasons :: "access_action \<Rightarrow> string set" where
  "denial_reasons act = (case act of
     Grant_action \<Rightarrow> {''access_denied'', ''self_grant_blocked''}
   | Revoke_action \<Rightarrow> {''access_denied'', ''self_revoke_blocked'', ''system_owner_floor_violation''})"

lemmas audit_eval = audit_record_def resolve_details_model_def access_registry_def validate_details_def
  managed_role_values_def access_event_def stored_value_def

named_theorems audited \<open>the audit store accepts this event as it is, or refuses it\<close>

lemma bootstrap_audited [audited]: "audit_record access_registry (bootstrap_event p) t = Inr (t @ [bootstrap_event p])"
  by (simp add: bootstrap_event_def audit_eval)

lemma mismatch_audited [audited]: "audit_record access_registry (mismatch_event p) t = Inr (t @ [mismatch_event p])"
  by (simp add: mismatch_event_def audit_eval)

lemma grant_audited [audited]:
  "audit_record access_registry (grant_event a tgt r) t =
     (if r = AUTHENTICATED_USER then Inl AuditInvalidDetailsError else Inr (t @ [grant_event a tgt r]))"
  by (cases r) (simp_all add: grant_event_def audit_eval)

lemma revoke_audited [audited]:
  "audit_record access_registry (revoke_event a tgt r) t =
     (if r = AUTHENTICATED_USER then Inl AuditInvalidDetailsError else Inr (t @ [revoke_event a tgt r]))"
  by (cases r) (simp_all add: revoke_event_def audit_eval)

lemma rejection_audited [audited]:
  "audit_record access_registry (rejection act a tgt r reason) t =
     (if r = AUTHENTICATED_USER \<or> reason \<notin> denial_reasons act then Inl AuditInvalidDetailsError
      else Inr (t @ [rejection act a tgt r reason]))"
  by (cases act; cases r) (auto simp: rejection_def denial_reasons_def audit_eval)

section \<open>The transactions\<close>

definition seat_first_owner :: "principal \<Rightarrow> access_state \<Rightarrow> access_state" where
  "seat_first_owner p s = s\<lparr>assignments :=
       [\<lparr>holder = p, held_role = AUTHENTICATED_USER, granted_by = bootstrap_sentinel\<rparr>,
        \<lparr>holder = p, held_role = SYSTEM_OWNER, granted_by = bootstrap_sentinel\<rparr>],
     audit_trail := audit_trail s @ [bootstrap_event p]\<rparr>"

definition first_owner :: "access_config \<Rightarrow> principal \<Rightarrow> bool" where
  "first_owner cfg p \<longleftrightarrow> bootstrap_owner_subject cfg = Some (fst p) \<and> bootstrap_owner_issuer cfg = Some (snd p)"

lemma bootstrap_body_eq:
  "bootstrap_body cfg p s =
     (if assignments s \<noteq> [] then Inr ({AUTHENTICATED_USER}, s)
      else if first_owner cfg p then Inr ({AUTHENTICATED_USER, SYSTEM_OWNER}, seat_first_owner p s)
      else Inr ({AUTHENTICATED_USER}, s\<lparr>audit_trail := audit_trail s @ [mismatch_event p]\<rparr>))"
  unfolding bootstrap_body_def bootstrap_event_def [symmetric] mismatch_event_def [symmetric] with_audit_def
  by (cases p) (auto simp: audited seat_first_owner_def insert_assignment_def first_owner_def)

definition add_grant :: "principal \<Rightarrow> principal \<Rightarrow> access_role \<Rightarrow> access_state \<Rightarrow> access_state" where
  "add_grant a t r s = s\<lparr>
     assignments := insert_assignment \<lparr>holder = t, held_role = r, granted_by = a\<rparr> (assignments s),
     audit_trail := audit_trail s @ [grant_event a t r]\<rparr>"

definition drop_role :: "principal \<Rightarrow> principal \<Rightarrow> access_role \<Rightarrow> access_state \<Rightarrow> access_state" where
  "drop_role a t r s = s\<lparr>
     assignments := delete_assignment t r (assignments s),
     audit_trail := audit_trail s @ [revoke_event a t r]\<rparr>"

lemma grant_body_eq:
  "grant_body a t r s =
     (if r = AUTHENTICATED_USER then Inl (Store_audit_error AuditInvalidDetailsError) else Inr ((), add_grant a t r s))"
  unfolding grant_body_def grant_event_def [symmetric] with_audit_def
  by (simp add: audited add_grant_def)

lemma revoke_body_eq:
  "revoke_body a t r s =
     (if r = AUTHENTICATED_USER then Inl (Store_audit_error AuditInvalidDetailsError)
      else if r = SYSTEM_OWNER \<and> owner_count (assignments s) \<le> 1 then Inl AccessRoleSystemOwnerFloorRaceError
      else Inr ((), drop_role a t r s))"
  unfolding revoke_body_def revoke_owner_body_def delete_body_def revoke_event_def [symmetric] with_audit_def
  by (auto simp: audited drop_role_def)

lemma transact_cases:
  assumes "transact f body s = (q, s')"
  shows "s' = s \<and> (\<exists>e. q = Inl e \<and> (e = StatePostgresConnectionError \<or> e = AccessRoleAssignmentPersistenceError
            \<or> body s = Inl e))
    \<or> (\<exists>x. body s = Inr (x, s') \<and> (q = Inr x \<or> q = Inl AccessRoleAssignmentPersistenceError))"
  using assms by (auto simp: transact_def split: fate.splits sum.splits)

lemma transact_runs: "transact f body s = (Inr x, s') \<Longrightarrow> body s = Inr (x, s')"
  by (auto simp: transact_def split: fate.splits sum.splits)

lemma transact_read: "transact f (read_body g) s = (q, s') \<Longrightarrow> s' = s \<and> (\<forall>x. q = Inr x \<longrightarrow> x = g s)"
  by (auto simp: transact_def read_body_def split: fate.splits)

lemma record_rejected_cases:
  assumes "record_rejected f act a t r reason s = (q, s')"
  shows "(s' = s \<and> q \<noteq> Inr ())
    \<or> (s' = s\<lparr>audit_trail := audit_trail s @ [rejection act a t r reason]\<rparr> \<and> r \<noteq> AUTHENTICATED_USER)"
  using assms by (auto simp: record_rejected_def record_standalone_def audited split: if_splits prod.splits sum.splits)

lemma record_gate_denial_cases:
  assumes "record_gate_denial f g a s = (b, s')"
  shows "(s' = s \<and> \<not> b) \<or> s' = s\<lparr>audit_trail := audit_trail s @ [gate_denial g a]\<rparr>"
proof -
  have "audit_record access_registry (gate_denial g a) t =
     (if gate_minimum g = AUTHENTICATED_USER then Inl AuditInvalidDetailsError else Inr (t @ [gate_denial g a]))" for t
    by (cases "gate_minimum g") (simp_all add: gate_denial_def audit_eval)
  then show ?thesis
    using assms by (auto simp: record_gate_denial_def record_follow_up_row_def record_standalone_def
      split: if_splits prod.splits sum.splits)
qed

section \<open>The contract of the store\<close>

datatype move = Stays | Seats principal | Grants principal principal access_role
  | Revokes principal principal access_role | Refuses audit_event

inductive store_move :: "access_config \<Rightarrow> move \<Rightarrow> access_state \<Rightarrow> access_state \<Rightarrow> bool" for cfg where
  stays: "store_move cfg Stays s s"
| seats: "assignments s = [] \<Longrightarrow> first_owner cfg p \<Longrightarrow> store_move cfg (Seats p) s (seat_first_owner p s)"
| grants: "r \<noteq> AUTHENTICATED_USER \<Longrightarrow> store_move cfg (Grants a t r) s (add_grant a t r s)"
| revokes: "r \<noteq> AUTHENTICATED_USER \<Longrightarrow> (r = SYSTEM_OWNER \<Longrightarrow> 1 < owner_count (assignments s)) \<Longrightarrow>
    store_move cfg (Revokes a t r) s (drop_role a t r s)"
| refuses: "ev_outcome ev = Effect_rejected \<Longrightarrow>
    store_move cfg (Refuses ev) s (s\<lparr>audit_trail := audit_trail s @ [ev]\<rparr>)"

fun asked_by :: "'r request \<Rightarrow> move \<Rightarrow> bool" where
  "asked_by (Ask_grant a t r k) (Grants a' t' r') \<longleftrightarrow> a' = a \<and> t' = t \<and> r' = r"
| "asked_by q (Grants a t r) \<longleftrightarrow> False"
| "asked_by (Ask_revoke a t r k) (Revokes a' t' r') \<longleftrightarrow> a' = a \<and> t' = t \<and> r' = r"
| "asked_by q (Revokes a t r) \<longleftrightarrow> False"
| "asked_by (Ask_bootstrap p k) (Seats p') \<longleftrightarrow> p' = p"
| "asked_by q (Seats p) \<longleftrightarrow> False"
| "asked_by q m \<longleftrightarrow> True"

lemma serve_moves:
  assumes "serve cfg f q s = (q', s')"
  shows "\<exists>m. store_move cfg m s s' \<and> asked_by q m"
proof (cases q)
  case (Ask_bootstrap p k)
  then obtain r where r: "transact f (bootstrap_body cfg p) s = (r, s')" using assms by (auto simp: apfst_def map_prod_def split: prod.splits)
  from transact_cases[OF r] consider "s' = s" | x where "bootstrap_body cfg p s = Inr (x, s')" by blast
  then show ?thesis
  proof cases
    case 2
    then consider "s' = s" | "assignments s = []" "first_owner cfg p" "s' = seat_first_owner p s"
      | "s' = s\<lparr>audit_trail := audit_trail s @ [mismatch_event p]\<rparr>"
      by (auto simp: bootstrap_body_eq split: if_splits)
    then show ?thesis
    proof cases
      case 2 then show ?thesis using Ask_bootstrap by (intro exI[of _ "Seats p"]) (simp add: store_move.seats)
    next
      case 3 then show ?thesis
        by (intro exI[of _ "Refuses (mismatch_event p)"]) (simp add: store_move.refuses access_event_defs)
    qed (use store_move.stays in \<open>auto intro: exI[of _ Stays]\<close>)
  qed (use store_move.stays in \<open>auto intro: exI[of _ Stays]\<close>)
next
  case (Ask_grant a t r k)
  then obtain z where z: "transact f (grant_body a t r) s = (z, s')" using assms by (auto simp: apfst_def map_prod_def split: prod.splits)
  from transact_cases[OF z] consider "s' = s" | "r \<noteq> AUTHENTICATED_USER" "s' = add_grant a t r s"
    by (auto simp: grant_body_eq split: if_splits)
  then show ?thesis
  proof cases
    case 2 then show ?thesis using Ask_grant by (intro exI[of _ "Grants a t r"]) (simp add: store_move.grants)
  qed (use store_move.stays in \<open>auto intro: exI[of _ Stays]\<close>)
next
  case (Ask_revoke a t r k)
  then obtain z where z: "transact f (revoke_body a t r) s = (z, s')" using assms by (auto simp: apfst_def map_prod_def split: prod.splits)
  from transact_cases[OF z] consider "s' = s"
    | "r \<noteq> AUTHENTICATED_USER" "r = SYSTEM_OWNER \<longrightarrow> 1 < owner_count (assignments s)" "s' = drop_role a t r s"
    by (auto simp: revoke_body_eq split: if_splits)
  then show ?thesis
  proof cases
    case 2 then show ?thesis using Ask_revoke by (intro exI[of _ "Revokes a t r"]) (simp add: store_move.revokes)
  qed (use store_move.stays in \<open>auto intro: exI[of _ Stays]\<close>)
next
  case (Ask_rejected act a t r reason k)
  then obtain z where "record_rejected f act a t r reason s = (z, s')" using assms by (auto simp: apfst_def map_prod_def split: prod.splits)
  from record_rejected_cases[OF this] show ?thesis
    by (auto intro: exI[of _ Stays] exI[of _ "Refuses (rejection act a t r reason)"]
      simp: store_move.stays store_move.refuses rejection_def access_event_def)
next
  case (Ask_gate_row g a k)
  then obtain z where "record_gate_denial f g a s = (z, s')" using assms by (auto simp: apfst_def map_prod_def split: prod.splits)
  from record_gate_denial_cases[OF this] show ?thesis
    by (auto intro: exI[of _ Stays] exI[of _ "Refuses (gate_denial g a)"]
      simp: store_move.stays store_move.refuses gate_denial_def)
qed (use assms store_move.stays in \<open>auto intro!: exI[of _ Stays] dest!: transact_read simp: apfst_def map_prod_def split: prod.splits\<close>)

section \<open>Invariants of every run\<close>

lemma run_request_serve:
  "run_request q cfg fs s = (case q of Done x \<Rightarrow> (x, s)
     | _ \<Rightarrow> (case serve cfg (next_fate fs) q s of (q', s') \<Rightarrow> run_request q' cfg (tl fs) s'))"
  by (cases q) (simp_all add: apfst_def map_prod_def split: prod.splits)

locale access_invariant =
  fixes cfg :: access_config and I :: "access_state \<Rightarrow> bool"
  assumes seating: "\<lbrakk>I s; assignments s = []; first_owner cfg p\<rbrakk> \<Longrightarrow> I (seat_first_owner p s)"
    and granting: "\<lbrakk>I s; r \<noteq> AUTHENTICATED_USER\<rbrakk> \<Longrightarrow> I (add_grant a t r s)"
    and revoking: "\<lbrakk>I s; r \<noteq> AUTHENTICATED_USER; r = SYSTEM_OWNER \<Longrightarrow> 1 < owner_count (assignments s)\<rbrakk> \<Longrightarrow> I (drop_role a t r s)"
    and refusing: "\<lbrakk>I s; ev_outcome ev = Effect_rejected\<rbrakk> \<Longrightarrow> I (s\<lparr>audit_trail := audit_trail s @ [ev]\<rparr>)"
begin

lemma move_keeps: "store_move cfg m s s' \<Longrightarrow> I s \<Longrightarrow> I s'"
  by (induction rule: store_move.induct) (simp_all add: seating granting revoking refusing)

lemma serve_keeps: "serve cfg f q s = (q', s') \<Longrightarrow> I s \<Longrightarrow> I s'"
  using serve_moves move_keeps by metis

lemma request_keeps: "run_request q cfg fs s = (x, s') \<Longrightarrow> I s \<Longrightarrow> I s'"
proof (induction q arbitrary: fs s)
  case (Done y) then show ?case by simp
next
  case (Ask_page fl b n k) then show ?case by (simp split: prod.splits) (metis rangeI)
qed (simp_all split: prod.splits; metis rangeI serve_keeps serve.simps apfst_conv)+

lemma step_keeps: "access_step cfg y z \<Longrightarrow> I (fst y) \<Longrightarrow> I (fst z)"
  by (induction rule: access_step.induct) (auto dest: serve_keeps)

lemma run_keeps: "access_run cfg y z \<Longrightarrow> I (fst y) \<Longrightarrow> I (fst z)"
  by (induction rule: access_run.induct) (auto dest: step_keeps)

end

definition assignment_key :: "assignment \<Rightarrow> principal \<times> access_role" where
  "assignment_key a = (holder a, held_role a)"

definition roles_held_once :: "access_state \<Rightarrow> bool" where
  "roles_held_once s \<longleftrightarrow> distinct (map assignment_key (assignments s))"

lemma insert_assignment_once:
  "distinct (map assignment_key rows) \<Longrightarrow> distinct (map assignment_key (insert_assignment a rows))"
  by (auto simp: insert_assignment_def assignment_key_def)

lemma delete_assignment_once:
  "distinct (map assignment_key rows) \<Longrightarrow> distinct (map assignment_key (delete_assignment p r rows))"
  by (simp add: delete_assignment_def distinct_map_filter)

lemma set_insert_assignment:
  "b \<in> set (insert_assignment a rows) \<Longrightarrow> b = a \<or> b \<in> set rows"
  by (auto simp: insert_assignment_def split: if_splits)

lemma set_delete_assignment: "b \<in> set (delete_assignment p r rows) \<longleftrightarrow> b \<in> set rows \<and> assignment_key b \<noteq> (p, r)"
  by (auto simp: delete_assignment_def assignment_key_def)

lemma owner_count_insert: "owner_count rows \<le> owner_count (insert_assignment a rows)"
  by (simp add: owner_count_def insert_assignment_def)

lemma delete_assignment_other: "r \<noteq> SYSTEM_OWNER \<Longrightarrow> owner_count (delete_assignment p r rows) = owner_count rows"
  by (auto simp: owner_count_def delete_assignment_def intro!: arg_cong[where f = length] filter_cong)

lemma owner_count_delete:
  "distinct (map assignment_key rows) \<Longrightarrow> owner_count rows \<le> Suc (owner_count (delete_assignment p r rows))"
proof (induction rows)
  case (Cons a rows)
  show ?case
  proof (cases "assignment_key a = (p, r)")
    case True
    then have "delete_assignment p r rows = rows"
      using Cons.prems unfolding delete_assignment_def by (intro filter_True) (force simp: assignment_key_def)
    moreover have "delete_assignment p r (a # rows) = delete_assignment p r rows"
      using True by (simp add: delete_assignment_def assignment_key_def)
    ultimately show ?thesis by (simp add: owner_count_def)
  next
    case False
    then have "delete_assignment p r (a # rows) = a # delete_assignment p r rows"
      by (auto simp: delete_assignment_def assignment_key_def)
    with Cons show ?thesis by (simp add: owner_count_def)
  qed
qed (simp add: owner_count_def)

interpretation once: access_invariant cfg roles_held_once for cfg
proof
  show "roles_held_once (seat_first_owner p s)" for p s
    by (simp add: roles_held_once_def seat_first_owner_def assignment_key_def)
  show "roles_held_once s \<Longrightarrow> roles_held_once (add_grant a t r s)" for a t r s
    by (simp add: roles_held_once_def add_grant_def insert_assignment_once)
  show "roles_held_once s \<Longrightarrow> roles_held_once (drop_role a t r s)" for a t r s
    by (simp add: roles_held_once_def drop_role_def delete_assignment_once)
qed (simp_all add: roles_held_once_def)

definition owned :: "access_state \<Rightarrow> bool" where
  "owned s \<longleftrightarrow> roles_held_once s \<and> 1 \<le> owner_count (assignments s)"

interpretation floor: access_invariant cfg owned for cfg
proof
  show "owned s \<Longrightarrow> owned (add_grant a t r s)" for a t r s
    using owner_count_insert[of "assignments s" "\<lparr>holder = t, held_role = r, granted_by = a\<rparr>"]
    by (auto simp: owned_def roles_held_once_def add_grant_def insert_assignment_once)
  show "owned (drop_role a t r s)"
    if "owned s" "r = SYSTEM_OWNER \<Longrightarrow> 1 < owner_count (assignments s)" for a t r s
    using that owner_count_delete[of "assignments s" t r] delete_assignment_other[of r t "assignments s"]
    by (cases "r = SYSTEM_OWNER") (auto simp: owned_def roles_held_once_def drop_role_def delete_assignment_once)
qed (auto simp: owned_def roles_held_once_def owner_count_def)

text \<open>C5. The last owner stays.
  Whatever requests the process serves, however their store calls interleave and fail (two concurrent
  revokes that both counted two owners included): once some principal holds SystemOwner, some
  principal holds it in every later state, and nobody holds a role twice.\<close>

theorem an_owner_remains:
  assumes "access_run cfg (empty_access, []) y" "access_run cfg y z" "1 \<le> owner_count (assignments (fst y))"
  shows "1 \<le> owner_count (assignments (fst z)) \<and> distinct (map assignment_key (assignments (fst z)))"
proof -
  have "owned (fst y)"
    using once.run_keeps[OF assms(1)] assms(3) by (simp add: owned_def empty_access_def roles_held_once_def)
  from floor.run_keeps[OF assms(2) this] show ?thesis by (simp add: owned_def roles_held_once_def)
qed

text \<open>Schedules: runs one can evaluate.\<close>

datatype turn = Arrives access_call | Proceeds nat fate

fun schedule :: "access_config \<Rightarrow> turn list \<Rightarrow> access_system \<Rightarrow> access_system" where
  "schedule cfg [] y = y"
| "schedule cfg (Arrives c # ts) (s, rs) = schedule cfg ts (s, rs @ [(c, access_service cfg c)])"
| "schedule cfg (Proceeds i f # ts) (s, rs) =
     (if i < length rs
      then (case serve cfg f (snd (rs ! i)) s of (q', s') \<Rightarrow> schedule cfg ts (s', rs[i := (fst (rs ! i), q')]))
      else schedule cfg ts (s, rs))"

lemma access_run_trans: "access_run cfg y z \<Longrightarrow> access_run cfg x y \<Longrightarrow> access_run cfg x z"
  by (induction rule: access_run.induct) (auto intro: access_run.steps)

lemma access_run_step: "access_step cfg x y \<Longrightarrow> access_run cfg x y"
  by (blast intro: access_run.intros)

lemma schedule_run: "access_run cfg y (schedule cfg ts y)"
proof (induction cfg ts y rule: schedule.induct)
  case (2 cfg c ts s rs)
  then show ?case by (auto intro: access_run_trans access_run_step access_step.arrives)
next
  case (3 cfg i f ts s rs)
  show ?case
  proof (cases "i < length rs")
    case True
    obtain q' s' where q: "serve cfg f (snd (rs ! i)) s = (q', s')" by force
    have "access_step cfg (s, rs) (s', rs[i := (fst (rs ! i), q')])"
      using access_step.proceeds[OF True _ q, of "fst (rs ! i)"] by simp
    with 3(1)[OF True q[symmetric]] True q show ?thesis
      by (auto intro: access_run_trans access_run_step)
  qed (use 3(2) in simp)
qed (simp add: access_run.starts)

definition sample_access_config :: access_config where
  "sample_access_config = \<lparr>bootstrap_owner_subject = Some ''ada'', bootstrap_owner_issuer = Some ''idp'',
     bypass_active = False, registered_actions = [''access_role.grant''], registered_resource_types = [''principal''],
     collation_key = map of_char, row_stamp = (\<lambda>n. (n, int n)), session_zone = id\<rparr>"

text \<open>
  Ada is seated and makes Bob an owner and Eve an admin.  Then Eve asks to revoke Ada, and Ada to revoke
  Bob; both count two owners before either deletes.
\<close>

definition ada_grants :: "string \<Rightarrow> string \<Rightarrow> nat \<Rightarrow> turn list" where
  "ada_grants subject name i = Arrives (Call_grant (''ada'', ''idp'') subject name ''idp'') # replicate 4 (Proceeds i Db_runs)"

definition two_revokes :: "turn list" where
  "two_revokes = [Arrives (Call_revoke (''eve'', ''idp'') ''ada'' ''SystemOwner'' ''idp''),
     Arrives (Call_revoke (''ada'', ''idp'') ''bob'' ''SystemOwner'' ''idp''),
     Proceeds 2 Db_runs, Proceeds 3 Db_runs, Proceeds 2 Db_runs, Proceeds 3 Db_runs,
     Proceeds 2 Db_runs, Proceeds 3 Db_runs, Proceeds 2 Db_runs, Proceeds 3 Db_runs]"

definition seated_owners :: access_system where
  "seated_owners = schedule sample_access_config
     (ada_grants ''bob'' ''SystemOwner'' 0 @ ada_grants ''eve'' ''SystemAdmin'' 1) (empty_access, [])"

definition after_race :: access_system where
  "after_race = schedule sample_access_config two_revokes seated_owners"

lemma seated_owners_run: "access_run sample_access_config (empty_access, []) seated_owners"
  unfolding seated_owners_def by (rule schedule_run)

lemma after_race_run: "access_run sample_access_config seated_owners after_race"
  unfolding after_race_def by (rule schedule_run)

theorem an_owner_remains_witness:
  "owner_count (assignments (fst seated_owners)) = 2 \<and> owner_count (assignments (fst after_race)) = 1
   \<and> map ev_outcome (audit_trail (fst after_race))
      = [Effect_applied, Effect_applied, Effect_applied, Effect_applied, Effect_rejected]"
proof -
  have two: "owner_count (assignments (fst seated_owners)) = 2" by code_simp
  then have "1 \<le> owner_count (assignments (fst after_race))"
    using an_owner_remains[OF seated_owners_run after_race_run] by simp
  moreover have "owner_count (assignments (fst after_race)) = 1
      \<and> map ev_outcome (audit_trail (fst after_race))
      = [Effect_applied, Effect_applied, Effect_applied, Effect_applied, Effect_rejected]" by code_simp
  ultimately show ?thesis using two by simp
qed

end
