(* ===== verification/Access_Authority.thy ===== *)
theory Access_Authority
  imports Access_Laws
begin

text \<open>
  What a run of the service shows of its past: the roles somebody held are those that a table of an
  earlier state of the run has a row for.  \<open>entitled q Q H\<close> says that, whatever its calls are answered, the
  request \<open>q\<close> only grants on the strength of roles in \<open>H\<close> or read by itself, and that its result
  satisfies \<open>Q\<close>.
\<close>

section \<open>Entitled requests\<close>

definition grant_applied :: "audit_event \<Rightarrow> access_role \<Rightarrow> bool" where
  "grant_applied ev r \<longleftrightarrow> ev_outcome ev = Effect_applied \<and> ev_action ev = ''access_role.grant''
     \<and> ev_details ev = [(''access_role'', Text (role_value r))]"

lemma grant_applied_eq [simp]:
  "grant_applied (bootstrap_event p) r = False" "grant_applied (revoke_event a tgt r') r = False"
  "grant_applied (grant_event a tgt r') r = (r' = r)"
  "ev_outcome ev = Effect_rejected \<Longrightarrow> grant_applied ev r = False"
  by (auto simp: grant_applied_def access_event_defs)

lemma grant_event_actor [simp]: "ev_actor (grant_event a tgt r) = a"
  by (simp add: access_event_defs)

type_synonym holdings = "(principal \<times> access_role) set"

definition may_grant :: "holdings \<Rightarrow> principal \<Rightarrow> access_role \<Rightarrow> bool" where
  "may_grant H a r \<longleftrightarrow> (\<exists>allowed. grant_rbac r = Some allowed \<and> (\<exists>r' \<in> allowed. (a, r') \<in> H))"

definition with_roles :: "principal \<Rightarrow> access_role set \<Rightarrow> holdings \<Rightarrow> holdings" where
  "with_roles p R H = H \<union> {p} \<times> (R - {AUTHENTICATED_USER})"

primrec entitled :: "'r request \<Rightarrow> (holdings \<Rightarrow> 'r \<Rightarrow> bool) \<Rightarrow> holdings \<Rightarrow> bool" where
  "entitled (Done x) Q H \<longleftrightarrow> Q H x"
| "entitled (Ask_roles p k) Q H \<longleftrightarrow>
     (\<forall>e. entitled (k (Inl e)) Q H) \<and> (\<forall>R. entitled (k (Inr R)) Q (with_roles p R H))"
| "entitled (Ask_bootstrap p k) Q H \<longleftrightarrow>
     (\<forall>e. entitled (k (Inl e)) Q H) \<and> (\<forall>R. entitled (k (Inr R)) Q (with_roles p R H))"
| "entitled (Ask_grant a tgt r k) Q H \<longleftrightarrow> may_grant H a r \<and> (\<forall>q. entitled (k q) Q H)"
| "entitled (Ask_revoke a tgt r k) Q H \<longleftrightarrow> (\<forall>q. entitled (k q) Q H)"
| "entitled (Ask_owner_count k) Q H \<longleftrightarrow> (\<forall>q. entitled (k q) Q H)"
| "entitled (Ask_listing k) Q H \<longleftrightarrow> (\<forall>q. entitled (k q) Q H)"
| "entitled (Ask_rejected act a tgt r reason k) Q H \<longleftrightarrow> (\<forall>q. entitled (k q) Q H)"
| "entitled (Ask_gate_row g a k) Q H \<longleftrightarrow> (\<forall>q. entitled (k q) Q H)"
| "entitled (Ask_page fl b n k) Q H \<longleftrightarrow> (\<forall>q. entitled (k q) Q H)"

lemma with_roles_more: "H \<subseteq> H' \<Longrightarrow> with_roles p R H \<subseteq> with_roles p R H'"
  by (auto simp: with_roles_def)

lemma may_grant_more: "may_grant H a r \<Longrightarrow> H \<subseteq> H' \<Longrightarrow> may_grant H' a r"
  unfolding may_grant_def by blast

lemma entitled_more: "entitled q (\<lambda>H x. True) H \<Longrightarrow> H \<subseteq> H' \<Longrightarrow> entitled q (\<lambda>H x. True) H'"
proof (induction q arbitrary: H H')
  case (Ask_roles p k)
  then show ?case by simp (meson rangeI with_roles_more)
next
  case (Ask_bootstrap p k)
  then show ?case by simp (meson rangeI with_roles_more)
next
  case (Ask_grant a tgt r k)
  then show ?case by simp (meson rangeI may_grant_more)
qed (simp; meson rangeI)+

lemma entitled_bind: "entitled (bind_request m f) Q H \<longleftrightarrow> entitled m (\<lambda>H x. entitled (f x) Q H) H"
  by (induction m arbitrary: H) simp_all

lemma entitled_and_then [simp]:
  "entitled (and_then m f) Q H \<longleftrightarrow>
     entitled m (\<lambda>H r. (\<forall>e. r = Inl e \<longrightarrow> Q H (Inl e)) \<and> (\<forall>x. r = Inr x \<longrightarrow> entitled (f x) Q H)) H"
  unfolding and_then_def entitled_bind by (rule arg_cong [where f = "\<lambda>Q. entitled m Q H"]) (auto split: sum.splits)

lemma entitled_weaken: "entitled q Q H \<Longrightarrow> (\<And>H x. Q H x \<Longrightarrow> R H x) \<Longrightarrow> entitled q R H"
  by (induction q arbitrary: H) auto

lemma entitled_or_unavailable [simp]:
  "entitled (or_unavailable q) Q H \<longleftrightarrow> Q H (case q of Inl e \<Rightarrow> Inl (store_failed e) | Inr x \<Rightarrow> Inr x)"
  by (simp add: or_unavailable_def)

lemma with_roles_none [simp]: "with_roles p {} H = H"
  by (simp add: with_roles_def)

lemma entitled_resolve:
  assumes "\<And>e. Q H (Inl e)" "\<And>R. Q (with_roles p R H) (Inr R)"
    "\<And>R. Q (with_roles p R H) (Inr (R \<union> {AUTHENTICATED_USER}))"
  shows "entitled (resolve_active_roles p) Q H"
  using assms by (auto simp: resolve_active_roles_def)

lemma roles_may_grant:
  assumes "grant_rbac r = Some allowed" "R \<inter> allowed \<noteq> {} \<or> (R \<union> {AUTHENTICATED_USER}) \<inter> allowed \<noteq> {}"
  shows "may_grant (with_roles a R H) a r"
proof -
  have "AUTHENTICATED_USER \<notin> allowed" using assms(1) by (cases r) auto
  with assms show ?thesis unfolding may_grant_def with_roles_def by blast
qed

lemma entitled_deny: "(\<And>e. Q H (Inl e)) \<Longrightarrow> entitled (deny act a tgt r reason err) Q H"
  by (simp add: deny_def record_rejected_or_raise_unavailable_def split: sum.split)

lemma entitled_grant: "entitled (grant_role a ts name iss) (\<lambda>H x. True) H"
proof (cases "parse_grantable_access_role grant_rbac name")
  case None
  then show ?thesis by (simp add: grant_role_def)
next
  case (Some ra)
  then obtain r allowed where p: "ra = (r, allowed)" "grant_rbac r = Some allowed"
    by (cases ra) (auto simp: parse_grantable_access_role_def split: option.splits)
  show ?thesis
    unfolding grant_role_def Some p(1) option.case prod.case Let_def entitled_and_then
    by (rule entitled_resolve) (auto intro!: entitled_deny roles_may_grant [OF p(2)] split: sum.splits)
qed

lemma entitled_revoke: "entitled (revoke_role a ts name iss) (\<lambda>H x. True) H"
proof -
  have "entitled (revoke_and_count a tgt r) (\<lambda>H x. True) G" for tgt r G
    by (auto simp: revoke_and_count_def entitled_bind intro!: entitled_deny split: sum.splits store_error.splits)
  then show ?thesis
    by (auto simp: revoke_role_def Let_def intro!: entitled_deny entitled_resolve split: option.split sum.splits)
qed

lemma entitled_service: "entitled (access_service cfg c) (\<lambda>H x. True) H"
proof -
  have "entitled (check_role p m) (\<lambda>H x. True) G" for p m G by (simp add: check_role_def)
  note check = this [THEN entitled_weaken]
  have admin: "entitled (require_admin p) Q G" if "\<And>G x. Q G x" for p Q G
    using that by (auto simp: require_admin_def intro!: check simp: raise_if_denied_def)
  show ?thesis
  proof (cases c)
    case (Call_events p f cur n)
    then show ?thesis
      by (auto simp: answer_with_def list_audit_events_def intro!: admin split: sum.splits)
  next
    case (Call_gate g p a)
    then show ?thesis
      by (auto simp: answer_with_def enforce_role_gate_def raise_if_denied_def Let_def intro!: entitled_resolve
          split: option.splits)
  qed (auto simp: answer_with_def list_assignments_def intro!: admin check entitled_weaken [OF entitled_grant]
      entitled_weaken [OF entitled_revoke] split: sum.splits)
qed

section \<open>The past of a run\<close>

definition held_before :: "access_config \<Rightarrow> access_system \<Rightarrow> nat \<Rightarrow> principal \<Rightarrow> access_role \<Rightarrow> bool" where
  "held_before cfg y n p r \<longleftrightarrow>
     (\<exists>z. access_run cfg (empty_access, []) z \<and> access_run cfg z y \<and> length (audit_trail (fst z)) \<le> n
        \<and> (\<exists>a \<in> set (assignments (fst z)). holder a = p \<and> held_role a = r))"

lemma held_later:
  assumes "held_before cfg y n p r" "access_step cfg y y'" "n \<le> n'"
  shows "held_before cfg y' n' p r"
  using assms unfolding held_before_def by (meson access_run.steps order_trans)

lemma held_now:
  assumes "access_run cfg (empty_access, []) y" "length (audit_trail (fst y)) \<le> n"
    "a \<in> set (assignments (fst y))"
  shows "held_before cfg y n (holder a) (held_role a)"
  using assms access_run.starts unfolding held_before_def by blast

definition holdings_of :: "access_config \<Rightarrow> access_system \<Rightarrow> holdings" where
  "holdings_of cfg y = {(p, r). held_before cfg y (length (audit_trail (fst y))) p r}"

definition on_authority :: "access_config \<Rightarrow> access_system \<Rightarrow> bool" where
  "on_authority cfg y \<longleftrightarrow> access_run cfg (empty_access, []) y
     \<and> (\<forall>(c, q) \<in> set (snd y). entitled q (\<lambda>H x. True) (holdings_of cfg y))
     \<and> (\<forall>i < length (audit_trail (fst y)). \<forall>r. grant_applied (audit_trail (fst y) ! i) r \<longrightarrow>
          may_grant {(p, r'). held_before cfg y i p r'} (ev_actor (audit_trail (fst y) ! i)) r)"

lemma trail_moves:
  assumes "store_move cfg m s s'"
  shows "audit_trail s' = audit_trail s \<or> (\<exists>ev. audit_trail s' = audit_trail s @ [ev]
    \<and> (\<forall>r. grant_applied ev r \<longrightarrow> (\<exists>a tgt. m = Grants a tgt r \<and> ev = grant_event a tgt r)))"
  using assms by cases (auto simp: seat_first_owner_def add_grant_def drop_role_def)

lemma holdings_later:
  assumes "access_step cfg y y'" "length (audit_trail (fst y)) \<le> length (audit_trail (fst y'))"
  shows "holdings_of cfg y \<subseteq> holdings_of cfg y'"
  using held_later [OF _ assms] by (auto simp: holdings_of_def)

lemma served_entitled:
  assumes "serve cfg f q s = (q', s')" "entitled q (\<lambda>H x. True) H" "H \<subseteq> H'"
    and "\<And>a. a \<in> set (assignments s') \<Longrightarrow> (holder a, held_role a) \<in> H'"
  shows "entitled q' (\<lambda>H x. True) H'"
proof -
  have roles: "with_roles p R H \<subseteq> H'" if "\<And>r. r \<in> R \<Longrightarrow> r \<noteq> AUTHENTICATED_USER \<Longrightarrow> \<exists>a \<in> set (assignments s'). holder a = p \<and> held_role a = r"
    for p R
    using assms(3,4) that by (force simp: with_roles_def)
  show ?thesis
  proof (cases q)
    case (Ask_roles p k)
    with assms(1) obtain z where z: "transact f (read_body (\<lambda>s. roles_held p (assignments s))) s = (z, s')" "q' = k z"
      by (auto simp: apfst_def map_prod_def split: prod.splits)
    from transact_read [OF z(1)] have "z = Inr R \<Longrightarrow> with_roles p R H \<subseteq> H'" for R
      by (intro roles) (auto simp: roles_held_def)
    with assms(2,3) z(2) Ask_roles show ?thesis
      by (cases z) (auto intro: entitled_more)
  next
    case (Ask_bootstrap p k)
    with assms(1) obtain z where z: "transact f (bootstrap_body cfg p) s = (z, s')" "q' = k z"
      by (auto simp: apfst_def map_prod_def split: prod.splits)
    from transact_runs [of f "bootstrap_body cfg p" s] z(1) have "z = Inr R \<Longrightarrow> with_roles p R H \<subseteq> H'" for R
      by (intro roles) (auto simp: bootstrap_body_eq seat_first_owner_def split: if_splits)
    with assms(2,3) z(2) Ask_bootstrap show ?thesis
      by (cases z) (auto intro: entitled_more)
  qed (use assms(1-3) in \<open>auto simp: apfst_def map_prod_def intro: entitled_more split: prod.splits\<close>)
qed

lemma on_authority_step:
  assumes "on_authority cfg y" "access_step cfg y y'"
  shows "on_authority cfg y'"
proof -
  have run: "access_run cfg (empty_access, []) y'"
    using assms by (auto simp: on_authority_def intro: access_run.steps)
  have old: "entitled q (\<lambda>H x. True) (holdings_of cfg y)" if "(c, q) \<in> set (snd y)" for c q
    using assms(1) that by (auto simp: on_authority_def)
  have past: "may_grant {(p, r'). held_before cfg y i p r'} (ev_actor (audit_trail (fst y) ! i)) r"
    if "i < length (audit_trail (fst y))" "grant_applied (audit_trail (fst y) ! i) r" for i r
    using assms(1) that by (auto simp: on_authority_def)
  have later: "may_grant {(p, r'). held_before cfg y n p r'} a r \<Longrightarrow> may_grant {(p, r'). held_before cfg y' n p r'} a r"
    for n a r
    by (erule may_grant_more) (auto intro: held_later [OF _ assms(2)])
  from assms(2) show ?thesis
  proof (cases rule: access_step.cases)
    case (arrives s rs c)
    have "entitled q (\<lambda>H x. True) (holdings_of cfg y')" if "(d, q) \<in> set (snd y')" for d q
      using that old holdings_later [OF assms(2)] entitled_service
      by (auto simp: arrives intro: entitled_more)
    moreover have "may_grant {(p, r'). held_before cfg y' i p r'} (ev_actor (audit_trail (fst y') ! i)) r"
      if "i < length (audit_trail (fst y'))" "grant_applied (audit_trail (fst y') ! i) r" for i r
      using that past later by (simp add: arrives)
    ultimately show ?thesis using run by (auto simp: on_authority_def)
  next
    case (proceeds i rs c q f s q' s')
    obtain m where m: "store_move cfg m s s'" "asked_by q m" using serve_moves [OF proceeds(5)] by blast
    note trail = trail_moves [OF m(1)]
    then have more: "holdings_of cfg y \<subseteq> holdings_of cfg y'"
      by (intro holdings_later [OF assms(2)]) (auto simp: proceeds(1,2))
    have here: "entitled q (\<lambda>H x. True) (holdings_of cfg y)"
      using old proceeds(1,3,4) nth_mem by (metis snd_conv)
    have "entitled q' (\<lambda>H x. True) (holdings_of cfg y')"
    proof (rule served_entitled [OF proceeds(5) here more])
      show "(holder a, held_role a) \<in> holdings_of cfg y'" if "a \<in> set (assignments s')" for a
        using held_now [OF run _, of _ a] that by (simp add: holdings_of_def proceeds(2))
    qed
    moreover have "entitled p (\<lambda>H x. True) (holdings_of cfg y')" if "(d, p) \<in> set rs" for d p
      using old [of d p] that more by (auto simp: proceeds(1) intro: entitled_more)
    moreover have "may_grant {(p, r'). held_before cfg y' j p r'} (ev_actor (audit_trail s' ! j)) r"
      if j: "j < length (audit_trail s')" "grant_applied (audit_trail s' ! j) r" for j r
    proof (cases "j < length (audit_trail s)")
      case True
      with trail j(2) have "audit_trail s' ! j = audit_trail s ! j" by (auto simp: nth_append)
      with past [of j r] j(2) True later show ?thesis by (simp add: proceeds(1))
    next
      case False
      with trail j obtain a tgt where g: "j = length (audit_trail s)" "audit_trail s' ! j = grant_event a tgt r"
        "m = Grants a tgt r"
        by (auto simp: nth_append less_Suc_eq)
      with m(2) here have "may_grant (holdings_of cfg y) a r" by (cases q) auto
      with g later [of "length (audit_trail s)" a r] show ?thesis by (simp add: holdings_of_def proceeds(1))
    qed
    ultimately show ?thesis
      using run set_update_subset_insert [of rs i "(c, q')"] by (auto simp: on_authority_def proceeds(2))
  qed
qed

lemma on_authority_run: "access_run cfg y z \<Longrightarrow> on_authority cfg y \<Longrightarrow> on_authority cfg z"
  by (induction rule: access_run.induct) (auto dest: on_authority_step)

lemma on_authority_empty: "on_authority cfg (empty_access, [])"
  by (simp add: on_authority_def access_run.starts empty_access_def)

section \<open>The first owner\<close>

definition seats_of :: "principal \<Rightarrow> assignment list" where
  "seats_of p = [\<lparr>holder = p, held_role = AUTHENTICATED_USER, granted_by = bootstrap_sentinel\<rparr>,
     \<lparr>holder = p, held_role = SYSTEM_OWNER, granted_by = bootstrap_sentinel\<rparr>]"

definition bootstraps :: "trail \<Rightarrow> audit_event list" where
  "bootstraps t = filter (\<lambda>ev. ev_action ev = ''access_role.bootstrap'' \<and> ev_outcome ev = Effect_applied) t"

lemma bootstraps_append [simp]:
  "bootstraps (t @ [bootstrap_event p]) = bootstraps t @ [bootstrap_event p]"
  "bootstraps (t @ [grant_event a tgt r]) = bootstraps t"
  "bootstraps (t @ [revoke_event a tgt r]) = bootstraps t"
  "ev_outcome ev = Effect_rejected \<Longrightarrow> bootstraps (t @ [ev]) = bootstraps t"
  by (auto simp: bootstraps_def access_event_defs)

text \<open>The state in which the first owner was seated: the table has their two rows and no other.\<close>

definition seated_by :: "access_config \<Rightarrow> access_system \<Rightarrow> principal \<Rightarrow> bool" where
  "seated_by cfg y p \<longleftrightarrow>
     (\<exists>z. access_run cfg (empty_access, []) z \<and> access_run cfg z y \<and> assignments (fst z) = seats_of p
        \<and> (\<exists>t. audit_trail (fst z) = t @ [bootstrap_event p]))"

definition seated_first :: "access_config \<Rightarrow> access_system \<Rightarrow> bool" where
  "seated_first cfg y \<longleftrightarrow> access_run cfg (empty_access, []) y \<and> roles_held_once (fst y)
     \<and> (bootstraps (audit_trail (fst y)) = []
        \<or> owned (fst y) \<and> (\<exists>p. first_owner cfg p \<and> bootstraps (audit_trail (fst y)) = [bootstrap_event p] \<and> seated_by cfg y p))"

lemma seated_later: "seated_by cfg y p \<Longrightarrow> access_step cfg y y' \<Longrightarrow> seated_by cfg y' p"
  unfolding seated_by_def by (meson access_run.steps)

lemma bootstraps_move:
  assumes "store_move cfg m s s'"
  shows "bootstraps (audit_trail s') = bootstraps (audit_trail s)
    \<or> (\<exists>p. assignments s = [] \<and> first_owner cfg p \<and> s' = seat_first_owner p s)"
  using assms by cases (auto simp: add_grant_def drop_role_def)

lemma seated_first_step:
  assumes "seated_first cfg y" "access_step cfg y y'"
  shows "seated_first cfg y'"
proof -
  have run: "access_run cfg (empty_access, []) y'"
    using assms by (auto simp: seated_first_def intro: access_run.steps)
  have once: "roles_held_once (fst y')" using once.step_keeps [OF assms(2)] assms(1) by (simp add: seated_first_def)
  have kept: "seated_first cfg y'" if "bootstraps (audit_trail (fst y')) = bootstraps (audit_trail (fst y))"
    using that assms(1) run once floor.step_keeps [OF assms(2)] seated_later [OF _ assms(2)]
    by (auto simp: seated_first_def)
  from assms(2) show ?thesis
  proof (cases rule: access_step.cases)
    case (proceeds i rs c q f s q' s')
    obtain m where m: "store_move cfg m s s'" using serve_moves [OF proceeds(5)] by blast
    from bootstraps_move [OF this] kept proceeds(1,2) show ?thesis
    proof (elim disjE exE conjE)
      fix p assume p: "assignments s = []" "first_owner cfg p" "s' = seat_first_owner p s"
      then have "bootstraps (audit_trail s) = []"
        using assms(1) proceeds(1) by (auto simp: seated_first_def owned_def owner_count_def)
      then have b: "bootstraps (audit_trail s') = [bootstrap_event p]" using p(3) by (simp add: seat_first_owner_def)
      have "owned s'"
        using p(3) by (simp add: owned_def roles_held_once_def assignment_key_def seat_first_owner_def owner_count_def)
      moreover have "seated_by cfg y' p"
        unfolding seated_by_def
        using run p(3) by (intro exI [of _ y']) (auto simp: proceeds(2) access_run.starts seat_first_owner_def seats_of_def)
      ultimately have "owned (fst y') \<and> (\<exists>p. first_owner cfg p \<and> bootstraps (audit_trail (fst y')) = [bootstrap_event p]
          \<and> seated_by cfg y' p)"
        using b p(2) proceeds(2) by (intro conjI exI [of _ p]) simp_all
      then show ?thesis using run once by (simp add: seated_first_def)
    qed auto
  qed (use kept in simp)
qed

lemma seated_first_run: "access_run cfg y z \<Longrightarrow> seated_first cfg y \<Longrightarrow> seated_first cfg z"
  by (induction rule: access_run.induct) (auto dest: seated_first_step)

lemma seated_first_empty: "seated_first cfg (empty_access, [])"
  by (simp add: seated_first_def access_run.starts empty_access_def bootstraps_def roles_held_once_def)

end
