(* ===== verification/Access_Safety.thy ===== *)
theory Access_Safety
  imports Access_Authority
begin

text \<open>
  What the audit trail shows of every mix of requests: no role is granted without authority, the first
  owner is seated once and is the configured one, every denial was recorded before it was reported.
  Each is an invariant of the trail together with what a request under way may still do (\<open>vetted\<close>): a
  statement on its remaining calls that the calls of the other requests, which only add to the trail,
  cannot break.
\<close>

section \<open>What the trail vouches for\<close>

definition vouched :: "trail \<Rightarrow> string \<Rightarrow> access_role \<Rightarrow> bool" where
  "vouched t sub r \<longleftrightarrow>
     (\<exists>ev \<in> set t. ev_outcome ev = Effect_applied \<and> ev_action ev \<in> {''access_role.bootstrap'', ''access_role.grant''}
        \<and> ev_resource_id ev = sub \<and> ev_details ev = [(''access_role'', Text (role_value r))])"

definition authorised :: "trail \<Rightarrow> principal \<Rightarrow> access_role \<Rightarrow> bool" where
  "authorised t a r \<longleftrightarrow> (\<exists>allowed. grant_rbac r = Some allowed \<and> (\<exists>r' \<in> allowed. vouched t (fst a) r'))"

definition lawful :: "trail \<Rightarrow> bool" where
  "lawful t \<longleftrightarrow> (\<forall>i < length t. \<forall>r. grant_applied (t ! i) r \<longrightarrow> authorised (take i t) (ev_actor (t ! i)) r)"

definition rows_vouched :: "access_state \<Rightarrow> bool" where
  "rows_vouched s \<longleftrightarrow> (\<forall>a \<in> set (assignments s). held_role a = AUTHENTICATED_USER
     \<or> vouched (audit_trail s) (fst (holder a)) (held_role a))"

lemma vouched_later: "vouched t sub r \<Longrightarrow> vouched (t @ u) sub r"
  by (auto simp: vouched_def)

lemma authorised_later: "authorised t a r \<Longrightarrow> authorised (t @ u) a r"
  unfolding authorised_def using vouched_later by blast

lemma vouched_by:
  "vouched (t @ [bootstrap_event p]) (fst p) SYSTEM_OWNER" "vouched (t @ [grant_event a tgt r]) (fst tgt) r"
  by (auto simp: vouched_def access_event_defs)

lemma lawful_append:
  assumes "lawful t" "\<And>r. grant_applied ev r \<Longrightarrow> authorised t (ev_actor ev) r"
  shows "lawful (t @ [ev])"
  unfolding lawful_def
proof (intro allI impI)
  fix i r assume i: "i < length (t @ [ev])" "grant_applied ((t @ [ev]) ! i) r"
  show "authorised (take i (t @ [ev])) (ev_actor ((t @ [ev]) ! i)) r"
  proof (cases "i = length t")
    case False
    with i assms(1) show ?thesis by (simp add: lawful_def nth_append)
  qed (use i assms(2) in simp)
qed

section \<open>Vetted requests\<close>

definition outage :: "(store_error, 'a) result \<Rightarrow> bool" where
  "outage q \<longleftrightarrow> q = Inl StatePostgresConnectionError \<or> q = Inl AccessRoleAssignmentPersistenceError"

definition vouched_roles :: "trail \<Rightarrow> principal \<Rightarrow> (store_error, access_role set) result \<Rightarrow> bool" where
  "vouched_roles t p q \<longleftrightarrow>
     outage q \<or> (\<exists>R. q = Inr R \<and> (\<forall>r \<in> R. r = AUTHENTICATED_USER \<or> vouched t (fst p) r))"

primrec vetted :: "'r request \<Rightarrow> (trail \<Rightarrow> 'r \<Rightarrow> bool) \<Rightarrow> trail \<Rightarrow> bool" where
  "vetted (Done x) P t = P t x"
| "vetted (Ask_roles p k) P t = (\<forall>u q. vouched_roles (t @ u) p q \<longrightarrow> vetted (k q) P (t @ u))"
| "vetted (Ask_bootstrap p k) P t = (\<forall>u q. vouched_roles (t @ u) p q \<longrightarrow> vetted (k q) P (t @ u))"
| "vetted (Ask_grant a tgt r k) P t = (r \<noteq> AUTHENTICATED_USER \<and> authorised t a r
     \<and> (\<forall>u q. outage q \<or> q = Inr () \<and> grant_event a tgt r \<in> set (t @ u) \<longrightarrow> vetted (k q) P (t @ u)))"
| "vetted (Ask_revoke a tgt r k) P t = (r \<noteq> AUTHENTICATED_USER
     \<and> (\<forall>u q. outage q \<or> q = Inl AccessRoleSystemOwnerFloorRaceError \<or> q = Inr () \<and> revoke_event a tgt r \<in> set (t @ u)
          \<longrightarrow> vetted (k q) P (t @ u)))"
| "vetted (Ask_owner_count k) P t = (\<forall>u q. outage q \<or> (\<exists>n. q = Inr n) \<longrightarrow> vetted (k q) P (t @ u))"
| "vetted (Ask_listing k) P t = (\<forall>u q. outage q \<or> (\<exists>rows. q = Inr rows) \<longrightarrow> vetted (k q) P (t @ u))"
| "vetted (Ask_rejected act a tgt r reason k) P t = (r \<noteq> AUTHENTICATED_USER \<and> reason \<in> denial_reasons act
     \<and> (\<forall>u q. q = Inl AuditPostgresUnavailableError \<or> q = Inl AuditPersistenceError
          \<or> q = Inr () \<and> rejection act a tgt r reason \<in> set (t @ u) \<longrightarrow> vetted (k q) P (t @ u)))"
| "vetted (Ask_gate_row g a k) P t = (\<forall>u q. vetted (k q) P (t @ u))"
| "vetted (Ask_page fl b n k) P t = (details_filter_ok fl
     \<and> (\<forall>u q. q = Inl Query_unavailable \<or> (\<exists>pg. q = Inr pg) \<longrightarrow> vetted (k q) P (t @ u)))"

lemma vetted_later:
  assumes "\<And>t u x. P t x \<Longrightarrow> P (t @ u) x" "vetted q P t"
  shows "vetted q P (t @ u)"
  using assms(2) by (cases q) (auto simp: assms(1) authorised_later)

lemma vetted_bind:
  assumes "vetted m Q t" "\<And>t x. Q t x \<Longrightarrow> vetted (f x) P t"
  shows "vetted (bind_request m f) P t"
  using assms(1) by (induction m arbitrary: t) (auto simp: assms(2))

lemma vetted_and_then:
  assumes "vetted m (\<lambda>t r. case r of Inl e \<Rightarrow> E t e | Inr x \<Rightarrow> Q t x) t"
    "\<And>t x. Q t x \<Longrightarrow> vetted (f x) P t" "\<And>t e. E t e \<Longrightarrow> P t (Inl e)"
  shows "vetted (and_then m f) P t"
  unfolding and_then_def by (rule vetted_bind[OF assms(1)]) (auto simp: assms(2,3) split: sum.splits)

lemma transact_outage:
  "transact f body s = (Inl e, s') \<Longrightarrow> outage (Inl e :: (store_error, 'a) result) \<or> body s = Inl e"
  by (auto simp: transact_def outage_def split: fate.splits sum.splits)

lemma serve_grows: "serve cfg f q s = (q', s') \<Longrightarrow> \<exists>u. audit_trail s' = audit_trail s @ u"
proof -
  assume "serve cfg f q s = (q', s')"
  then obtain m where "store_move cfg m s s'" using serve_moves by blast
  then show ?thesis by cases (auto simp: seat_first_owner_def add_grant_def drop_role_def)
qed

lemma served_roles_vouched:
  assumes "transact f (read_body (\<lambda>s. roles_held p (assignments s))) s = (q, s')" "rows_vouched s"
  shows "s' = s \<and> vouched_roles (audit_trail s) p q"
  using assms
  by (auto simp: transact_def read_body_def outage_def vouched_roles_def roles_held_def rows_vouched_def split: fate.splits)

lemma served_bootstrap_vouched:
  assumes "transact f (bootstrap_body cfg p) s = (q, s')"
  shows "vouched_roles (audit_trail s') p q"
proof -
  have body: "vouched_roles (audit_trail s'') p (Inr R)" if "bootstrap_body cfg p s = Inr (R, s'')" for R s''
    using that vouched_by(1)[of "audit_trail s" p]
    by (auto simp: bootstrap_body_eq vouched_roles_def seat_first_owner_def split: if_splits)
  have "outage q \<or> (\<exists>R. q = Inr R \<and> bootstrap_body cfg p s = Inr (R, s'))"
    using assms
    by (cases "bootstrap_body cfg p s") (auto simp: transact_def outage_def bootstrap_body_eq split: fate.splits if_splits)
  then show ?thesis using body by (auto simp: vouched_roles_def)
qed

lemma served_rejected:
  assumes "record_rejected f act a tgt r reason s = (q, s')" "r \<noteq> AUTHENTICATED_USER" "reason \<in> denial_reasons act"
  shows "q = Inl AuditPostgresUnavailableError \<or> q = Inl AuditPersistenceError
          \<or> q = Inr () \<and> rejection act a tgt r reason \<in> set (audit_trail s')"
  using assms by (auto simp: record_rejected_def record_standalone_def audited split: if_splits prod.splits sum.splits)

lemma serve_vetted:
  assumes "serve cfg f q s = (q', s')" "vetted q P (audit_trail s)" "rows_vouched s" "\<And>t u x. P t x \<Longrightarrow> P (t @ u) x"
  shows "vetted q' P (audit_trail s')"
proof -
  obtain u where u: "audit_trail s' = audit_trail s @ u" using serve_grows[OF assms(1)] by blast
  show ?thesis
  proof (cases q)
    case (Ask_roles p k)
    with assms(1) obtain z where z: "transact f (read_body (\<lambda>s. roles_held p (assignments s))) s = (z, s')" "q' = k z"
      by (auto simp: apfst_def map_prod_def split: prod.splits)
    from served_roles_vouched[OF z(1) assms(3)] assms(2)[unfolded Ask_roles vetted.simps, THEN spec, of "[]"] z(2) show ?thesis
      by simp
  next
    case (Ask_bootstrap p k)
    with assms(1) obtain z where z: "transact f (bootstrap_body cfg p) s = (z, s')" "q' = k z"
      by (auto simp: apfst_def map_prod_def split: prod.splits)
    from served_bootstrap_vouched[OF z(1)] assms(2)[unfolded Ask_bootstrap vetted.simps] show ?thesis
      unfolding z(2) u by blast
  next
    case (Ask_grant a tgt r k)
    with assms(1) obtain z where z: "transact f (grant_body a tgt r) s = (z, s')" "q' = k z"
      by (auto simp: apfst_def map_prod_def split: prod.splits)
    have "outage z \<or> z = Inr () \<and> grant_event a tgt r \<in> set (audit_trail s')"
      using z(1) assms(2) Ask_grant
      by (auto simp: transact_def outage_def grant_body_eq add_grant_def split: fate.splits if_splits)
    then show ?thesis using assms(2)[unfolded Ask_grant vetted.simps] unfolding z(2) u by blast
  next
    case (Ask_revoke a tgt r k)
    with assms(1) obtain z where z: "transact f (revoke_body a tgt r) s = (z, s')" "q' = k z"
      by (auto simp: apfst_def map_prod_def split: prod.splits)
    have "outage z \<or> z = Inl AccessRoleSystemOwnerFloorRaceError \<or> z = Inr () \<and> revoke_event a tgt r \<in> set (audit_trail s')"
      using z(1) assms(2) Ask_revoke
      by (auto simp: transact_def outage_def revoke_body_eq drop_role_def split: fate.splits if_splits)
    then show ?thesis using assms(2)[unfolded Ask_revoke vetted.simps] unfolding z(2) u by blast
  next
    case (Ask_rejected act a tgt r reason k)
    with assms(1) obtain z where z: "record_rejected f act a tgt r reason s = (z, s')" "q' = k z"
      by (auto simp: apfst_def map_prod_def split: prod.splits)
    from served_rejected[OF z(1)] assms(2) Ask_rejected
    have "z = Inl AuditPostgresUnavailableError \<or> z = Inl AuditPersistenceError
        \<or> z = Inr () \<and> rejection act a tgt r reason \<in> set (audit_trail s')" by simp
    then show ?thesis using assms(2)[unfolded Ask_rejected vetted.simps] unfolding z(2) u by blast
  next
    case (Ask_owner_count k)
    with assms(1) obtain z where z: "transact f (read_body (\<lambda>s. owner_count (assignments s))) s = (z, s')" "q' = k z"
      by (auto simp: apfst_def map_prod_def split: prod.splits)
    have "outage z \<or> (\<exists>n. z = Inr n)" using z(1) by (auto simp: transact_def read_body_def outage_def split: fate.splits)
    then show ?thesis using assms(2)[unfolded Ask_owner_count vetted.simps] unfolding z(2) u by blast
  next
    case (Ask_listing k)
    with assms(1) obtain z where z: "transact f (read_body (all_assignments cfg)) s = (z, s')" "q' = k z"
      by (auto simp: apfst_def map_prod_def split: prod.splits)
    have "outage z \<or> (\<exists>n. z = Inr n)" using z(1) by (auto simp: transact_def read_body_def outage_def split: fate.splits)
    then show ?thesis using assms(2)[unfolded Ask_listing vetted.simps] unfolding z(2) u by blast
  next
    case (Ask_gate_row g a k)
    then show ?thesis using assms(1,2) u by (auto simp: apfst_def map_prod_def split: prod.splits)
  next
    case (Ask_page fl b n k)
    let ?z = "query_page f (session_zone cfg) fl b n (stored_rows cfg (audit_trail s))"
    have q': "q' = k ?z" using assms(1) Ask_page by auto
    have "?z = Inl Query_unavailable \<or> (\<exists>pg. ?z = Inr pg)"
      using assms(2) Ask_page by (simp add: query_page_def Let_def)
    then show ?thesis using assms(2)[unfolded Ask_page vetted.simps] unfolding q' u by blast
  next
    case (Done x)
    then show ?thesis using assms(1,2) by simp
  qed
qed

section \<open>What a request may report\<close>

definition denied_row :: "access_action \<Rightarrow> principal \<Rightarrow> principal \<Rightarrow> string \<Rightarrow> string \<Rightarrow> trail \<Rightarrow> bool" where
  "denied_row act a tgt name reason t \<longleftrightarrow> (\<exists>r. role_value r = name \<and> rejection act a tgt r reason \<in> set t)"

fun reported :: "access_call \<Rightarrow> trail \<Rightarrow> (access_error, access_answer) result \<Rightarrow> bool" where
  "reported (Call_grant a ts name iss) t (Inr w) \<longleftrightarrow> (\<exists>r. role_value r = name \<and> grant_event a (ts, iss) r \<in> set t)"
| "reported (Call_revoke a ts name iss) t (Inr w) \<longleftrightarrow> (\<exists>r. role_value r = name \<and> revoke_event a (ts, iss) r \<in> set t)"
| "reported (Call_grant a ts name iss) t (Inl e) \<longleftrightarrow>
     (e = AccessDeniedError \<and> denied_row Grant_action a (ts, iss) name ''access_denied'' t)
     \<or> (e = SelfGrantOrRevokeBlockedError \<and> denied_row Grant_action a (ts, iss) name ''self_grant_blocked'' t)
     \<or> e = InvalidAccessRoleError \<or> e = AuthorizationStoreUnavailableError"
| "reported (Call_revoke a ts name iss) t (Inl e) \<longleftrightarrow>
     (e = AccessDeniedError \<and> denied_row Revoke_action a (ts, iss) name ''access_denied'' t)
     \<or> (e = SelfGrantOrRevokeBlockedError \<and> denied_row Revoke_action a (ts, iss) name ''self_revoke_blocked'' t)
     \<or> (e = SystemOwnerFloorViolationError \<and> denied_row Revoke_action a (ts, iss) name ''system_owner_floor_violation'' t)
     \<or> e = InvalidAccessRoleError \<or> e = AuthorizationStoreUnavailableError"
| "reported (Call_events p f c n) t (Inl e) \<longleftrightarrow>
     e \<in> {AccessDeniedError, AuthorizationStoreUnavailableError, InvalidAuditQueryFilterError}
     \<or> e = Type_Error \<and> (\<exists>a b. f_occurred_from f = Some a \<and> f_occurred_to f = Some b \<and> is_later a b = None)"
| "reported c t (Inl e) \<longleftrightarrow> e \<in> {AccessDeniedError, AuthorizationStoreUnavailableError}"
| "reported c t (Inr w) \<longleftrightarrow> True"

lemma reported_later: "reported c t x \<Longrightarrow> reported c (t @ u) x"
  by (cases c; cases x) (auto simp: denied_row_def)

lemma outage_failed: "outage (Inl e) \<Longrightarrow> store_failed e = AuthorizationStoreUnavailableError"
  by (auto simp: outage_def store_failed_def)

lemma vetted_or_unavailable:
  "outage q \<Longrightarrow> P t (Inl AuthorizationStoreUnavailableError) \<Longrightarrow> vetted (or_unavailable q) P t"
  "P t (Inr x) \<Longrightarrow> vetted (or_unavailable (Inr x)) P t"
  by (auto simp: or_unavailable_def outage_def store_failed_def)

abbreviation unavailable_or :: "(trail \<Rightarrow> 'a \<Rightarrow> bool) \<Rightarrow> trail \<Rightarrow> (access_error, 'a) result \<Rightarrow> bool" where
  "unavailable_or Q \<equiv> \<lambda>t r. case r of Inl e \<Rightarrow> e = AuthorizationStoreUnavailableError | Inr x \<Rightarrow> Q t x"

lemma vetted_roles:
  "vetted (Ask_roles p or_unavailable) (unavailable_or (\<lambda>t R. \<forall>r \<in> R. r = AUTHENTICATED_USER \<or> vouched t (fst p) r)) t"
  "vetted (Ask_bootstrap p or_unavailable) (unavailable_or (\<lambda>t R. \<forall>r \<in> R. r = AUTHENTICATED_USER \<or> vouched t (fst p) r)) t"
  by (auto simp: vouched_roles_def intro: vetted_or_unavailable)

lemma vetted_resolve:
  "vetted (resolve_active_roles p) (unavailable_or (\<lambda>t R. \<forall>r \<in> R. r = AUTHENTICATED_USER \<or> vouched t (fst p) r)) t"
  unfolding resolve_active_roles_def
  by (rule vetted_and_then[OF vetted_roles(1)]) (auto simp: vetted_roles(2) simp del: vetted.simps(2,3))

lemma vetted_deny:
  assumes "r \<noteq> AUTHENTICATED_USER" "reason \<in> denial_reasons act" "\<And>t. P t (Inl AuthorizationStoreUnavailableError)"
    "\<And>t. rejection act a tgt r reason \<in> set t \<Longrightarrow> P t (Inl err)"
  shows "vetted (deny act a tgt r reason err) P t"
  using assms by (auto simp: deny_def record_rejected_or_raise_unavailable_def and_then_def)

lemma vetted_count:
  assumes "\<And>t. P t (Inl AuthorizationStoreUnavailableError)" "\<And>t n. Q t \<Longrightarrow> vetted (f n) P t"
    "Q t" "\<And>t u. Q t \<Longrightarrow> Q (t @ u)"
  shows "vetted (and_then (Ask_owner_count or_unavailable) f) P t"
  unfolding and_then_def by (auto simp: or_unavailable_def assms outage_failed split: sum.splits)
lemma parse_grantable:
  "parse_grantable_access_role rbac name = Some (r, allowed) \<longleftrightarrow> role_value r = name \<and> rbac r = Some allowed"
  by (auto simp: parse_grantable_access_role_def role_of_Some split: option.splits)

lemma rbac_managed: "grant_rbac r = Some allowed \<Longrightarrow> r \<noteq> AUTHENTICATED_USER \<and> AUTHENTICATED_USER \<notin> allowed"
  "revoke_rbac r = Some allowed \<Longrightarrow> r \<noteq> AUTHENTICATED_USER \<and> AUTHENTICATED_USER \<notin> allowed"
  by (cases r; auto)+

lemma vetted_answer:
  assumes "vetted m (\<lambda>t r. case r of Inl e \<Rightarrow> P t (Inl e) | Inr x \<Rightarrow> P t (Inr (h x))) t"
  shows "vetted (answer_with h m) P t"
  unfolding answer_with_def and_then_def
  by (rule vetted_bind[OF assms]) (auto split: sum.splits)

abbreviation reports :: "access_call \<Rightarrow> ('a \<Rightarrow> access_answer) \<Rightarrow> trail \<Rightarrow> (access_error, 'a) result \<Rightarrow> bool" where
  "reports c h \<equiv> \<lambda>t r. case r of Inl e \<Rightarrow> reported c t (Inl e) | Inr x \<Rightarrow> reported c t (Inr (h x))"

lemma authorised_by:
  "\<lbrakk>\<forall>r \<in> R. r = AUTHENTICATED_USER \<or> vouched t (fst a) r; x \<in> R; x \<in> allowed; grant_rbac r = Some allowed\<rbrakk> \<Longrightarrow>
   authorised t a r"
  using rbac_managed(1) by (fastforce simp: authorised_def)

lemma reported_errors:
  "reported c t (Inl AuthorizationStoreUnavailableError)"
  "reported (Call_grant a ts (role_value r) iss) t (Inl AccessDeniedError)
     \<longleftrightarrow> rejection Grant_action a (ts, iss) r ''access_denied'' \<in> set t"
  "reported (Call_grant a ts (role_value r) iss) t (Inl SelfGrantOrRevokeBlockedError)
     \<longleftrightarrow> rejection Grant_action a (ts, iss) r ''self_grant_blocked'' \<in> set t"
  "reported (Call_revoke a ts (role_value r) iss) t (Inl AccessDeniedError)
     \<longleftrightarrow> rejection Revoke_action a (ts, iss) r ''access_denied'' \<in> set t"
  "reported (Call_revoke a ts (role_value r) iss) t (Inl SelfGrantOrRevokeBlockedError)
     \<longleftrightarrow> rejection Revoke_action a (ts, iss) r ''self_revoke_blocked'' \<in> set t"
  "reported (Call_revoke a ts (role_value r) iss) t (Inl SystemOwnerFloorViolationError)
     \<longleftrightarrow> rejection Revoke_action a (ts, iss) r ''system_owner_floor_violation'' \<in> set t"
  by (cases c) (auto simp: denied_row_def)

lemma vetted_act:
  assumes "r \<noteq> AUTHENTICATED_USER" "authorised t a r"
  shows "vetted (and_then (Ask_grant a (ts, iss) r or_unavailable) (\<lambda>_.
        and_then (Ask_owner_count or_unavailable) (\<lambda>n. Done (Inr (n = 1)))))
     (reports (Call_grant a ts (role_value r) iss) Floor_warning) t"
proof -
  have "vetted (Ask_grant a (ts, iss) r or_unavailable) (unavailable_or (\<lambda>t _. grant_event a (ts, iss) r \<in> set t)) t"
    using assms by (auto intro: vetted_or_unavailable)
  then show ?thesis
    by (rule vetted_and_then)
      (auto intro!: vetted_count[where Q = "\<lambda>t. grant_event a (ts, iss) r \<in> set t"])
qed

lemma vetted_grant_role: "vetted (grant_role a ts name iss) (reports (Call_grant a ts name iss) Floor_warning) t"
proof (cases "parse_grantable_access_role grant_rbac name")
  case None
  then show ?thesis by (simp add: grant_role_def)
next
  case (Some ra)
  then obtain r allowed where p: "ra = (r, allowed)" "name = role_value r" "grant_rbac r = Some allowed"
    by (cases ra) (auto simp: parse_grantable)
  note ok = rbac_managed(1)[OF p(3)]
  show ?thesis
    unfolding grant_role_def Some p(1) option.case prod.case Let_def
    unfolding p(2)
    by (rule vetted_and_then[OF vetted_resolve])
      (use ok p(3) in \<open>auto intro!: vetted_deny vetted_act intro: authorised_by
         simp: reported_errors denial_reasons_def simp del: One_nat_def reported.simps role_value.simps\<close>)
qed

lemma vetted_revoke_and_count:
  assumes "r \<noteq> AUTHENTICATED_USER"
  shows "vetted (revoke_and_count a (ts, iss) r) (reports (Call_revoke a ts (role_value r) iss) Floor_warning) t"
proof -
  have "vetted (and_then (Ask_revoke a (ts, iss) r Done) (\<lambda>_. Ask_owner_count Done))
      (\<lambda>t q. outage q \<or> q = Inl AccessRoleSystemOwnerFloorRaceError
         \<or> (\<exists>n. q = Inr n) \<and> revoke_event a (ts, iss) r \<in> set t) t"
    using assms by (auto simp: and_then_def outage_def)
  then show ?thesis
    unfolding revoke_and_count_def
    by (rule vetted_bind)
      (use assms in \<open>auto intro!: vetted_deny simp: outage_def store_failed_def denied_row_def denial_reasons_def\<close>)
qed

lemma vetted_revoke_role: "vetted (revoke_role a ts name iss) (reports (Call_revoke a ts name iss) Floor_warning) t"
proof (cases "parse_grantable_access_role revoke_rbac name")
  case None
  then show ?thesis by (simp add: revoke_role_def)
next
  case (Some ra)
  then obtain r allowed where p: "ra = (r, allowed)" "name = role_value r" "revoke_rbac r = Some allowed"
    by (cases ra) (auto simp: parse_grantable)
  note ok = rbac_managed(2)[OF p(3)]
  have floor: "vetted (and_then (Ask_owner_count or_unavailable) (\<lambda>n.
                   if \<not> enforce_system_owner_floor \<lparr>ctx_actor = a, ctx_target = (ts, iss), ctx_role = r,
                          ctx_action = Revoke_action, active_system_owner_count = n, actor_is_system_owner = False\<rparr>
                   then deny Revoke_action a (ts, iss) r ''system_owner_floor_violation'' SystemOwnerFloorViolationError
                   else revoke_and_count a (ts, iss) r)) (reports (Call_revoke a ts (role_value r) iss) Floor_warning) t" for t
    using ok by (auto intro!: vetted_count[where Q = "\<lambda>t. True"] vetted_deny vetted_revoke_and_count
      simp: reported_errors denial_reasons_def simp del: reported.simps)
  show ?thesis
    unfolding revoke_role_def Some p(1) option.case prod.case Let_def
    unfolding p(2)
    by (rule vetted_and_then[OF vetted_resolve])
      (use ok floor in \<open>auto intro!: vetted_deny vetted_revoke_and_count
         simp: reported_errors denial_reasons_def simp del: reported.simps role_value.simps\<close>)
qed

lemma vetted_check_role:
  assumes "\<And>t b. P t (Inr b)" "\<And>t. P t (Inl AuthorizationStoreUnavailableError)"
  shows "vetted (check_role p minimum) P t"
  unfolding check_role_def by (rule vetted_and_then[OF vetted_roles(1)]) (simp_all add: assms)

lemma vetted_require_admin:
  assumes "\<And>t. vetted (f ()) P t" "\<And>t. P t (Inl AccessDeniedError)" "\<And>t. P t (Inl AuthorizationStoreUnavailableError)"
  shows "vetted (and_then (require_admin p) f) P t"
proof (rule vetted_and_then)
  show "vetted (require_admin p)
      (\<lambda>t r. case r of Inl e \<Rightarrow> e = AccessDeniedError \<or> e = AuthorizationStoreUnavailableError | Inr _ \<Rightarrow> True) t"
    unfolding require_admin_def
    by (rule vetted_and_then[OF vetted_check_role[of "unavailable_or (\<lambda>_ _. True)"]]) (auto simp: raise_if_denied_def)
qed (use assms in auto)

lemma vetted_gate: "vetted (enforce_role_gate g caller actor) (reports (Call_gate g caller actor) (\<lambda>u. Passed)) t"
proof (cases caller)
  case None then show ?thesis by (simp add: enforce_role_gate_def raise_if_denied_def)
next
  case (Some p)
  show ?thesis
    unfolding enforce_role_gate_def Some option.case
    by (rule vetted_and_then[OF vetted_resolve])
      (auto simp: raise_if_denied_def Let_def split: option.splits)
qed

lemma vetted_service: "vetted (access_service cfg c) (reported c) t"
proof (cases c)
  case (Call_grant a ts name iss)
  then show ?thesis using vetted_answer[OF vetted_grant_role] by simp
next
  case (Call_revoke a ts name iss)
  then show ?thesis using vetted_answer[OF vetted_revoke_role] by simp
next
  case (Call_roster p)
  then show ?thesis
    unfolding Call_roster access_service.simps list_assignments_def
    by (intro vetted_answer vetted_require_admin)
      (auto simp: and_then_def or_unavailable_def outage_failed split: sum.splits)
next
  case (Call_check p minimum)
  then show ?thesis by (auto intro!: vetted_answer vetted_check_role)
next
  case (Call_gate g p a)
  then show ?thesis using vetted_answer[OF vetted_gate] by simp
next
  case (Call_events p f cur n)
  have ok: "details_filter_ok f" if "validate_audit_query_filters cfg f n = Inr ()"
    using that
    by (auto simp: validate_audit_query_filters_def bind_result_Inr details_filter_ok_def holds_if_set_def list_all_iff
        split: option.splits if_splits)
  have err: "e = InvalidAuditQueryFilterError
      \<or> e = Type_Error \<and> (\<exists>a b. f_occurred_from f = Some a \<and> f_occurred_to f = Some b \<and> is_later a b = None)"
    if "validate_audit_query_filters cfg f n = Inl e" for e
    using that
    by (auto simp: validate_audit_query_filters_def bind_result_Inl split: option.splits if_splits)
  show ?thesis
    unfolding Call_events access_service.simps list_audit_events_def
    by (intro vetted_answer vetted_require_admin) (use ok err in \<open>auto simp: outage_failed split: sum.splits\<close>)
qed

section \<open>The system invariant\<close>

definition access_ok :: "access_system \<Rightarrow> bool" where
  "access_ok y \<longleftrightarrow> rows_vouched (fst y) \<and> lawful (audit_trail (fst y))
     \<and> (\<forall>(c, q) \<in> set (snd y). vetted q (reported c) (audit_trail (fst y)))"

lemma asked_grant: "asked_by q (Grants a tgt r) \<Longrightarrow> vetted q P t \<Longrightarrow> authorised t a r"
  by (cases q) auto

lemma move_lawful:
  assumes "store_move cfg m s s'" "rows_vouched s" "lawful (audit_trail s)"
    "\<And>a tgt r. m = Grants a tgt r \<Longrightarrow> authorised (audit_trail s) a r"
  shows "rows_vouched s' \<and> lawful (audit_trail s')"
  using assms(1)
proof cases
  case (seats p)
  then show ?thesis using assms(3) vouched_by(1)[of "audit_trail s" p]
    by (auto simp: seat_first_owner_def rows_vouched_def intro!: lawful_append)
next
  case (grants r a tgt)
  have "lawful (audit_trail s')"
    using grants assms(3) assms(4)[of a tgt r] by (auto simp: add_grant_def intro!: lawful_append)
  moreover have "rows_vouched s'"
    using grants assms(2) vouched_by(2)[of "audit_trail s" a tgt r] vouched_later
    by (auto simp: rows_vouched_def add_grant_def dest!: set_insert_assignment)
  ultimately show ?thesis by simp
next
  case (revokes r a tgt)
  then show ?thesis using assms(2,3) vouched_later
    by (auto simp: rows_vouched_def drop_role_def set_delete_assignment intro!: lawful_append)
next
  case (refuses ev)
  then show ?thesis using assms(2,3) vouched_later by (auto simp: rows_vouched_def intro!: lawful_append)
qed (use assms in simp)

lemma access_step_ok: "access_step cfg y z \<Longrightarrow> access_ok y \<Longrightarrow> access_ok z"
proof (induction rule: access_step.induct)
  case (arrives s rs c)
  then show ?case by (auto simp: access_ok_def vetted_service)
next
  case (proceeds i rs c q f s q' s')
  have v: "vetted q (reported c) (audit_trail s)"
    using proceeds(1,2,4) nth_mem[of i rs] by (auto simp: access_ok_def)
  have state: "rows_vouched s" "lawful (audit_trail s)" using proceeds(4) by (auto simp: access_ok_def)
  obtain m where m: "store_move cfg m s s'" "asked_by q m" using serve_moves[OF proceeds(3)] by blast
  have "rows_vouched s' \<and> lawful (audit_trail s')"
    by (rule move_lawful[OF m(1) state]) (use m(2) v asked_grant in blast)
  moreover have "vetted q' (reported c) (audit_trail s')"
    by (rule serve_vetted[OF proceeds(3) v state(1) reported_later])
  moreover have "vetted p (reported d) (audit_trail s')" if "(d, p) \<in> set rs" for d p
  proof -
    obtain u where "audit_trail s' = audit_trail s @ u" using serve_grows[OF proceeds(3)] by blast
    moreover have "vetted p (reported d) (audit_trail s)" using proceeds(4) that by (auto simp: access_ok_def)
    ultimately show ?thesis using vetted_later[of "reported d"] reported_later by metis
  qed
  ultimately show ?case
    using set_update_subset_insert[of rs i "(c, q')"] by (auto simp: access_ok_def)
qed

lemma access_run_ok: "access_run cfg y z \<Longrightarrow> access_ok y \<Longrightarrow> access_ok z"
  by (induction rule: access_run.induct) (auto dest: access_step_ok)

lemma access_ok_empty: "access_ok (empty_access, [])"
  by (simp add: access_ok_def rows_vouched_def lawful_def empty_access_def)

section \<open>Properties of the service\<close>

text \<open>C6. No grant without authority.
  Whatever requests run, interleave and fail: for each applied grant on the trail there is an earlier state of the run,
  from before the grant's row was written, whose table has a row that gives a role which may grant it (SystemOwner
  for SystemOwner and SystemAdmin, SystemOwner or SystemAdmin for the other two) to the very principal, subject and
  issuer, the row names as its actor. And the trail itself has, before the grant, an applied event,
  bootstrap or grant, that gave such a role to the actor's subject: the trail does not record the issuer.\<close>

theorem grants_are_authorised:
  assumes "access_run cfg (empty_access, []) (s, rs)" "i < length (audit_trail s)" "grant_applied (audit_trail s ! i) r"
  shows "r \<noteq> AUTHENTICATED_USER
    \<and> (\<exists>z. access_run cfg (empty_access, []) z \<and> access_run cfg z (s, rs) \<and> length (audit_trail (fst z)) \<le> i
         \<and> (\<exists>a \<in> set (assignments (fst z)). holder a = ev_actor (audit_trail s ! i)
              \<and> (held_role a = SYSTEM_OWNER
                 \<or> (r = POLICY_MANAGER \<or> r = COMPLIANCE_OFFICER) \<and> held_role a = SYSTEM_ADMIN)))
    \<and> (\<exists>j < i. vouched [audit_trail s ! j] (fst (ev_actor (audit_trail s ! i))) SYSTEM_OWNER
         \<or> (r = POLICY_MANAGER \<or> r = COMPLIANCE_OFFICER)
            \<and> vouched [audit_trail s ! j] (fst (ev_actor (audit_trail s ! i))) SYSTEM_ADMIN)"
proof -
  let ?actor = "ev_actor (audit_trail s ! i)"
  have strong: "r' = SYSTEM_OWNER \<or> (r = POLICY_MANAGER \<or> r = COMPLIANCE_OFFICER) \<and> r' = SYSTEM_ADMIN"
    if "grant_rbac r = Some allowed" "r' \<in> allowed" for allowed r'
    using that by (cases r) auto
  from access_run_ok[OF assms(1) access_ok_empty] have "lawful (audit_trail s)" by (simp add: access_ok_def)
  then have "authorised (take i (audit_trail s)) ?actor r"
    using assms(2,3) by (simp add: lawful_def)
  then obtain allowed r' where a: "grant_rbac r = Some allowed" "r' \<in> allowed"
    "vouched (take i (audit_trail s)) (fst ?actor) r'"
    by (auto simp: authorised_def)
  then obtain j where "j < i" "vouched [audit_trail s ! j] (fst ?actor) r'"
    using assms(2) by (auto simp: vouched_def in_set_conv_nth)
  moreover have "may_grant {(p, r'). held_before cfg (s, rs) i p r'} ?actor r"
    using on_authority_run[OF assms(1) on_authority_empty] assms(2,3) by (auto simp: on_authority_def)
  then obtain allowed' r'' where "grant_rbac r = Some allowed'" "r'' \<in> allowed'" "held_before cfg (s, rs) i ?actor r''"
    by (auto simp: may_grant_def)
  ultimately show ?thesis
    using strong[OF a(1,2)] strong[of allowed' r''] rbac_managed(1)[OF a(1)] unfolding held_before_def by blast
qed

theorem grants_are_authorised_witness:
  "grant_applied (audit_trail (fst seated_owners) ! 2) SYSTEM_ADMIN
   \<and> (\<exists>z. access_run sample_access_config (empty_access, []) z
        \<and> (\<exists>a \<in> set (assignments (fst z)). holder a = (''ada'', ''idp'') \<and> held_role a = SYSTEM_OWNER))"
proof -
  have g: "grant_applied (audit_trail (fst seated_owners) ! 2) SYSTEM_ADMIN" by code_simp
  have "2 < length (audit_trail (fst seated_owners))" "ev_actor (audit_trail (fst seated_owners) ! 2) = (''ada'', ''idp'')"
    by code_simp+
  with g seated_owners_run show ?thesis
    using grants_are_authorised[of sample_access_config "fst seated_owners" "snd seated_owners" 2 SYSTEM_ADMIN] by auto
qed

text \<open>C7. What a request reports is on record.
  Whatever requests run, interleave and fail: a grant or revoke that reports success has its applied row
  on the trail; one that reports a denial has the rejected row with that reason; and no request ends
  with an error other than the documented ones, so a denial that could not be recorded is reported as an
  unavailable store, with one exception that \<^verbatim>\<open>list_audit_events\<close> does not document: a query between
  two times of which only one has an offset ends with the \<^verbatim>\<open>TypeError\<close> of their comparison.\<close>

theorem answers_are_on_record:
  assumes "access_run cfg (empty_access, []) (s, rs)" "(c, Done answer) \<in> set rs"
  shows "reported c (audit_trail s) answer"
  using access_run_ok[OF assms(1) access_ok_empty] assms(2) by (auto simp: access_ok_def)

definition answer_of :: "nat \<Rightarrow> access_system \<Rightarrow> (access_call \<times> (access_error, access_answer) result) option" where
  "answer_of i y = (if i < length (snd y)
     then (case snd y ! i of (c, q) \<Rightarrow> (case q of Done x \<Rightarrow> Some (c, x) | _ \<Rightarrow> None)) else None)"

lemma answer_of_member: "answer_of i y = Some (c, x) \<Longrightarrow> (c, Done x) \<in> set (snd y)"
  by (auto simp: answer_of_def split: if_splits prod.splits request.splits) (metis nth_mem)

theorem answers_are_on_record_witness:
  "denied_row Revoke_action (''ada'', ''idp'') (''bob'', ''idp'') ''SystemOwner'' ''system_owner_floor_violation''
     (audit_trail (fst after_race))"
proof -
  let ?c = "Call_revoke (''ada'', ''idp'') ''bob'' ''SystemOwner'' ''idp''"
  have "access_run sample_access_config (empty_access, []) (fst after_race, snd after_race)"
    using access_run_trans[OF after_race_run seated_owners_run] by simp
  moreover have "answer_of 3 after_race = Some (?c, Inl SystemOwnerFloorViolationError)" by code_simp
  then have "(?c, Done (Inl SystemOwnerFloorViolationError)) \<in> set (snd after_race)" by (rule answer_of_member)
  ultimately have "reported ?c (audit_trail (fst after_race)) (Inl SystemOwnerFloorViolationError)"
    by (rule answers_are_on_record)
  then show ?thesis by simp
qed

text \<open>C24. The first owner.
  Whatever requests run, interleave and fail, an owner is seated by bootstrap at most once; that owner is the configured
  one, subject and issuer; the run passed through the state right after, whose trail ends with that row and whose
  table has the two rows of that principal and no other; and from then on there is an owner.\<close>

theorem bootstrap_happens_once:
  assumes "access_run cfg (empty_access, []) (s, rs)"
  shows "bootstraps (audit_trail s) = []
    \<or> (\<exists>subject issuer. bootstrap_owner_subject cfg = Some subject \<and> bootstrap_owner_issuer cfg = Some issuer
         \<and> bootstraps (audit_trail s) = [bootstrap_event (subject, issuer)]
         \<and> seated_by cfg (s, rs) (subject, issuer)
         \<and> 1 \<le> owner_count (assignments s))"
  using seated_first_run[OF assms seated_first_empty] by (auto simp: seated_first_def first_owner_def owned_def)

theorem bootstrap_happens_once_witness:
  "bootstraps (audit_trail (fst seated_owners)) = [bootstrap_event (''ada'', ''idp'')]
   \<and> seated_by sample_access_config seated_owners (''ada'', ''idp'')"
proof -
  have "bootstraps (audit_trail (fst seated_owners)) \<noteq> []" by code_simp
  then show ?thesis
    using bootstrap_happens_once[of sample_access_config "fst seated_owners" "snd seated_owners"] seated_owners_run
    by (auto simp: sample_access_config_def)
qed

section \<open>Requests by themselves\<close>

definition read_only :: "'r request \<Rightarrow> bool" where
  "read_only q \<longleftrightarrow> (\<forall>cfg fs s. snd (run_request q cfg fs s) = s)"

lemma run_bind:
  "\<exists>fs'. run_request (bind_request q f) cfg fs s
     = (case run_request q cfg fs s of (x, s') \<Rightarrow> run_request (f x) cfg fs' s')"
proof (induction q arbitrary: fs s)
  case (Done x) then show ?case by (simp add: exI[of _ fs])
next
  case (Ask_page fl b n k)
  show ?case using Ask_page.IH[OF rangeI] by simp
next
  case (Ask_roles p k)
  show ?case using Ask_roles.IH[OF rangeI] by (simp add: case_prod_beta)
next
  case (Ask_bootstrap p k)
  show ?case using Ask_bootstrap.IH[OF rangeI] by (simp add: case_prod_beta)
next
  case (Ask_grant a t r k)
  show ?case using Ask_grant.IH[OF rangeI] by (simp add: case_prod_beta)
next
  case (Ask_revoke a t r k)
  show ?case using Ask_revoke.IH[OF rangeI] by (simp add: case_prod_beta)
next
  case (Ask_owner_count k)
  show ?case using Ask_owner_count.IH[OF rangeI] by (simp add: case_prod_beta)
next
  case (Ask_listing k)
  show ?case using Ask_listing.IH[OF rangeI] by (simp add: case_prod_beta)
next
  case (Ask_rejected act a t r reason k)
  show ?case using Ask_rejected.IH[OF rangeI] by (simp add: case_prod_beta)
next
  case (Ask_gate_row g a k)
  show ?case using Ask_gate_row.IH[OF rangeI] by (simp add: case_prod_beta)
qed

lemma read_only_bind: "read_only q \<Longrightarrow> (\<And>x. read_only (f x)) \<Longrightarrow> read_only (bind_request q f)"
  unfolding read_only_def
proof (intro allI)
  fix cfg fs s
  assume q: "\<forall>cfg fs s. snd (run_request q cfg fs s) = s" and f: "\<And>x. \<forall>cfg fs s. snd (run_request (f x) cfg fs s) = s"
  obtain fs' where "run_request (bind_request q f) cfg fs s
     = (case run_request q cfg fs s of (x, s') \<Rightarrow> run_request (f x) cfg fs' s')" using run_bind by blast
  then show "snd (run_request (bind_request q f) cfg fs s) = s"
    using q f by (auto split: prod.splits) (metis snd_conv)
qed

lemma read_only_and_then: "read_only q \<Longrightarrow> (\<And>x. read_only (f x)) \<Longrightarrow> read_only (and_then q f)"
  unfolding and_then_def by (rule read_only_bind) (auto simp: read_only_def split: sum.splits)

lemma read_only_calls [simp]:
  "read_only (Done x)" "read_only (Ask_roles p or_unavailable)" "read_only (Ask_owner_count or_unavailable)"
  "read_only (Ask_listing or_unavailable)" "read_only (Ask_page fl b n (\<lambda>q. Done (h q)))" "read_only (raise_if_denied d)"
  by (auto simp: read_only_def or_unavailable_def raise_if_denied_def transact_def read_body_def split: prod.splits fate.splits)

lemma read_only_check: "read_only (check_role p minimum)"
  by (simp add: check_role_def read_only_and_then)

lemma read_only_admin: "read_only (require_admin p)"
  by (simp add: require_admin_def read_only_and_then read_only_check)

lemma run_or_unavailable: "run_request (or_unavailable q) cfg fs s = (case q of Inl e \<Rightarrow> Inl (store_failed e) | Inr x \<Rightarrow> Inr x, s)"
  by (simp add: or_unavailable_def)

lemma check_role_result:
  "fst (run_request (check_role p minimum) cfg fs s) = Inr allowed \<Longrightarrow>
     allowed = decide_role (roles_held p (assignments s) \<union> {AUTHENTICATED_USER}) minimum"
  by (auto simp: check_role_def and_then_def or_unavailable_def dest!: transact_read split: prod.splits sum.splits)

lemma list_assignments_result:
  assumes "fst (run_request (list_assignments p) cfg fs s) = Inr (rows, warning)"
  shows "rows = all_assignments cfg s \<and> warning = (owner_count (assignments s) = 1)
    \<and> decide_role (roles_held p (assignments s) \<union> {AUTHENTICATED_USER}) SYSTEM_ADMIN"
  using assms
  by (auto simp: list_assignments_def require_admin_def check_role_def raise_if_denied_def and_then_def or_unavailable_def
      dest!: transact_read split: prod.splits sum.splits if_splits)

text \<open>C25. The read-only requests.
  Checking a role, listing the roster and listing audit events never change the table or the trail, whatever
  the outcomes of their calls. A check that answers tells whether the principal holds, in the table, the role or one
  above it. A roster is only shown to an admin or owner; it then lists each row of the table once, in the order of the
  database's text collation, and the warning tells whether there is exactly one owner.\<close>

theorem reads_change_nothing:
  "snd (run_request (check_role p minimum) cfg fs s) = s
   \<and> snd (run_request (list_assignments p) cfg fs s) = s
   \<and> snd (run_request (list_audit_events cfg p fl cursor n) cfg fs s) = s
   \<and> (\<forall>allowed. fst (run_request (check_role p minimum) cfg fs s) = Inr allowed \<longrightarrow>
        allowed = decide_role (roles_held p (assignments s) \<union> {AUTHENTICATED_USER}) minimum)
   \<and> (\<forall>rows warning. fst (run_request (list_assignments p) cfg fs s) = Inr (rows, warning) \<longrightarrow>
        (\<exists>a \<in> set (assignments s). holder a = p \<and> held_role a \<in> {SYSTEM_ADMIN, SYSTEM_OWNER})
        \<and> mset rows = mset (assignments s) \<and> sorted (map (listing_key cfg) rows)
        \<and> warning = (owner_count (assignments s) = 1))"
proof -
  have reads: "read_only (list_assignments p)" "read_only (list_audit_events cfg p fl cursor n)"
    by (auto simp: list_assignments_def list_audit_events_def intro!: read_only_and_then read_only_admin split: sum.split)
  have "(\<exists>a \<in> set (assignments s). holder a = p \<and> held_role a \<in> {SYSTEM_ADMIN, SYSTEM_OWNER})
      \<and> mset rows = mset (assignments s) \<and> sorted (map (listing_key cfg) rows)
      \<and> warning = (owner_count (assignments s) = 1)"
    if "fst (run_request (list_assignments p) cfg fs s) = Inr (rows, warning)" for rows warning
    using list_assignments_result[OF that]
    by (auto simp: all_assignments_def decide_role_def system_admin_or_above_def roles_held_def)
  with reads read_only_check check_role_result show ?thesis unfolding read_only_def by blast
qed

definition sample_unfiltered :: audit_filters where
  "sample_unfiltered = \<lparr>f_actor_subject = None, f_actor_issuer = None, f_resource_type = None, f_resource_id = None,
     f_action = None, f_occurred_from = None, f_occurred_to = None, f_details = None\<rparr>"

theorem reads_change_nothing_witness:
  "\<exists>rows. fst (run_request (list_assignments (''ada'', ''idp'')) sample_access_config [] (fst seated_owners)) = Inr (rows, False)
     \<and> mset rows = mset (assignments (fst seated_owners)) \<and> sorted (map (listing_key sample_access_config) rows)
     \<and> length rows = 4"
proof -
  have "(case fst (run_request (list_assignments (''ada'', ''idp'')) sample_access_config [] (fst seated_owners)) of
      Inr (rows, warning) \<Rightarrow> \<not> warning \<and> length rows = 4 | Inl e \<Rightarrow> False)" by code_simp
  then obtain rows where rows: "length rows = 4"
    "fst (run_request (list_assignments (''ada'', ''idp'')) sample_access_config [] (fst seated_owners)) = Inr (rows, False)"
    by (auto split: sum.splits)
  with reads_change_nothing[of "(''ada'', ''idp'')" SYSTEM_ADMIN sample_access_config "[]" "fst seated_owners"
      sample_unfiltered First_page 1]
  show ?thesis by blast
qed

text \<open>C26. Granting and revoking.
  An owner grants a role to somebody else who does not hold it and then revokes it, with every store call
  answered: both succeed, the table is what it was, and the trail has exactly the two applied rows more.
  The reported warning says whether a single owner was left.\<close>

theorem grant_then_revoke:
  assumes "SYSTEM_OWNER \<in> roles_held a (assignments s)" "a \<noteq> (ts, iss)" "r \<noteq> AUTHENTICATED_USER"
    "r \<notin> roles_held (ts, iss) (assignments s)"
  shows "run_request (and_then (grant_role a ts (role_value r) iss) (\<lambda>w.
           and_then (revoke_role a ts (role_value r) iss) (\<lambda>w'. Done (Inr (w, w'))))) cfg [] s
    = (Inr (owner_count (assignments s) = 1 \<and> r \<noteq> SYSTEM_OWNER, owner_count (assignments s) = 1),
       s\<lparr>audit_trail := audit_trail s @ [grant_event a (ts, iss) r, revoke_event a (ts, iss) r]\<rparr>)"
proof -
  let ?row = "\<lparr>holder = (ts, iss), held_role = r, granted_by = a\<rparr>"
  have fresh: "\<forall>b \<in> set (assignments s). \<not> (holder b = (ts, iss) \<and> held_role b = r)"
    using assms(4) by (auto simp: roles_held_def)
  then have ins: "insert_assignment ?row (assignments s) = assignments s @ [?row]"
    by (auto simp: insert_assignment_def)
  have del: "delete_assignment (ts, iss) r (assignments s @ [?row]) = assignments s"
    using fresh by (auto simp: delete_assignment_def intro!: filter_True)
  have held: "roles_held a (assignments s @ [?row]) = roles_held a (assignments s)"
    using assms(2) by (auto simp: roles_held_def)
  have owners: "owner_count (assignments s @ [?row]) = owner_count (assignments s) + (if r = SYSTEM_OWNER then 1 else 0)"
    by (simp add: owner_count_def)
  have some: "1 \<le> owner_count (assignments s)"
  proof -
    obtain b where b: "b \<in> set (assignments s)" "held_role b = SYSTEM_OWNER" using assms(1) by (auto simp: roles_held_def)
    then have "filter (\<lambda>b. held_role b = SYSTEM_OWNER) (assignments s) \<noteq> []" by (auto simp: filter_empty_conv)
    then show ?thesis by (simp add: owner_count_def Suc_le_eq)
  qed
  have roles: "roles_held a (assignments s) \<noteq> {}" using assms(1) by auto
  obtain g v where rbac: "grant_rbac r = Some g" "SYSTEM_OWNER \<in> g" "revoke_rbac r = Some v" "SYSTEM_OWNER \<in> v"
    using assms(3) by (cases r) auto
  have meets: "roles_held a (assignments s) \<inter> g \<noteq> {}" "roles_held a (assignments s) \<inter> v \<noteq> {}"
    using assms(1) rbac by auto
  show ?thesis
    using assms(1-3) rbac meets roles some owners ins del held
    by (cases "r = SYSTEM_OWNER") (simp_all add: grant_role_def revoke_role_def parse_grantable_access_role_def resolve_active_roles_def and_then_def
        or_unavailable_def transact_def next_fate_def read_body_def grant_body_eq revoke_body_eq revoke_and_count_def
        add_grant_def drop_role_def Let_def block_self_target_def enforce_system_owner_floor_def
        del: role_value.simps grant_rbac.simps revoke_rbac.simps)
qed

theorem grant_then_revoke_witness:
  "run_request (and_then (grant_role (''ada'', ''idp'') ''dan'' (role_value POLICY_MANAGER) ''idp'') (\<lambda>w.
       and_then (revoke_role (''ada'', ''idp'') ''dan'' (role_value POLICY_MANAGER) ''idp'') (\<lambda>w'. Done (Inr (w, w')))))
     sample_access_config [] (fst seated_owners)
   = (Inr (False, False), (fst seated_owners)\<lparr>audit_trail := audit_trail (fst seated_owners)
        @ [grant_event (''ada'', ''idp'') (''dan'', ''idp'') POLICY_MANAGER,
           revoke_event (''ada'', ''idp'') (''dan'', ''idp'') POLICY_MANAGER]\<rparr>)"
proof -
  have "SYSTEM_OWNER \<in> roles_held (''ada'', ''idp'') (assignments (fst seated_owners))" by code_simp
  moreover have "POLICY_MANAGER \<notin> roles_held (''dan'', ''idp'') (assignments (fst seated_owners))" by code_simp
  moreover have "owner_count (assignments (fst seated_owners)) = 2" by code_simp
  ultimately show ?thesis
    using grant_then_revoke[of "(''ada'', ''idp'')" "fst seated_owners" "''dan''" "''idp''" POLICY_MANAGER sample_access_config]
    by (simp del: role_value.simps)
qed

end
