(* ===== verification/Identity.thy ===== *)
theory Identity
  imports Models
begin

text \<open>
  Content-derived node ids (\<^verbatim>\<open>domain_mapper/identity.py\<close>): the slug of a name, and the first six hex
  digits of the SHA-1 digest of its UTF-8 text.  Text is code points below 256, so its UTF-8 form has
  one or two bytes a character, and \<^verbatim>\<open>str.lower\<close> moves the Latin capitals by 32.
\<close>

section \<open>Slugs\<close>

definition lower_char :: "char \<Rightarrow> char" where
  "lower_char c =
     (let n = of_char c :: nat
      in if (65 \<le> n \<and> n \<le> 90) \<or> (192 \<le> n \<and> n \<le> 222 \<and> n \<noteq> 215) then char_of (n + 32) else c)"

definition py_lower :: "string \<Rightarrow> string" where
  "py_lower s = map lower_char s"

definition slug_char :: "char \<Rightarrow> bool" where
  "slug_char c \<longleftrightarrow> (let n = of_char c :: nat in (97 \<le> n \<and> n \<le> 122) \<or> (48 \<le> n \<and> n \<le> 57))"

definition underscore :: char where
  "underscore = CHR ''_''"

text \<open>\<open>re.sub(pattern, '_', text)\<close> for a pattern that matches maximal runs of the characters of a class.\<close>

fun sub_runs :: "(char \<Rightarrow> bool) \<Rightarrow> bool \<Rightarrow> string \<Rightarrow> string" where
  "sub_runs cls inside [] = []"
| "sub_runs cls inside (c # cs) =
     (if cls c then (if inside then sub_runs cls True cs else underscore # sub_runs cls True cs)
      else c # sub_runs cls False cs)"

definition py_strip_char :: "char \<Rightarrow> string \<Rightarrow> string" where
  "py_strip_char c s = rev (dropWhile ((=) c) (rev (dropWhile ((=) c) s)))"

definition slug :: "string \<Rightarrow> string" where
  "slug text = sub_runs ((=) underscore) False
     (py_strip_char underscore (sub_runs (\<lambda>c. \<not> slug_char c) False (py_lower text)))"

section \<open>SHA-1\<close>

fun utf8 :: "string \<Rightarrow> int list" where
  "utf8 [] = []"
| "utf8 (c # cs) =
     (let n = of_char c in if n < 128 then n # utf8 cs else (192 + n div 64) # (128 + n mod 64) # utf8 cs)"

fun be_digits :: "int \<Rightarrow> nat \<Rightarrow> int \<Rightarrow> int list" where
  "be_digits base 0 n = []"
| "be_digits base (Suc k) n = be_digits base k (n div base) @ [n mod base]"

definition sha1_padded :: "int list \<Rightarrow> int list" where
  "sha1_padded bs =
     bs @ 128 # replicate ((119 - length bs mod 64) mod 64) 0 @ be_digits 256 8 (8 * int (length bs))"

fun be_words :: "int list \<Rightarrow> 32 word list" where
  "be_words (a # b # c # d # rest) = word_of_int (((a * 256 + b) * 256 + c) * 256 + d) # be_words rest"
| "be_words _ = []"

definition rol :: "nat \<Rightarrow> 32 word \<Rightarrow> 32 word" where
  "rol k w = push_bit k w OR drop_bit (32 - k) w"

text \<open>The message schedule, kept with its latest word first.\<close>

fun sha1_schedule :: "nat \<Rightarrow> 32 word list \<Rightarrow> 32 word list" where
  "sha1_schedule 0 ws = ws"
| "sha1_schedule (Suc n) ws =
     sha1_schedule n (rol 1 (ws ! 2 XOR ws ! 7 XOR ws ! 13 XOR ws ! 15) # ws)"

type_synonym sha1_state = "32 word \<times> 32 word \<times> 32 word \<times> 32 word \<times> 32 word"

definition sha1_mix :: "nat \<Rightarrow> 32 word \<Rightarrow> 32 word \<Rightarrow> 32 word \<Rightarrow> 32 word \<times> 32 word" where
  "sha1_mix t b c d =
     (if t < 20 then ((b AND c) OR (NOT b AND d), 0x5A827999)
      else if t < 40 then (b XOR c XOR d, 0x6ED9EBA1)
      else if t < 60 then ((b AND c) OR (b AND d) OR (c AND d), 0x8F1BBCDC)
      else (b XOR c XOR d, 0xCA62C1D6))"

fun sha1_rounds :: "nat \<Rightarrow> 32 word list \<Rightarrow> sha1_state \<Rightarrow> sha1_state" where
  "sha1_rounds t [] s = s"
| "sha1_rounds t (w # ws) (a, b, c, d, e) =
     (case sha1_mix t b c d of (f, k) \<Rightarrow> sha1_rounds (Suc t) ws (rol 5 a + f + e + k + w, a, rol 30 b, c, d))"

definition sha1_block :: "int list \<Rightarrow> sha1_state \<Rightarrow> sha1_state" where
  "sha1_block block s =
     (case (s, sha1_rounds 0 (rev (sha1_schedule 64 (rev (be_words block)))) s) of
        ((a, b, c, d, e), (a', b', c', d', e')) \<Rightarrow> (a + a', b + b', c + c', d + d', e + e'))"

definition sha1_start :: sha1_state where
  "sha1_start = (0x67452301, 0xEFCDAB89, 0x98BADCFE, 0x10325476, 0xC3D2E1F0)"

definition sha1 :: "int list \<Rightarrow> sha1_state" where
  "sha1 bs = fold sha1_block (chunks_of 64 (sha1_padded bs)) sha1_start"

definition hex_digits :: "nat \<Rightarrow> int \<Rightarrow> string" where
  "hex_digits k n = map (\<lambda>d. ''0123456789abcdef'' ! nat d) (be_digits 16 k n)"

text \<open>The first six of the forty digits are the high ones of the first word.\<close>

definition id_hash :: "string \<Rightarrow> string" where
  "id_hash text = (case sha1 (utf8 text) of (a, _) \<Rightarrow> take 6 (hex_digits 8 (uint a)))"

section \<open>Ids\<close>

definition named_id :: "string \<Rightarrow> string \<Rightarrow> string \<Rightarrow> string" where
  "named_id prefix name hashed = prefix @ ''_'' @ slug name @ ''_'' @ id_hash hashed"

definition role_id :: "string \<Rightarrow> string \<Rightarrow> string" where
  "role_id name instrument = named_id ''role'' name (instrument @ '':'' @ py_lower name)"

definition requirement_id :: "string \<Rightarrow> string \<Rightarrow> string \<Rightarrow> string option \<Rightarrow> string" where
  "requirement_id instrument article paragraph letter =
     instrument @ ''_req_art_'' @ article @ ''.'' @ paragraph @ (case letter of None \<Rightarrow> [] | Some l \<Rightarrow> l)"

definition obligation_id :: "string \<Rightarrow> string \<Rightarrow> string" where
  "obligation_id role_node text = named_id ''obl'' text (role_node @ '':'' @ py_lower text)"

definition capability_id :: "string \<Rightarrow> string" where
  "capability_id name = named_id ''cap'' name (py_lower name)"

definition policy_id :: "string \<Rightarrow> string option \<Rightarrow> string" where
  "policy_id title prior =
     named_id ''pol'' title (case prior of None \<Rightarrow> py_lower title | Some p \<Rightarrow> p @ '':'' @ py_lower title)"

definition practice_area_id :: "string \<Rightarrow> string" where
  "practice_area_id name = named_id ''pa'' name (py_lower name)"

definition standard_id :: "string \<Rightarrow> string \<Rightarrow> string" where
  "standard_id policy_node title = named_id ''std'' title (policy_node @ '':'' @ py_lower title)"

definition control_id :: "string \<Rightarrow> string \<Rightarrow> string" where
  "control_id standard_node title = named_id ''ctrl'' title (standard_node @ '':'' @ py_lower title)"

definition risk_path_id :: "string \<Rightarrow> string" where
  "risk_path_id name = named_id ''rp'' name (py_lower name)"

section \<open>The shape of ids\<close>

definition single_underscores :: "string \<Rightarrow> bool" where
  "single_underscores s \<longleftrightarrow> successively (\<lambda>c d. c \<noteq> underscore \<or> d \<noteq> underscore) s"

definition plain_slug :: "string \<Rightarrow> bool" where
  "plain_slug s \<longleftrightarrow> (\<forall>c \<in> set s. slug_char c \<or> c = underscore) \<and> single_underscores s
     \<and> (s \<noteq> [] \<longrightarrow> hd s \<noteq> underscore \<and> last s \<noteq> underscore)"

lemma underscore_not_slug [simp]: "\<not> slug_char underscore"
  by (simp add: slug_char_def underscore_def)

lemma single_Nil [simp]: "single_underscores []"
  by (simp add: single_underscores_def)

lemma single_Cons [simp]:
  "single_underscores (c # cs) \<longleftrightarrow> (cs = [] \<or> c \<noteq> underscore \<or> hd cs \<noteq> underscore) \<and> single_underscores cs"
  by (cases cs) (auto simp: single_underscores_def)

lemma sub_runs_single:
  "single_underscores (sub_runs (\<lambda>c. \<not> slug_char c) inside s)
   \<and> (inside \<longrightarrow> s \<noteq> [] \<longrightarrow> sub_runs (\<lambda>c. \<not> slug_char c) inside s \<noteq> [] \<longrightarrow>
        hd (sub_runs (\<lambda>c. \<not> slug_char c) inside s) \<noteq> underscore)"
proof (induction s arbitrary: inside)
  case (Cons c cs)
  have t: "single_underscores (underscore # sub_runs (\<lambda>c. \<not> slug_char c) True cs)"
    using Cons[of True] by (cases "sub_runs (\<lambda>c. \<not> slug_char c) True cs"; cases cs) auto
  have f: "single_underscores (c # sub_runs (\<lambda>c. \<not> slug_char c) False cs)" if "c \<noteq> underscore"
    using Cons[of False] that by (cases "sub_runs (\<lambda>c. \<not> slug_char c) False cs") auto
  show ?case
  proof (cases "slug_char c")
    case True
    then have "c \<noteq> underscore" by auto
    with True f show ?thesis by simp
  next
    case False
    with t Cons[of True] show ?thesis by (cases cs) auto
  qed
qed simp

lemma single_dropWhile: "single_underscores s \<Longrightarrow> single_underscores (dropWhile P s)"
  by (induction s) auto

lemma single_rev: "single_underscores (rev s) = single_underscores s"
  unfolding single_underscores_def successively_rev by (rule arg_cong2[where f = successively]) auto

lemma sub_runs_alike:
  "single_underscores s \<Longrightarrow> (inside \<Longrightarrow> s = [] \<or> hd s \<noteq> underscore) \<Longrightarrow> sub_runs ((=) underscore) inside s = s"
proof (induction s arbitrary: inside)
  case (Cons c cs)
  then have cs: "single_underscores cs" by auto
  show ?case
  proof (cases "c = underscore")
    case True
    with Cons.prems have "cs = [] \<or> hd cs \<noteq> underscore" "\<not> inside" by (cases cs; auto)+
    with True Cons.IH[OF cs] show ?thesis by simp
  qed (use Cons.IH[OF cs, of False] in auto)
qed simp

lemma set_sub_runs: "c \<in> set (sub_runs (\<lambda>c. \<not> slug_char c) inside s) \<Longrightarrow> slug_char c \<or> c = underscore"
  by (induction s arbitrary: inside) (auto split: if_splits)

lemma single_strip: "single_underscores s \<Longrightarrow> single_underscores (py_strip_char underscore s)"
  by (simp add: py_strip_char_def single_rev single_dropWhile)

lemma strip_ends:
  assumes "py_strip_char underscore s \<noteq> []"
  shows "hd (py_strip_char underscore s) \<noteq> underscore \<and> last (py_strip_char underscore s) \<noteq> underscore"
proof -
  define t where "t = dropWhile ((=) underscore) s"
  have tail: "dropWhile ((=) underscore) (rev t) \<noteq> []" using assms by (simp add: py_strip_char_def t_def)
  then have "hd (dropWhile ((=) underscore) (rev t)) \<noteq> underscore" using hd_dropWhile[of "(=) underscore" "rev t"] by auto
  then have "last (py_strip_char underscore s) \<noteq> underscore"
    using tail by (simp add: py_strip_char_def last_rev flip: t_def)
  moreover obtain u where u: "t = py_strip_char underscore s @ u"
    using takeWhile_dropWhile_id[of "(=) underscore" "rev t"]
    by (metis py_strip_char_def rev_append rev_rev_ident t_def)
  then have "hd (py_strip_char underscore s) = hd t" using assms by simp
  moreover have "t \<noteq> []" using u assms by auto
  then have "hd t \<noteq> underscore" unfolding t_def using hd_dropWhile[of "(=) underscore" s] by auto
  ultimately show ?thesis by simp
qed

lemma slug_eq: "slug text = py_strip_char underscore (sub_runs (\<lambda>c. \<not> slug_char c) False (py_lower text))"
proof -
  have "single_underscores (sub_runs (\<lambda>c. \<not> slug_char c) False (py_lower text))" using sub_runs_single by blast
  from single_strip[OF this] show ?thesis by (simp add: slug_def sub_runs_alike)
qed

lemma lower_lower [simp]: "lower_char (lower_char c) = lower_char c"
  using nat_of_char_less_256 [of c] by (auto simp: lower_char_def Let_def)

lemma py_lower_twice [simp]: "py_lower (py_lower s) = py_lower s"
  by (simp add: py_lower_def)

lemma length_be_digits [simp]: "length (be_digits base k n) = k"
  by (induction k arbitrary: n) auto

lemma length_id_hash [simp]: "length (id_hash t) = 6"
  by (simp add: id_hash_def hex_digits_def split: prod.splits)

lemma set_be_digits: "0 < base \<Longrightarrow> d \<in> set (be_digits base k n) \<Longrightarrow> 0 \<le> d \<and> d < base"
  by (induction k arbitrary: n) auto

lemma hex_digit_member: "0 \<le> d \<Longrightarrow> d < 16 \<Longrightarrow> ''0123456789abcdef'' ! nat d \<in> set ''0123456789abcdef''"
  by (rule nth_mem) (simp add: nat_less_iff)

lemma hex_id_hash: "c \<in> set (id_hash t) \<Longrightarrow> c \<in> set ''0123456789abcdef''"
  unfolding id_hash_def hex_digits_def
  by (auto split: prod.splits dest!: in_set_takeD set_be_digits[rotated] simp del: list.set intro!: hex_digit_member)

lemma plain_slug_slug: "plain_slug (slug text)"
  unfolding plain_slug_def
proof (intro conjI impI ballI)
  show "single_underscores (slug text)"
    unfolding slug_eq by (rule single_strip) (use sub_runs_single in blast)
  show "slug_char c \<or> c = underscore" if "c \<in> set (slug text)" for c
    using that set_sub_runs[of c False "py_lower text"]
    by (auto simp: slug_eq py_strip_char_def dest!: set_dropWhileD)
qed (use strip_ends in \<open>auto simp: slug_eq\<close>)


end
