(* ===== verification/Policy_World.thy ===== *)
theory Policy_World
  imports Gateway Access_Service Identity
begin

text \<open>
  The world of the policy lifecycle (\<^verbatim>\<open>ps_service/policy_lifecycle\<close>): the graph gateway with its graphs, and the
  access roles with the audit trail.  A lifecycle request is a resumption, like a request of the
  access-role service: what it does next is one call, a read of the policy graph, an operation of the
  gateway, one audit row, a look at the caller's roles, and how it goes on depends on the answer.

  An audit row's id, which the row's graph write is linked to, is generated by the database.
\<close>

section \<open>Errors\<close>

datatype lifecycle_error =
    PolicyNotFoundError
  | PolicyDraftAccessDeniedError
  | PolicyTitleAlreadyExistsError string
  | PolicyStandardNotFoundError
  | PolicyControlNotFoundError
  | PolicyIncompleteForProposalError
  | PolicyInvalidStatusTransitionError string pyval string
  | PolicySelfApprovalBlockedError
  | PolicySupersedePriorNotApprovedError pyval
  | PolicyCapabilityNotFoundError "string list"
  | PolicyCapabilityAlreadyGovernedError "string list"
  | PolicyGovernanceConflictError
  | PolicyLifecycleGraphUnavailableError
  | StaleGroupError
  | Audit_refused audit_error
  | Roles_refused access_error
  | Invalid_value
  | Raised raised

text \<open>\<open>Invalid_value\<close>: a \<^verbatim>\<open>ValueError\<close>, \<^verbatim>\<open>TypeError\<close> or \<^verbatim>\<open>ValidationError\<close> that nothing catches.\<close>

fun redis_error :: "lifecycle_error \<Rightarrow> bool" where
  "redis_error (Raised e) \<longleftrightarrow> e = RedisTransient \<or> e = RedisRefused"
| "redis_error _ \<longleftrightarrow> False"

section \<open>Requests\<close>

datatype 'r policy_request =
    Ended 'r
  | Ask_graph "(raised, graph) result \<Rightarrow> 'r policy_request"
  | Ask_submit mutation_group "(raised, group_outcome) result \<Rightarrow> 'r policy_request"
  | Ask_caught_up "(raised, bool) result \<Rightarrow> 'r policy_request"
  | Ask_stamp "string option" "(raised, backfill_outcome) result \<Rightarrow> 'r policy_request"
  | Ask_position "(raised, nat) result \<Rightarrow> 'r policy_request"
  | Ask_audit_row audit_event "(audit_error, string) result \<Rightarrow> 'r policy_request"
  | Ask_active_roles principal "(access_error, access_role set) result \<Rightarrow> 'r policy_request"
  | Ask_manager role_gate principal "principal option" "(access_error, unit) result \<Rightarrow> 'r policy_request"

type_synonym 'a lifecycle = "(lifecycle_error + 'a) policy_request"

primrec bind_policy :: "'a policy_request \<Rightarrow> ('a \<Rightarrow> 'b policy_request) \<Rightarrow> 'b policy_request" where
  "bind_policy (Ended x) f = f x"
| "bind_policy (Ask_graph k) f = Ask_graph (\<lambda>q. bind_policy (k q) f)"
| "bind_policy (Ask_submit grp k) f = Ask_submit grp (\<lambda>q. bind_policy (k q) f)"
| "bind_policy (Ask_caught_up k) f = Ask_caught_up (\<lambda>q. bind_policy (k q) f)"
| "bind_policy (Ask_stamp a k) f = Ask_stamp a (\<lambda>q. bind_policy (k q) f)"
| "bind_policy (Ask_position k) f = Ask_position (\<lambda>q. bind_policy (k q) f)"
| "bind_policy (Ask_audit_row ev k) f = Ask_audit_row ev (\<lambda>q. bind_policy (k q) f)"
| "bind_policy (Ask_active_roles p k) f = Ask_active_roles p (\<lambda>q. bind_policy (k q) f)"
| "bind_policy (Ask_manager g p a k) f = Ask_manager g p a (\<lambda>q. bind_policy (k q) f)"

definition give :: "'a \<Rightarrow> 'a lifecycle" where
  "give x = Ended (Inr x)"

definition fail :: "lifecycle_error \<Rightarrow> 'a lifecycle" where
  "fail e = Ended (Inl e)"

definition next_do :: "'a lifecycle \<Rightarrow> ('a \<Rightarrow> 'b lifecycle) \<Rightarrow> 'b lifecycle" where
  "next_do m f = bind_policy m (\<lambda>r. case r of Inl e \<Rightarrow> fail e | Inr x \<Rightarrow> f x)"

text \<open>\<open>try: m except: handler\<close>, where \<open>handler\<close> answers \<open>None\<close> for an error it does not catch.\<close>

definition on_error :: "'a lifecycle \<Rightarrow> (lifecycle_error \<Rightarrow> 'a lifecycle option) \<Rightarrow> 'a lifecycle" where
  "on_error m handler =
     bind_policy m (\<lambda>r. case r of Inl e \<Rightarrow> (case handler e of None \<Rightarrow> fail e | Some h \<Rightarrow> h) | Inr x \<Rightarrow> give x)"

section \<open>The world\<close>

record governance =
  gv_world :: world
  gv_access :: access_state

record policy_env =
  pe_gateway :: gateway_env
  pe_graph :: string
  pe_config :: access_config
  pe_registry :: action_registry
  pe_event_id :: "nat \<Rightarrow> string"

text \<open>
  The gateway and the graph see the outcomes \<open>os\<close>, the database of roles and audit rows the fates \<open>fs\<close>.
\<close>

definition gateway_turn :: "outcome list \<Rightarrow> 'a op \<Rightarrow> governance \<Rightarrow> (raised, 'a) result \<times> governance" where
  "gateway_turn os m gv =
     (case m ((gv_world gv)\<lparr>w_faults := os\<rparr>) of (r, w) \<Rightarrow> (r, gv\<lparr>gv_world := w\<rparr>))"

definition audit_step ::
    "policy_env \<Rightarrow> fate \<Rightarrow> audit_event \<Rightarrow> governance \<Rightarrow> (audit_error, string) result \<times> governance" where
  "audit_step env f ev gv =
     (let t = audit_trail (gv_access gv); rid = pe_event_id env (length t) in
      case record_standalone (pe_registry env) f ev t of
        (r, t') \<Rightarrow>
          (map_sum id (\<lambda>_. rid) r,
           if t' = t then gv
           else gv\<lparr>gv_access := (gv_access gv)\<lparr>audit_trail := t'\<rparr>,
                   gv_world := (gv_world gv)\<lparr>w_log := (w_log (gv_world gv))\<lparr>ls_audit := rid # ls_audit (w_log (gv_world gv))\<rparr>\<rparr>\<rparr>))"

definition access_step_of ::
    "policy_env \<Rightarrow> fate list \<Rightarrow> 'a authz \<Rightarrow> governance \<Rightarrow> (access_error, 'a) result \<times> governance" where
  "access_step_of env fs q gv =
     (case run_request q (pe_config env) fs (gv_access gv) of (r, a) \<Rightarrow> (r, gv\<lparr>gv_access := a\<rparr>))"

fun serve_policy ::
    "policy_env \<Rightarrow> outcome list \<Rightarrow> fate list \<Rightarrow> 'r policy_request \<Rightarrow> governance \<Rightarrow> 'r policy_request \<times> governance" where
  "serve_policy env os fs (Ended x) gv = (Ended x, gv)"
| "serve_policy env os fs (Ask_graph k) gv =
     apfst k (gateway_turn os (graph_call (pe_graph env) (\<lambda>x. (x, x))) gv)"
| "serve_policy env os fs (Ask_submit grp k) gv = apfst k (gateway_turn os (submit_group (pe_gateway env) grp) gv)"
| "serve_policy env os fs (Ask_caught_up k) gv = apfst k (gateway_turn os (is_caught_up (pe_graph env)) gv)"
| "serve_policy env os fs (Ask_stamp a k) gv =
     apfst k (gateway_turn os (stamp_legacy_edge_identity (pe_gateway env) (pe_graph env) a) gv)"
| "serve_policy env os fs (Ask_position k) gv =
     apfst k (gateway_turn os (read_log_position (pe_gateway env) (pe_graph env)) gv)"
| "serve_policy env os fs (Ask_audit_row ev k) gv = apfst k (audit_step env (next_fate fs) ev gv)"
| "serve_policy env os fs (Ask_active_roles p k) gv = apfst k (access_step_of env fs (resolve_active_roles p) gv)"
| "serve_policy env os fs (Ask_manager g p a k) gv = apfst k (access_step_of env fs (enforce_role_gate g (Some p) a) gv)"

text \<open>A request run by itself, every call answered.\<close>

primrec run_policy :: "'r policy_request \<Rightarrow> policy_env \<Rightarrow> governance \<Rightarrow> 'r \<times> governance" where
  "run_policy (Ended x) = (\<lambda>env gv. (x, gv))"
| "run_policy (Ask_graph k) = (\<lambda>env gv.
     case gateway_turn [] (graph_call (pe_graph env) (\<lambda>x. (x, x))) gv of (q, gv') \<Rightarrow> run_policy (k q) env gv')"
| "run_policy (Ask_submit grp k) = (\<lambda>env gv.
     case gateway_turn [] (submit_group (pe_gateway env) grp) gv of (q, gv') \<Rightarrow> run_policy (k q) env gv')"
| "run_policy (Ask_caught_up k) = (\<lambda>env gv.
     case gateway_turn [] (is_caught_up (pe_graph env)) gv of (q, gv') \<Rightarrow> run_policy (k q) env gv')"
| "run_policy (Ask_stamp a k) = (\<lambda>env gv.
     case gateway_turn [] (stamp_legacy_edge_identity (pe_gateway env) (pe_graph env) a) gv of (q, gv') \<Rightarrow>
       run_policy (k q) env gv')"
| "run_policy (Ask_position k) = (\<lambda>env gv.
     case gateway_turn [] (read_log_position (pe_gateway env) (pe_graph env)) gv of (q, gv') \<Rightarrow> run_policy (k q) env gv')"
| "run_policy (Ask_audit_row ev k) = (\<lambda>env gv.
     case audit_step env Db_runs ev gv of (q, gv') \<Rightarrow> run_policy (k q) env gv')"
| "run_policy (Ask_active_roles p k) = (\<lambda>env gv.
     case access_step_of env [] (resolve_active_roles p) gv of (q, gv') \<Rightarrow> run_policy (k q) env gv')"
| "run_policy (Ask_manager g p a k) = (\<lambda>env gv.
     case access_step_of env [] (enforce_role_gate g (Some p) a) gv of (q, gv') \<Rightarrow> run_policy (k q) env gv')"

end
