(* ===== verification/Policy_Graph.thy ===== *)
theory Policy_Graph
  imports Policy_World
begin

text \<open>
  The reads and writes of the policy graph (\<^verbatim>\<open>policy_lifecycle/graph_writer.py\<close>, \<^verbatim>\<open>graph_submission.py\<close>,
  \<^verbatim>\<open>ingestion/graph_submission.py\<close>).  A read is one Cypher query, evaluated on the graph as it is when the
  query arrives; a property that is missing reads as \<^verbatim>\<open>null\<close> (\<^const>\<open>PNone\<close>), and nothing checks the
  type of what is read.  A write builds primitives through their field validation and submits one group.

  \<open>le_edges\<close> and \<open>le_props\<close>: the order FalkorDB reports edges, and the properties of a node, in.
  \<^verbatim>\<open>GraphWriteTarget.stamped\<close> is an argument, \<open>stamped\<close>, of the steps that read it.
\<close>

record lifecycle_env =
  le_edges :: "edge multiset \<Rightarrow> edge list"
  le_props :: "propmap \<Rightarrow> props"
  le_graph :: string

section \<open>Queries\<close>

definition node_property :: "graph \<Rightarrow> nodekey \<Rightarrow> string \<Rightarrow> pyval" where
  "node_property g n k =
     (case g_nodes g n of
        None \<Rightarrow> PNone
      | Some m \<Rightarrow> (case m k of None \<Rightarrow> PNone | Some v \<Rightarrow> v))"

definition node_exists :: "graph \<Rightarrow> nodekey \<Rightarrow> bool" where
  "node_exists g n \<longleftrightarrow> g_nodes g n \<noteq> None"

definition targets_of :: "lifecycle_env \<Rightarrow> graph \<Rightarrow> string \<Rightarrow> nodekey \<Rightarrow> string \<Rightarrow> string list" where
  "targets_of le g t s l =
     map (\<lambda>e. snd (e_target e))
       (filter (\<lambda>e. e_type e = t \<and> e_source e = s \<and> fst (e_target e) = l) (le_edges le (g_edges g)))"

definition sources_of :: "lifecycle_env \<Rightarrow> graph \<Rightarrow> string \<Rightarrow> string \<Rightarrow> nodekey \<Rightarrow> string list" where
  "sources_of le g t l d =
     map (\<lambda>e. snd (e_source e))
       (filter (\<lambda>e. e_type e = t \<and> fst (e_source e) = l \<and> e_target e = d) (le_edges le (g_edges g)))"

definition optional_match :: "'a list \<Rightarrow> 'a option list" where
  "optional_match xs = (if xs = [] then [None] else map Some xs)"

definition standards_of :: "lifecycle_env \<Rightarrow> graph \<Rightarrow> string \<Rightarrow> string list" where
  "standards_of le g p = targets_of le g ''SUPPORTED_BY'' (''Policy'', p) ''Standard''"

definition controls_of :: "lifecycle_env \<Rightarrow> graph \<Rightarrow> string \<Rightarrow> string list" where
  "controls_of le g s = targets_of le g ''IMPLEMENTED_BY'' (''Standard'', s) ''Control''"

text \<open>
  \<open>(p:Policy {id})\<close>, then \<open>OPTIONAL MATCH\<close> its Standards and their Controls: one row for each path.
\<close>

definition tree_rows :: "lifecycle_env \<Rightarrow> graph \<Rightarrow> string \<Rightarrow> (string option \<times> string option) list" where
  "tree_rows le g p =
     (if \<not> node_exists g (''Policy'', p) then []
      else concat (map (\<lambda>s. case s of
                          None \<Rightarrow> [(None, None)]
                        | Some sid \<Rightarrow> map (\<lambda>c. (Some sid, c)) (optional_match (controls_of le g sid)))
                    (optional_match (standards_of le g p))))"

subsection \<open>Policy trees\<close>

record control_record =
  ctl_id :: string
  ctl_title :: pyval
  ctl_status :: pyval
  ctl_type :: pyval

record standard_record =
  std_id :: string
  std_title :: pyval
  std_status :: pyval
  std_controls :: "control_record list"

record policy_record =
  pol_id :: string
  pol_title :: pyval
  pol_status :: pyval
  pol_version :: pyval
  pol_owner_subject :: pyval
  pol_owner_issuer :: pyval
  pol_standards :: "standard_record list"

definition control_of_row :: "graph \<Rightarrow> string \<Rightarrow> control_record" where
  "control_of_row g c =
     (let n = (''Control'', c) in
      \<lparr>ctl_id = c, ctl_title = node_property g n ''title'', ctl_status = node_property g n ''status'',
       ctl_type = node_property g n ''type''\<rparr>)"

definition new_standard :: "graph \<Rightarrow> string \<Rightarrow> standard_record" where
  "new_standard g s =
     (let n = (''Standard'', s) in
      \<lparr>std_id = s, std_title = node_property g n ''title'', std_status = node_property g n ''status'',
       std_controls = []\<rparr>)"

definition add_control :: "graph \<Rightarrow> string option \<Rightarrow> standard_record \<Rightarrow> standard_record" where
  "add_control g c a =
     (case c of None \<Rightarrow> a | Some cid \<Rightarrow> a\<lparr>std_controls := std_controls a @ [control_of_row g cid]\<rparr>)"

fun add_tree_row ::
    "graph \<Rightarrow> string option \<times> string option \<Rightarrow> (string, standard_record) dict \<Rightarrow> (string, standard_record) dict" where
  "add_tree_row g (None, c) d = d"
| "add_tree_row g (Some s, c) d =
     AList.update s (add_control g c (case map_of d s of None \<Rightarrow> new_standard g s | Some a \<Rightarrow> a)) d"

definition read_policy_tree :: "lifecycle_env \<Rightarrow> string \<Rightarrow> graph \<Rightarrow> policy_record option" where
  "read_policy_tree le p g =
     (case tree_rows le g p of
        [] \<Rightarrow> None
      | rows \<Rightarrow>
          let n = (''Policy'', p) in
          Some \<lparr>pol_id = p, pol_title = node_property g n ''title'', pol_status = node_property g n ''status'',
                pol_version = node_property g n ''version'',
                pol_owner_subject = node_property g n ''owner_subject'',
                pol_owner_issuer = node_property g n ''owner_issuer'',
                pol_standards = map snd (run_ops (add_tree_row g) rows [])\<rparr>)"

text \<open>The fork's read keeps every property, \<^verbatim>\<open>id\<close> included.\<close>

record forked_control =
  fc_title :: pyval
  fc_props :: props

record forked_standard =
  fs_title :: pyval
  fs_props :: props
  fs_controls :: "forked_control list"

definition all_properties :: "lifecycle_env \<Rightarrow> graph \<Rightarrow> nodekey \<Rightarrow> props" where
  "all_properties le g n =
     le_props le ((case g_nodes g n of None \<Rightarrow> Map.empty | Some m \<Rightarrow> m)(''id'' \<mapsto> PStr (snd n)))"

definition dict_get :: "props \<Rightarrow> string \<Rightarrow> pyval \<Rightarrow> pyval" where
  "dict_get d k dflt = (case map_of d k of None \<Rightarrow> dflt | Some v \<Rightarrow> v)"

definition fork_rows :: "lifecycle_env \<Rightarrow> graph \<Rightarrow> string \<Rightarrow> (string \<times> string option) list" where
  "fork_rows le g p =
     (if \<not> node_exists g (''Policy'', p) then []
      else concat (map (\<lambda>s. map (Pair s) (optional_match (controls_of le g s))) (standards_of le g p)))"

definition forked_control_of :: "lifecycle_env \<Rightarrow> graph \<Rightarrow> string \<Rightarrow> forked_control" where
  "forked_control_of le g c =
     (let ps = all_properties le g (''Control'', c) in
      \<lparr>fc_title = dict_get ps ''title'' (PStr []), fc_props = ps\<rparr>)"

definition new_forked_standard :: "lifecycle_env \<Rightarrow> graph \<Rightarrow> string \<Rightarrow> forked_standard" where
  "new_forked_standard le g s =
     (let ps = all_properties le g (''Standard'', s) in
      \<lparr>fs_title = dict_get ps ''title'' (PStr []), fs_props = ps, fs_controls = []\<rparr>)"

fun add_fork_row ::
    "lifecycle_env \<Rightarrow> graph \<Rightarrow> string \<times> string option \<Rightarrow> (string, forked_standard) dict \<Rightarrow> (string, forked_standard) dict" where
  "add_fork_row le g (s, c) d =
     (let a = (case map_of d s of None \<Rightarrow> new_forked_standard le g s | Some a \<Rightarrow> a) in
      AList.update s
        (case c of None \<Rightarrow> a | Some cid \<Rightarrow> a\<lparr>fs_controls := fs_controls a @ [forked_control_of le g cid]\<rparr>) d)"

definition read_policy_tree_for_fork :: "lifecycle_env \<Rightarrow> string \<Rightarrow> graph \<Rightarrow> forked_standard list" where
  "read_policy_tree_for_fork le p g = map snd (run_ops (add_fork_row le g) (fork_rows le g p) [])"

subsection \<open>Governance\<close>

definition find_existing_policy :: "string \<Rightarrow> graph \<Rightarrow> (string \<times> pyval) option" where
  "find_existing_policy p g =
     (if node_exists g (''Policy'', p) then Some (p, node_property g (''Policy'', p) ''title'') else None)"

definition find_approved_prior :: "lifecycle_env \<Rightarrow> string \<Rightarrow> graph \<Rightarrow> string option" where
  "find_approved_prior le successor g =
     (case filter (\<lambda>q. node_property g (''Policy'', q) ''status'' = PStr ''approved'')
             (sources_of le g ''SUPERSEDED_BY'' ''Policy'' (''Policy'', successor)) of
        [] \<Rightarrow> None
      | q # _ \<Rightarrow> Some q)"

record fork_governance =
  fg_prior :: string
  fg_capabilities :: "string list"

text \<open>\<open>RETURN prior.id, collect(cap.id) LIMIT 1\<close>: the rows of the first prior, without the nulls.\<close>

definition governance_rows :: "lifecycle_env \<Rightarrow> graph \<Rightarrow> string \<Rightarrow> (string \<times> string option) list" where
  "governance_rows le g p =
     concat (map (\<lambda>q. map (Pair q)
                       (optional_match (sources_of le g ''GOVERNED_BY'' ''Capability'' (''Policy'', q))))
              (sources_of le g ''SUPERSEDED_BY'' ''Policy'' (''Policy'', p)))"

definition read_fork_governance :: "lifecycle_env \<Rightarrow> string \<Rightarrow> graph \<Rightarrow> fork_governance option" where
  "read_fork_governance le p g =
     (case governance_rows le g p of
        [] \<Rightarrow> None
      | (q, _) # _ \<Rightarrow>
          Some \<lparr>fg_prior = q,
                fg_capabilities = concat (map (\<lambda>(q', c). case c of
                    Some cid \<Rightarrow> (if q' = q then [cid] else []) | None \<Rightarrow> []) (governance_rows le g p))\<rparr>)"

fun note_governor :: "string \<times> string option \<Rightarrow> (string, string option) dict \<Rightarrow> (string, string option) dict" where
  "note_governor (c, gov) d =
     (case map_of d c of Some (Some x) \<Rightarrow> d | _ \<Rightarrow> AList.update c gov d)"

definition governor_rows :: "lifecycle_env \<Rightarrow> graph \<Rightarrow> string list \<Rightarrow> (string \<times> string option) list" where
  "governor_rows le g caps =
     concat (map (\<lambda>c. map (Pair c) (optional_match (targets_of le g ''GOVERNED_BY'' (''Capability'', c) ''Policy'')))
              (filter (\<lambda>c. node_exists g (''Capability'', c)) (remdups caps)))"

definition read_capability_governors ::
    "lifecycle_env \<Rightarrow> string list \<Rightarrow> graph \<Rightarrow> (string, string option) dict" where
  "read_capability_governors le caps g = run_ops note_governor (governor_rows le g caps) []"

subsection \<open>Parents\<close>

record standard_with_parent =
  sp_policy :: string
  sp_owner_subject :: pyval
  sp_owner_issuer :: pyval
  sp_policy_status :: pyval
  sp_status :: pyval
  sp_title :: pyval

definition find_standard_with_parent :: "lifecycle_env \<Rightarrow> string \<Rightarrow> graph \<Rightarrow> standard_with_parent option" where
  "find_standard_with_parent le s g =
     (case sources_of le g ''SUPPORTED_BY'' ''Policy'' (''Standard'', s) of
        [] \<Rightarrow> None
      | p # _ \<Rightarrow>
          let n = (''Policy'', p); m = (''Standard'', s) in
          Some \<lparr>sp_policy = p, sp_owner_subject = node_property g n ''owner_subject'',
                sp_owner_issuer = node_property g n ''owner_issuer'',
                sp_policy_status = node_property g n ''status'',
                sp_status = node_property g m ''status'', sp_title = node_property g m ''title''\<rparr>)"

record control_with_parent =
  cp_standard :: string
  cp_policy :: string
  cp_owner_subject :: pyval
  cp_owner_issuer :: pyval
  cp_policy_status :: pyval
  cp_status :: pyval
  cp_title :: pyval

definition find_control_with_parent :: "lifecycle_env \<Rightarrow> string \<Rightarrow> graph \<Rightarrow> control_with_parent option" where
  "find_control_with_parent le c g =
     (case concat (map (\<lambda>s. map (Pair s) (sources_of le g ''SUPPORTED_BY'' ''Policy'' (''Standard'', s)))
             (sources_of le g ''IMPLEMENTED_BY'' ''Standard'' (''Control'', c))) of
        [] \<Rightarrow> None
      | (s, p) # _ \<Rightarrow>
          let n = (''Policy'', p); m = (''Control'', c) in
          Some \<lparr>cp_standard = s, cp_policy = p, cp_owner_subject = node_property g n ''owner_subject'',
                cp_owner_issuer = node_property g n ''owner_issuer'',
                cp_policy_status = node_property g n ''status'',
                cp_status = node_property g m ''status'', cp_title = node_property g m ''title''\<rparr>)"

end
