(* ===== verification/Policy_Write.thy ===== *)
theory Policy_Write
  imports Policy_Graph
begin

text \<open>
  The writes of the policy graph (\<^verbatim>\<open>policy_lifecycle/graph_writer.py\<close>, \<^verbatim>\<open>graph_submission.py\<close>,
  \<^verbatim>\<open>ingestion/graph_submission.py\<close>): what a write submits, how a gateway failure is reported, and the two
  writes that guard against a concurrent change by the log position they expect.
\<close>

section \<open>Submitting a group\<close>

definition is_gateway_failure :: "raised \<Rightarrow> bool" where
  "is_gateway_failure e \<longleftrightarrow>
     is_apply_error e \<or>
     (case e of
        Gateway g \<Rightarrow> is_rejection g \<or> g \<in> {GraphUnavailableError, GraphLogPersistenceError, GraphLogPayloadError,
                       UnexpectedGraphReplyError, GraphLogUnavailableError}
      | _ \<Rightarrow> False)"

definition write_failed :: "raised \<Rightarrow> lifecycle_error" where
  "write_failed e = (if is_gateway_failure e then PolicyLifecycleGraphUnavailableError else Raised e)"

fun is_stale :: "raised \<Rightarrow> bool" where
  "is_stale (Gateway (StaleGraphStateError _ _ _)) = True"
| "is_stale _ = False"

text \<open>A query on the policy graph; \<^verbatim>\<open>_read_query\<close> lets a Redis error pass.\<close>

definition ask_graph :: "(graph \<Rightarrow> 'a) \<Rightarrow> 'a lifecycle" where
  "ask_graph query = Ask_graph (\<lambda>q. case q of Inl e \<Rightarrow> fail (Raised e) | Inr g \<Rightarrow> give (query g))"

definition require_caught_up :: "unit lifecycle" where
  "require_caught_up =
     Ask_caught_up (\<lambda>q. case q of
        Inl e \<Rightarrow> fail (write_failed e)
      | Inr caught_up \<Rightarrow> if caught_up then give () else fail PolicyLifecycleGraphUnavailableError)"

definition ensure_stamped :: "bool \<Rightarrow> string option \<Rightarrow> nat lifecycle" where
  "ensure_stamped stamped audit =
     (if stamped then give 0
      else next_do require_caught_up (\<lambda>_.
        Ask_stamp audit (\<lambda>q. case q of Inl e \<Rightarrow> fail (write_failed e) | Inr r \<Rightarrow> give (bo_stamped r))))"

definition lifecycle_log_position :: "nat lifecycle" where
  "lifecycle_log_position = Ask_position (\<lambda>q. case q of Inl e \<Rightarrow> fail (write_failed e) | Inr n \<Rightarrow> give n)"

text \<open>\<^verbatim>\<open>submit_or_raise\<close>, with its failure told apart by its cause.\<close>

definition submit_or_raise :: "mutation_group \<Rightarrow> unit lifecycle" where
  "submit_or_raise grp =
     Ask_submit grp (\<lambda>q. case q of
        Inl e \<Rightarrow> fail (if is_stale e then StaleGroupError else write_failed e)
      | Inr r \<Rightarrow> if go_status r = Committed_Apply_Pending then fail PolicyLifecycleGraphUnavailableError else give ())"

definition lifecycle_group ::
    "lifecycle_env \<Rightarrow> primitive list \<Rightarrow> string option \<Rightarrow> nat list \<Rightarrow> mutation_group" where
  "lifecycle_group le ps audit preconditions =
     \<lparr>mg_graph = le_graph le, mg_audit_event_id = audit, mg_primitives = ps,
      mg_preconditions = preconditions, mg_checkpoint_requested = False\<rparr>"

definition lifecycle_submit ::
    "lifecycle_env \<Rightarrow> bool \<Rightarrow> primitive list \<Rightarrow> string option \<Rightarrow> nat list \<Rightarrow> unit lifecycle" where
  "lifecycle_submit le stamped ps audit preconditions =
     (if ps = [] then give ()
      else if \<not> non_blank (le_graph le) then fail Invalid_value
      else next_do (ensure_stamped stamped audit) (\<lambda>_.
           next_do (submit_or_raise (lifecycle_group le ps audit preconditions)) (\<lambda>_.
             require_caught_up)))"

section \<open>Building primitives\<close>

definition edge_identity :: "string \<Rightarrow> string \<Rightarrow> string \<Rightarrow> string" where
  "edge_identity t s d = t @ '':'' @ s @ ''->'' @ d"

definition node_ref_of :: "string \<Rightarrow> string \<Rightarrow> node_ref" where
  "node_ref_of l i = \<lparr>ref_label = l, ref_id = i\<rparr>"

definition lifecycle_edge :: "string \<Rightarrow> node_ref \<Rightarrow> node_ref \<Rightarrow> primitive" where
  "lifecycle_edge t s d = UpsertEdge t (edge_identity t (ref_id s) (ref_id d)) s d []"

text \<open>
  A primitive whose field validation fails raises a \<^verbatim>\<open>ValidationError\<close>; inside
  \<^verbatim>\<open>refuse_unstorable_values\<close> it is the graph that refuses a value.
\<close>

definition validated :: "lifecycle_error \<Rightarrow> primitive list \<Rightarrow> primitive list lifecycle" where
  "validated e ps = (case those (map model_validate ps) of None \<Rightarrow> fail e | Some qs \<Rightarrow> give qs)"

abbreviation refuse_unstorable_values :: "primitive list \<Rightarrow> primitive list lifecycle" where
  "refuse_unstorable_values \<equiv> validated PolicyLifecycleGraphUnavailableError"

definition valid_node_ref :: "node_ref \<Rightarrow> unit lifecycle" where
  "valid_node_ref r = (if valid_ref r then give () else fail Invalid_value)"

text \<open>\<open>dict.fromkeys\<close>: the first of equal elements stays.\<close>

definition dict_fromkeys :: "'a list \<Rightarrow> 'a list" where
  "dict_fromkeys xs = rev (remdups (rev xs))"

definition status_merge :: "pyval \<Rightarrow> string \<times> string \<Rightarrow> primitive" where
  "status_merge status = (\<lambda>(l, i). MergeProperty l i [(''status'', status)])"

section \<open>Backfill and cascade\<close>

fun row_nodes :: "string option \<times> string option \<Rightarrow> nodekey list" where
  "row_nodes (s, c) =
     (case s of None \<Rightarrow> [] | Some sid \<Rightarrow> [(''Standard'', sid)])
     @ (case c of None \<Rightarrow> [] | Some cid \<Rightarrow> [(''Control'', cid)])"

definition backfill_primitives :: "lifecycle_env \<Rightarrow> string \<Rightarrow> graph \<Rightarrow> primitive list" where
  "backfill_primitives le p g =
     (let rows = tree_rows le g p;
          status = node_property g (''Policy'', p) ''status'';
          without_status = filter (\<lambda>n. node_property g n ''status'' = PNone) (concat (map row_nodes rows))
      in if rows = [] then []
         else (if node_property g (''Policy'', p) ''version'' = PNone
               then [MergeProperty ''Policy'' p [(''version'', PStr ''1'')]] else [])
              @ (if status = PNone then [] else map (status_merge status) (dict_fromkeys without_status)))"

definition backfill_governance_status :: "lifecycle_env \<Rightarrow> string \<Rightarrow> unit lifecycle" where
  "backfill_governance_status le p =
     next_do (ask_graph (backfill_primitives le p)) (\<lambda>ps.
     next_do (validated Invalid_value ps) (\<lambda>qs.
       lifecycle_submit le False qs None []))"

definition tree_nodes :: "policy_record \<Rightarrow> nodekey list" where
  "tree_nodes r =
     (''Policy'', pol_id r) # concat (map (\<lambda>s. (''Standard'', std_id s)
        # map (\<lambda>c. (''Control'', ctl_id c)) (std_controls s)) (pol_standards r))"

definition cascade_primitives :: "lifecycle_env \<Rightarrow> string \<Rightarrow> string \<Rightarrow> graph \<Rightarrow> primitive list" where
  "cascade_primitives le p target_status g =
     (case read_policy_tree le p g of
        None \<Rightarrow> []
      | Some r \<Rightarrow> map (status_merge (PStr target_status)) (dict_fromkeys (tree_nodes r)))"

definition read_cascade :: "lifecycle_env \<Rightarrow> string \<Rightarrow> string \<Rightarrow> primitive list lifecycle" where
  "read_cascade le p target_status =
     next_do (ask_graph (cascade_primitives le p target_status)) (validated Invalid_value)"

definition cascade_status :: "lifecycle_env \<Rightarrow> string \<Rightarrow> string \<Rightarrow> string \<Rightarrow> unit lifecycle" where
  "cascade_status le p target_status audit =
     next_do (read_cascade le p target_status) (\<lambda>ps. lifecycle_submit le False ps (Some audit) [])"

section \<open>The guarded repoint\<close>

definition unless_stale :: "unit lifecycle \<Rightarrow> bool lifecycle" where
  "unless_stale m =
     on_error (next_do m (\<lambda>_. give True)) (\<lambda>e. if e = StaleGroupError then Some (give False) else None)"

definition repoint_edges :: "string \<Rightarrow> string \<Rightarrow> string list \<Rightarrow> primitive list" where
  "repoint_edges p prior caps =
     map (\<lambda>c. DeleteEdge ''GOVERNED_BY'' (edge_identity ''GOVERNED_BY'' c prior)
                (node_ref_of ''Capability'' c) (node_ref_of ''Policy'' prior)) (dict_fromkeys caps)
     @ map (\<lambda>c. lifecycle_edge ''GOVERNED_BY'' (node_ref_of ''Capability'' c) (node_ref_of ''Policy'' p))
         (dict_fromkeys caps)"

definition still_governed_by :: "string \<Rightarrow> string list \<Rightarrow> fork_governance option \<Rightarrow> bool" where
  "still_governed_by prior caps gov \<longleftrightarrow>
     (case gov of
        None \<Rightarrow> False
      | Some f \<Rightarrow> fg_prior f = prior \<and> sort (fg_capabilities f) = sort caps)"

definition approve_fork_repoint ::
    "lifecycle_env \<Rightarrow> string \<Rightarrow> string \<Rightarrow> string list \<Rightarrow> string \<Rightarrow> string \<Rightarrow> bool lifecycle" where
  "approve_fork_repoint le p prior caps target_status audit =
     next_do require_caught_up (\<lambda>_.
     next_do lifecycle_log_position (\<lambda>expected.
     next_do (ask_graph (read_fork_governance le p)) (\<lambda>gov.
       if \<not> still_governed_by prior caps gov then give False
       else next_do (ensure_stamped False None) (\<lambda>stamped.
            next_do (validated Invalid_value (repoint_edges p prior caps)) (\<lambda>edges.
            next_do (read_cascade le p target_status) (\<lambda>cascade.
              unless_stale (lifecycle_submit le True (edges @ cascade) (Some audit) [expected + stamped])))))))"

section \<open>Drafts\<close>

record control_draft =
  cd_id :: string
  cd_title :: string
  cd_type :: pyval
  cd_extra :: props

record standard_draft =
  sd_id :: string
  sd_title :: string
  sd_controls :: "control_draft list"
  sd_extra :: props


definition child_primitives :: "node_ref \<Rightarrow> string \<Rightarrow> string \<Rightarrow> props \<Rightarrow> string \<Rightarrow> primitive list" where
  "child_primitives parent label i ps edge_type =
     [UpsertNode label i ps None, lifecycle_edge edge_type parent (node_ref_of label i)]"

definition control_properties :: "control_draft \<Rightarrow> props" where
  "control_properties c =
     AList.update ''status'' (PStr ''draft'') (AList.update ''type'' (cd_type c)
       (AList.update ''title'' (PStr (cd_title c)) (cd_extra c)))"

definition standard_properties :: "standard_draft \<Rightarrow> props" where
  "standard_properties s =
     AList.update ''status'' (PStr ''draft'') (AList.update ''title'' (PStr (sd_title s)) (sd_extra s))"

definition standard_primitives :: "node_ref \<Rightarrow> standard_draft \<Rightarrow> primitive list" where
  "standard_primitives policy s =
     child_primitives policy ''Standard'' (sd_id s) (standard_properties s) ''SUPPORTED_BY''
     @ concat (map (\<lambda>c. child_primitives (node_ref_of ''Standard'' (sd_id s)) ''Control'' (cd_id c)
                      (control_properties c) ''IMPLEMENTED_BY'') (sd_controls s))"

definition new_policy_primitives ::
    "string \<Rightarrow> string \<Rightarrow> principal \<Rightarrow> standard_draft list \<Rightarrow> string option \<Rightarrow> string \<Rightarrow> primitive list" where
  "new_policy_primitives p title owner standards supersedes version =
     UpsertNode ''Policy'' p
       [(''title'', PStr title), (''status'', PStr ''draft''), (''version'', PStr version),
        (''owner_subject'', PStr (fst owner)), (''owner_issuer'', PStr (snd owner))] None
     # (case supersedes of
          None \<Rightarrow> []
        | Some prior \<Rightarrow> [lifecycle_edge ''SUPERSEDED_BY'' (node_ref_of ''Policy'' prior) (node_ref_of ''Policy'' p)])
     @ concat (map (standard_primitives (node_ref_of ''Policy'' p)) standards)"

definition create_primitives ::
    "string \<Rightarrow> string \<Rightarrow> principal \<Rightarrow> standard_draft list \<Rightarrow> string option \<Rightarrow> string \<Rightarrow> primitive list lifecycle" where
  "create_primitives p title owner standards supersedes version =
     next_do (valid_node_ref (node_ref_of ''Policy'' p)) (\<lambda>_.
       refuse_unstorable_values (new_policy_primitives p title owner standards supersedes version))"

definition write_policy_draft ::
    "lifecycle_env \<Rightarrow> string \<Rightarrow> string \<Rightarrow> principal \<Rightarrow> standard_draft list \<Rightarrow> string option \<Rightarrow> string \<Rightarrow> string
     \<Rightarrow> unit lifecycle" where
  "write_policy_draft le p title owner standards supersedes version audit =
     next_do (create_primitives p title owner standards supersedes version) (\<lambda>ps.
       lifecycle_submit le False ps (Some audit) [])"

definition claimable :: "string list \<Rightarrow> (string, string option) dict \<Rightarrow> bool" where
  "claimable caps governors \<longleftrightarrow> list_all (\<lambda>c. map_of governors c = Some None) caps"

definition create_claimed_policy_draft ::
    "lifecycle_env \<Rightarrow> string \<Rightarrow> string \<Rightarrow> principal \<Rightarrow> standard_draft list \<Rightarrow> string list \<Rightarrow> string
     \<Rightarrow> bool lifecycle" where
  "create_claimed_policy_draft le p title owner standards caps audit =
     next_do require_caught_up (\<lambda>_.
     next_do lifecycle_log_position (\<lambda>expected.
     next_do (ask_graph (read_capability_governors le caps)) (\<lambda>governors.
       if \<not> claimable caps governors then give False
       else next_do (ensure_stamped False None) (\<lambda>stamped.
            next_do (create_primitives p title owner standards None ''1'') (\<lambda>ps.
            next_do (refuse_unstorable_values
                (map (\<lambda>c. lifecycle_edge ''GOVERNED_BY'' (node_ref_of ''Capability'' c) (node_ref_of ''Policy'' p)) caps))
                (\<lambda>claims.
              unless_stale (lifecycle_submit le True (ps @ claims) (Some audit) [expected + stamped])))))))"

section \<open>Editing a draft\<close>

definition patch_primitives :: "string \<Rightarrow> string \<Rightarrow> props \<Rightarrow> primitive list" where
  "patch_primitives label i patch =
     (let sets = filter (\<lambda>(k, v). v \<noteq> PNone) patch; nulls = map fst (filter (\<lambda>(k, v). v = PNone) patch)
      in (if sets = [] then [] else [MergeProperty label i sets])
         @ (if nulls = [] then [] else [RemoveProperty label i nulls]))"

definition update_fields :: "lifecycle_env \<Rightarrow> string \<Rightarrow> string \<Rightarrow> props \<Rightarrow> unit lifecycle" where
  "update_fields le label i patch =
     next_do (refuse_unstorable_values (patch_primitives label i patch)) (\<lambda>ps.
       lifecycle_submit le False ps None [])"

definition dict_setdefault :: "string \<Rightarrow> pyval \<Rightarrow> props \<Rightarrow> props" where
  "dict_setdefault k v d = (case map_of d k of None \<Rightarrow> d @ [(k, v)] | Some _ \<Rightarrow> d)"

definition supplied_properties :: "string \<Rightarrow> props \<Rightarrow> props" where
  "supplied_properties implementation extra =
     dict_setdefault ''implementation_status'' (PStr implementation) (filter (\<lambda>(k, v). v \<noteq> PNone) extra)"

definition add_child ::
    "lifecycle_env \<Rightarrow> node_ref \<Rightarrow> string \<Rightarrow> string \<Rightarrow> props \<Rightarrow> string \<Rightarrow> unit lifecycle" where
  "add_child le parent label i ps edge_type =
     next_do (valid_node_ref parent) (\<lambda>_.
     next_do (refuse_unstorable_values (child_primitives parent label i ps edge_type)) (\<lambda>qs.
       lifecycle_submit le False qs None []))"

definition add_standard_to_policy ::
    "lifecycle_env \<Rightarrow> string \<Rightarrow> string \<Rightarrow> string \<Rightarrow> props \<Rightarrow> unit lifecycle" where
  "add_standard_to_policy le p s title extra =
     add_child le (node_ref_of ''Policy'' p) ''Standard'' s
       (AList.update ''status'' (PStr ''draft'') (AList.update ''title'' (PStr title)
         (supplied_properties ''draft'' extra))) ''SUPPORTED_BY''"

definition add_control_to_standard ::
    "lifecycle_env \<Rightarrow> string \<Rightarrow> string \<Rightarrow> string \<Rightarrow> string \<Rightarrow> props \<Rightarrow> unit lifecycle" where
  "add_control_to_standard le s c title control_type extra =
     add_child le (node_ref_of ''Standard'' s) ''Control'' c
       (AList.update ''status'' (PStr ''draft'') (AList.update ''type'' (PStr control_type)
         (AList.update ''title'' (PStr title) (supplied_properties ''planned'' extra)))) ''IMPLEMENTED_BY''"

end
