(* ===== verification/Policy_Service.thy ===== *)
theory Policy_Service
  imports Policy_Write
begin

text \<open>
  The policy lifecycle service (\<^verbatim>\<open>policy_lifecycle/service.py\<close>, \<^verbatim>\<open>rules.py\<close>, \<^verbatim>\<open>audit_actions.py\<close>): creating a draft, fresh,
  claiming capabilities or superseding an approved policy; the four transitions of a policy's status,
  with their gates, audit rows and cascade over the policy's tree; and the edits of a draft.

  A policy's status, version, title and owner are read from the graph unchecked, so they are property
  values here; a details field that takes one of a few literals refuses any value that is no string.
\<close>

section \<open>Rules\<close>

record lifecycle_context =
  lc_actor :: principal
  lc_owner :: "pyval \<times> pyval"
  lc_action :: string
  lc_status :: pyval

definition required_status_by_action :: "(string \<times> string) list" where
  "required_status_by_action =
     [(''propose'', ''draft''), (''approve'', ''proposed''), (''reject'', ''proposed''),
      (''revert'', ''proposed''), (''edit'', ''draft'')]"

definition require_status :: "lifecycle_context \<Rightarrow> bool" where
  "require_status ctx =
     (case map_of required_status_by_action (lc_action ctx) of
        None \<Rightarrow> False
      | Some s \<Rightarrow> lc_status ctx = PStr s)"

definition as_values :: "principal \<Rightarrow> pyval \<times> pyval" where
  "as_values p = (PStr (fst p), PStr (snd p))"

definition require_owner :: "lifecycle_context \<Rightarrow> bool" where
  "require_owner ctx \<longleftrightarrow> as_values (lc_actor ctx) = lc_owner ctx"

definition block_self_approval :: "lifecycle_context \<Rightarrow> bool" where
  "block_self_approval ctx \<longleftrightarrow> as_values (lc_actor ctx) \<noteq> lc_owner ctx"

section \<open>Audit rows\<close>

definition create_draft_details :: details_model where
  "create_draft_details =
     [(''affected_node_ids'', Text_list, None),
      (''to_status'', One_of [''draft''], Some (Text ''draft'')),
      (''reason_code'', One_of [''title_already_exists'', ''capability_not_found'', ''capability_already_governed''],
         Some Unset),
      (''supersedes_policy_id'', Any_text, Some Unset),
      (''capability_ids'', Text_list, Some (Texts []))]"

definition transition_details :: details_model where
  "transition_details =
     [(''affected_node_ids'', Text_list, None),
      (''from_status'', One_of [''draft'', ''proposed'', ''approved''], None),
      (''to_status'', One_of [''draft'', ''proposed'', ''approved'', ''deprecated''], None),
      (''reason_code'', One_of [''access_denied'', ''self_approval_blocked'', ''invalid_status'',
         ''incomplete_for_proposal'', ''governance_conflict''], Some Unset),
      (''capability_ids'', Text_list, Some (Texts []))]"

definition lifecycle_registry :: action_registry where
  "lifecycle_registry =
     [(''policy.create_draft'', create_draft_details), (''policy.propose'', transition_details),
      (''policy.approve'', transition_details), (''policy.reject'', transition_details),
      (''policy.revert'', transition_details), (''policy.auto_deprecate'', transition_details)]"

definition status_text :: "pyval \<Rightarrow> details_value" where
  "status_text v = (case v of PStr s \<Rightarrow> Text s | _ \<Rightarrow> Unset)"

definition optional_text :: "string option \<Rightarrow> details_value" where
  "optional_text s = (case s of None \<Rightarrow> Unset | Some t \<Rightarrow> Text t)"

definition policy_event :: "principal \<Rightarrow> string \<Rightarrow> string \<Rightarrow> audit_outcome \<Rightarrow> audit_details \<Rightarrow> audit_event" where
  "policy_event actor action p outcome details =
     \<lparr>ev_actor = actor, ev_action = action, ev_resource_type = ''policy'', ev_resource_id = p,
      ev_outcome = outcome, ev_details = details\<rparr>"

definition record_with_event_id :: "audit_event \<Rightarrow> string lifecycle" where
  "record_with_event_id ev = Ask_audit_row ev (\<lambda>q. case q of Inl e \<Rightarrow> fail (Audit_refused e) | Inr i \<Rightarrow> give i)"

definition record_row :: "audit_event \<Rightarrow> unit lifecycle" where
  "record_row ev = next_do (record_with_event_id ev) (\<lambda>_. give ())"

text \<open>
  The two failures of a graph write that leave a \<^verbatim>\<open>failed\<close> row and surface as the graph being unavailable.
\<close>

definition or_failed_row :: "audit_event \<Rightarrow> 'a lifecycle \<Rightarrow> 'a lifecycle" where
  "or_failed_row failed m =
     on_error m (\<lambda>e. if redis_error e \<or> e = PolicyLifecycleGraphUnavailableError
       then Some (next_do (record_row failed) (\<lambda>_. fail PolicyLifecycleGraphUnavailableError)) else None)"

section \<open>Versions\<close>

text \<open>\<open>int(version)\<close> and \<open>str(...)\<close>, with the interpreter's limit of 4300 digits for both.\<close>

definition max_str_digits :: nat where
  "max_str_digits = 4300"

fun int_digits :: "bool \<Rightarrow> string \<Rightarrow> string option" where
  "int_digits after_digit [] = (if after_digit then Some [] else None)"
| "int_digits after_digit (c # cs) =
     (if ascii_digit c then map_option ((#) c) (int_digits True cs)
      else if c = underscore \<and> after_digit then int_digits False cs else None)"

definition decimal_value :: "string \<Rightarrow> int" where
  "decimal_value ds = foldl (\<lambda>n c. 10 * n + (of_char c - 48)) 0 ds"

definition py_strip :: "string \<Rightarrow> string" where
  "py_strip s = rev (dropWhile py_space (rev (dropWhile py_space s)))"

definition unsigned_int :: "string \<Rightarrow> int option" where
  "unsigned_int s =
     (case int_digits False s of
        None \<Rightarrow> None
      | Some ds \<Rightarrow> if max_str_digits < length ds then None else Some (decimal_value ds))"

definition int_of_text :: "string \<Rightarrow> int option" where
  "int_of_text s =
     (case py_strip s of
        [] \<Rightarrow> None
      | c # cs \<Rightarrow>
          if c = CHR ''-'' then map_option uminus (unsigned_int cs)
          else if c = CHR ''+'' then unsigned_int cs
          else unsigned_int (c # cs))"

definition f64_truncated :: "f64 \<Rightarrow> int" where
  "f64_truncated w =
     (let e = uint (f64_exponent w); f = uint (f64_fraction w);
          m = if e = 0 then f else f + 2 ^ 52;
          n = if 1075 \<le> e then m * 2 ^ nat (e - 1075) else m div 2 ^ nat (1075 - (if e = 0 then 1 else e))
      in if bit w 63 then - n else n)"

fun py_int :: "pyval \<Rightarrow> int option" where
  "py_int (PBool b) = Some (if b then 1 else 0)"
| "py_int (PInt i) = Some i"
| "py_int (PFloat w) = (if f64_isfinite w then Some (f64_truncated w) else None)"
| "py_int (PStr s) = int_of_text s"
| "py_int _ = None"

function decimal_text :: "int \<Rightarrow> string" where
  "decimal_text n = (if n < 10 then [char_of (48 + n)] else decimal_text (n div 10) @ [char_of (48 + n mod 10)])"
  by pat_completeness auto
termination
  by (relation "measure nat") auto

declare decimal_text.simps [simp del]

definition py_str_int :: "int \<Rightarrow> string option" where
  "py_str_int n =
     (let ds = decimal_text (abs n)
      in if max_str_digits < length ds then None else Some (if n < 0 then CHR ''-'' # ds else ds))"

definition next_version :: "pyval \<Rightarrow> string option" where
  "next_version v = (case py_int v of None \<Rightarrow> None | Some n \<Rightarrow> py_str_int (n + 1))"

section \<open>Reading the policy an operation is about\<close>

definition read_transition_target :: "lifecycle_env \<Rightarrow> string \<Rightarrow> policy_record lifecycle" where
  "read_transition_target le p =
     next_do (backfill_governance_status le p) (\<lambda>_.
     next_do (ask_graph (read_policy_tree le p)) (\<lambda>found.
       case found of None \<Rightarrow> fail PolicyNotFoundError | Some r \<Rightarrow> give r))"

definition standard_ids :: "policy_record \<Rightarrow> string list" where
  "standard_ids r = map std_id (pol_standards r)"

definition control_ids :: "policy_record \<Rightarrow> string list" where
  "control_ids r = concat (map (\<lambda>s. map ctl_id (std_controls s)) (pol_standards r))"

definition tree_node_ids :: "policy_record \<Rightarrow> string list" where
  "tree_node_ids r = pol_id r # standard_ids r @ control_ids r"

definition context_of :: "principal \<Rightarrow> string \<Rightarrow> policy_record \<Rightarrow> lifecycle_context" where
  "context_of actor action r =
     \<lparr>lc_actor = actor, lc_owner = (pol_owner_subject r, pol_owner_issuer r), lc_action = action,
      lc_status = pol_status r\<rparr>"

record control_view =
  cv_id :: string
  cv_title :: pyval
  cv_type :: pyval
  cv_status :: pyval

record standard_view =
  sv_id :: string
  sv_title :: pyval
  sv_status :: pyval
  sv_controls :: "control_view list"

record policy_view =
  pv_id :: string
  pv_title :: pyval
  pv_status :: pyval
  pv_version :: pyval
  pv_owner_subject :: pyval
  pv_owner_issuer :: pyval
  pv_standards :: "standard_view list"

definition to_control_view :: "control_record \<Rightarrow> control_view" where
  "to_control_view c = \<lparr>cv_id = ctl_id c, cv_title = ctl_title c, cv_type = ctl_type c, cv_status = ctl_status c\<rparr>"

definition to_standard_view :: "standard_record \<Rightarrow> standard_view" where
  "to_standard_view s =
     \<lparr>sv_id = std_id s, sv_title = std_title s, sv_status = std_status s,
      sv_controls = map to_control_view (std_controls s)\<rparr>"

definition to_policy_view :: "policy_record \<Rightarrow> policy_view" where
  "to_policy_view r =
     \<lparr>pv_id = pol_id r, pv_title = pol_title r, pv_status = pol_status r, pv_version = pol_version r,
      pv_owner_subject = pol_owner_subject r, pv_owner_issuer = pol_owner_issuer r,
      pv_standards = map to_standard_view (pol_standards r)\<rparr>"

definition get_policy :: "lifecycle_env \<Rightarrow> string \<Rightarrow> policy_view lifecycle" where
  "get_policy le p = next_do (read_transition_target le p) (\<lambda>r. give (to_policy_view r))"

section \<open>Creating a draft\<close>

record control_input =
  ci_title :: string
  ci_type :: string

record standard_input =
  si_title :: string
  si_controls :: "control_input list"

record draft_result =
  dr_policy :: string
  dr_title :: string
  dr_status :: string
  dr_version :: string
  dr_owner :: principal
  dr_standards :: "string list"
  dr_controls :: "string list"
  dr_superseded :: "string option"
  dr_capabilities :: "string list"

definition build_standard_draft :: "string \<Rightarrow> standard_input \<Rightarrow> standard_draft" where
  "build_standard_draft p s =
     (let sid = standard_id p (si_title s) in
      \<lparr>sd_id = sid, sd_title = si_title s,
       sd_controls = map (\<lambda>c. \<lparr>cd_id = control_id sid (ci_title c), cd_title = ci_title c,
                               cd_type = PStr (ci_type c), cd_extra = []\<rparr>) (si_controls s),
       sd_extra = []\<rparr>)"

definition without_keys :: "string list \<Rightarrow> props \<Rightarrow> props" where
  "without_keys ks d = filter (\<lambda>(k, v). k \<notin> set ks) d"

definition forked_control_stripped_keys :: "string list" where
  "forked_control_stripped_keys = [''id'', ''title'', ''status'', ''type'']"

definition forked_standard_stripped_keys :: "string list" where
  "forked_standard_stripped_keys = [''id'', ''title'', ''status'']"

text \<open>A title that is no string has no lower case: \<^verbatim>\<open>AttributeError\<close>.\<close>

fun text_of :: "pyval \<Rightarrow> string option" where
  "text_of (PStr s) = Some s"
| "text_of _ = None"

definition fork_control :: "string \<Rightarrow> forked_control \<Rightarrow> control_draft option" where
  "fork_control sid c =
     map_option (\<lambda>title.
       \<lparr>cd_id = control_id sid title, cd_title = title,
        cd_type = dict_get (fc_props c) ''type'' (PStr ''manual''),
        cd_extra = without_keys forked_control_stripped_keys (fc_props c)\<rparr>) (text_of (fc_title c))"

definition fork_standard :: "string \<Rightarrow> forked_standard \<Rightarrow> standard_draft option" where
  "fork_standard p s =
     (case text_of (fs_title s) of
        None \<Rightarrow> None
      | Some title \<Rightarrow>
          let sid = standard_id p title in
          map_option (\<lambda>controls.
            \<lparr>sd_id = sid, sd_title = title, sd_controls = controls,
             sd_extra = without_keys forked_standard_stripped_keys (fs_props s)\<rparr>)
            (those (map (fork_control sid) (fs_controls s))))"

definition build_forked_standard_drafts :: "lifecycle_env \<Rightarrow> string \<Rightarrow> string \<Rightarrow> standard_draft list lifecycle" where
  "build_forked_standard_drafts le p prior =
     next_do (ask_graph (read_policy_tree_for_fork le prior)) (\<lambda>forked.
       case those (map (fork_standard p) forked) of None \<Rightarrow> fail Invalid_value | Some ds \<Rightarrow> give ds)"

definition record_create_draft :: "principal \<Rightarrow> string \<Rightarrow> audit_outcome \<Rightarrow> audit_details \<Rightarrow> unit lifecycle" where
  "record_create_draft actor p outcome details =
     record_row (policy_event actor ''policy.create_draft'' p outcome details)"

definition refused_claim :: "string \<Rightarrow> audit_details" where
  "refused_claim reason =
     [(''affected_node_ids'', Texts []), (''to_status'', Text ''draft''), (''reason_code'', Text reason),
      (''capability_ids'', Texts [])]"

definition validate_capability_claims :: "lifecycle_env \<Rightarrow> principal \<Rightarrow> string \<Rightarrow> string list \<Rightarrow> unit lifecycle" where
  "validate_capability_claims le actor p caps =
     next_do (ask_graph (read_capability_governors le caps)) (\<lambda>governors.
       let missing = filter (\<lambda>c. map_of governors c = None) caps;
           governed = filter (\<lambda>c. map_of governors c \<noteq> None \<and> map_of governors c \<noteq> Some None) caps
       in if missing = [] \<and> governed = [] then give ()
          else next_do (record_create_draft actor p Effect_rejected
                 (refused_claim (if missing \<noteq> [] then ''capability_not_found'' else ''capability_already_governed''))) (\<lambda>_.
               if missing \<noteq> [] then fail (PolicyCapabilityNotFoundError missing)
               else fail (PolicyCapabilityAlreadyGovernedError governed)))"

record new_policy =
  np_id :: string
  np_title :: string
  np_standards :: "standard_draft list"
  np_supersedes :: "string option"
  np_version :: string
  np_capabilities :: "string list"
  np_details :: audit_details

definition write_new_policy :: "lifecycle_env \<Rightarrow> principal \<Rightarrow> new_policy \<Rightarrow> bool lifecycle" where
  "write_new_policy le actor np =
     or_failed_row (policy_event actor ''policy.create_draft'' (np_id np) Effect_failed (np_details np))
       (next_do (record_with_event_id
            (policy_event actor ''policy.create_draft'' (np_id np) Effect_applied (np_details np))) (\<lambda>audit.
          if np_capabilities np \<noteq> []
          then create_claimed_policy_draft le (np_id np) (np_title np) actor (np_standards np) (np_capabilities np) audit
          else next_do (write_policy_draft le (np_id np) (np_title np) actor (np_standards np) (np_supersedes np)
                 (np_version np) audit) (\<lambda>_. give True)))"

definition new_version_for :: "lifecycle_env \<Rightarrow> string option \<Rightarrow> string lifecycle" where
  "new_version_for le supersedes =
     (case supersedes of
        None \<Rightarrow> give ''1''
      | Some prior \<Rightarrow>
          next_do (read_transition_target le prior) (\<lambda>r.
            if pol_status r \<noteq> PStr ''approved'' then fail (PolicySupersedePriorNotApprovedError (pol_status r))
            else case next_version (pol_version r) of None \<Rightarrow> fail Invalid_value | Some v \<Rightarrow> give v))"

definition draft_details :: "string \<Rightarrow> standard_draft list \<Rightarrow> string option \<Rightarrow> string list \<Rightarrow> audit_details" where
  "draft_details p standards supersedes caps =
     [(''affected_node_ids'', Texts (p # map sd_id standards @ concat (map (\<lambda>s. map cd_id (sd_controls s)) standards))),
      (''to_status'', Text ''draft''), (''supersedes_policy_id'', optional_text supersedes),
      (''capability_ids'', Texts caps)]"

definition create_policy_draft ::
    "lifecycle_env \<Rightarrow> principal \<Rightarrow> string \<Rightarrow> standard_input list \<Rightarrow> string option \<Rightarrow> string list
     \<Rightarrow> draft_result lifecycle" where
  "create_policy_draft le actor title inputs supersedes capability_args =
     next_do (new_version_for le supersedes) (\<lambda>version.
     let p = policy_id title supersedes;
         caps = if supersedes \<noteq> None then [] else dict_fromkeys capability_args
     in next_do (ask_graph (find_existing_policy p)) (\<lambda>existing.
        if existing \<noteq> None
        then next_do (record_create_draft actor p Effect_rejected
               [(''affected_node_ids'', Texts []), (''to_status'', Text ''draft''),
                (''reason_code'', Text ''title_already_exists'')]) (\<lambda>_. fail (PolicyTitleAlreadyExistsError title))
        else
          next_do (if caps = [] then give () else validate_capability_claims le actor p caps) (\<lambda>_.
          next_do (case supersedes of
                     None \<Rightarrow> give (map (build_standard_draft p) inputs)
                   | Some prior \<Rightarrow> build_forked_standard_drafts le p prior) (\<lambda>standards.
          next_do (write_new_policy le actor
              \<lparr>np_id = p, np_title = title, np_standards = standards, np_supersedes = supersedes,
               np_version = version, np_capabilities = caps,
               np_details = draft_details p standards supersedes caps\<rparr>) (\<lambda>created.
            if \<not> created
            then next_do (record_create_draft actor p Effect_failed (refused_claim ''capability_already_governed''))
                   (\<lambda>_. fail (PolicyCapabilityAlreadyGovernedError caps))
            else give \<lparr>dr_policy = p, dr_title = title, dr_status = ''draft'', dr_version = version, dr_owner = actor,
                       dr_standards = map sd_id standards,
                       dr_controls = concat (map (\<lambda>s. map cd_id (sd_controls s)) standards),
                       dr_superseded = supersedes, dr_capabilities = caps\<rparr>)))))"

section \<open>Transitions\<close>

record transition_gate =
  tg_allowed :: bool
  tg_reason :: string
  tg_error :: lifecycle_error

record transition_spec =
  ts_action :: string
  ts_from :: pyval
  ts_target :: string

record repoint =
  rp_prior :: string
  rp_capabilities :: "string list"

fun check_gates :: "principal \<Rightarrow> string \<Rightarrow> transition_spec \<Rightarrow> transition_gate list \<Rightarrow> unit lifecycle" where
  "check_gates actor p spec [] = give ()"
| "check_gates actor p spec (gate # gates) =
     (if tg_allowed gate then check_gates actor p spec gates
      else next_do (record_row (policy_event actor (ts_action spec) p Effect_rejected
               [(''affected_node_ids'', Texts [p]), (''from_status'', status_text (ts_from spec)),
                (''to_status'', status_text (ts_from spec)), (''reason_code'', Text (tg_reason gate))])) (\<lambda>_.
           fail (tg_error gate)))"

definition write_cascade ::
    "lifecycle_env \<Rightarrow> string \<Rightarrow> string \<Rightarrow> repoint option \<Rightarrow> string \<Rightarrow> bool lifecycle" where
  "write_cascade le p target_status rp audit =
     (case rp of
        None \<Rightarrow> next_do (cascade_status le p target_status audit) (\<lambda>_. give True)
      | Some r \<Rightarrow> approve_fork_repoint le p (rp_prior r) (rp_capabilities r) target_status audit)"

definition cascade_with_audit ::
    "lifecycle_env \<Rightarrow> principal \<Rightarrow> string \<Rightarrow> transition_spec \<Rightarrow> string list \<Rightarrow> repoint option \<Rightarrow> unit lifecycle" where
  "cascade_with_audit le actor p spec affected rp =
     (let base = [(''affected_node_ids'', Texts affected), (''from_status'', status_text (ts_from spec)),
                  (''to_status'', Text (ts_target spec))];
          event = policy_event actor (ts_action spec) p
      in next_do (record_with_event_id (event Effect_applied
             (case rp of None \<Rightarrow> base | Some r \<Rightarrow> base @ [(''capability_ids'', Texts (rp_capabilities r))]))) (\<lambda>audit.
         next_do (or_failed_row (event Effect_failed base) (write_cascade le p (ts_target spec) rp audit)) (\<lambda>moved.
           if moved then give ()
           else next_do (record_row (event Effect_failed
                  (base @ [(''reason_code'', Text ''governance_conflict''), (''capability_ids'', Texts [])]))) (\<lambda>_.
                fail PolicyGovernanceConflictError))))"

definition apply_transition ::
    "lifecycle_env \<Rightarrow> principal \<Rightarrow> string \<Rightarrow> transition_spec \<Rightarrow> string list \<Rightarrow> transition_gate list \<Rightarrow> unit lifecycle" where
  "apply_transition le actor p spec affected gates =
     next_do (check_gates actor p spec gates) (\<lambda>_. cascade_with_audit le actor p spec affected None)"

record transition_result =
  tr_policy :: string
  tr_status :: string
  tr_standards :: "string list"
  tr_controls :: "string list"

record approve_result = transition_result +
  ar_deprecated :: "string option"
  ar_capabilities :: "string list"

definition transitioned :: "string \<Rightarrow> string \<Rightarrow> policy_record \<Rightarrow> transition_result" where
  "transitioned p status r =
     \<lparr>tr_policy = p, tr_status = status, tr_standards = standard_ids r, tr_controls = control_ids r\<rparr>"

definition status_gate :: "lifecycle_context \<Rightarrow> string \<Rightarrow> transition_gate" where
  "status_gate ctx required =
     \<lparr>tg_allowed = require_status ctx, tg_reason = ''invalid_status'',
      tg_error = PolicyInvalidStatusTransitionError (lc_action ctx) (lc_status ctx) required\<rparr>"

definition owner_gate :: "lifecycle_context \<Rightarrow> transition_gate" where
  "owner_gate ctx =
     \<lparr>tg_allowed = require_owner ctx, tg_reason = ''access_denied'', tg_error = PolicyDraftAccessDeniedError\<rparr>"

definition self_gate :: "lifecycle_context \<Rightarrow> transition_gate" where
  "self_gate ctx =
     \<lparr>tg_allowed = block_self_approval ctx, tg_reason = ''self_approval_blocked'',
      tg_error = PolicySelfApprovalBlockedError\<rparr>"

definition propose_policy :: "lifecycle_env \<Rightarrow> principal \<Rightarrow> string \<Rightarrow> transition_result lifecycle" where
  "propose_policy le actor p =
     next_do (read_transition_target le p) (\<lambda>r.
     let ctx = context_of actor ''propose'' r in
     next_do (apply_transition le actor p
         \<lparr>ts_action = ''policy.propose'', ts_from = pol_status r, ts_target = ''proposed''\<rparr>
         (p # standard_ids r @ control_ids r)
         [owner_gate ctx, status_gate ctx ''draft'',
          \<lparr>tg_allowed = (standard_ids r \<noteq> []), tg_reason = ''incomplete_for_proposal'',
           tg_error = PolicyIncompleteForProposalError\<rparr>]) (\<lambda>_.
       give (transitioned p ''proposed'' r)))"

definition read_repoint :: "lifecycle_env \<Rightarrow> string \<Rightarrow> repoint option lifecycle" where
  "read_repoint le p =
     next_do (ask_graph (read_fork_governance le p)) (\<lambda>gov.
       give (case gov of
               None \<Rightarrow> None
             | Some f \<Rightarrow> if fg_capabilities f = [] then None
                         else Some \<lparr>rp_prior = fg_prior f, rp_capabilities = fg_capabilities f\<rparr>))"

definition auto_deprecate :: "lifecycle_env \<Rightarrow> principal \<Rightarrow> string \<Rightarrow> string option lifecycle" where
  "auto_deprecate le actor p =
     next_do (ask_graph (find_approved_prior le p)) (\<lambda>prior.
       case prior of
         None \<Rightarrow> give None
       | Some q \<Rightarrow>
           next_do (ask_graph (read_policy_tree le q)) (\<lambda>found.
             case found of
               None \<Rightarrow> give None
             | Some r \<Rightarrow>
                 next_do (cascade_with_audit le actor q
                     \<lparr>ts_action = ''policy.auto_deprecate'', ts_from = pol_status r, ts_target = ''deprecated''\<rparr>
                     (tree_node_ids r) None) (\<lambda>_. give (Some q))))"

definition approve_policy ::
    "lifecycle_env \<Rightarrow> (principal \<Rightarrow> unit lifecycle) \<Rightarrow> principal \<Rightarrow> string \<Rightarrow> approve_result lifecycle" where
  "approve_policy le enforce_policy_manager actor p =
     next_do (read_transition_target le p) (\<lambda>r.
     next_do (enforce_policy_manager actor) (\<lambda>_.
     let ctx = context_of actor ''approve'' r;
         spec = \<lparr>ts_action = ''policy.approve'', ts_from = pol_status r, ts_target = ''approved''\<rparr>
     in next_do (check_gates actor p spec [self_gate ctx, status_gate ctx ''proposed'']) (\<lambda>_.
        next_do (read_repoint le p) (\<lambda>rp.
        next_do (cascade_with_audit le actor p spec (tree_node_ids r) rp) (\<lambda>_.
        next_do (auto_deprecate le actor p) (\<lambda>deprecated.
          give (transition_result.extend (transitioned p ''approved'' r)
            \<lparr>ar_deprecated = deprecated,
             ar_capabilities = (case rp of None \<Rightarrow> [] | Some q \<Rightarrow> rp_capabilities q)\<rparr>)))))))"

definition reject_policy ::
    "lifecycle_env \<Rightarrow> (principal \<Rightarrow> unit lifecycle) \<Rightarrow> principal \<Rightarrow> string \<Rightarrow> transition_result lifecycle" where
  "reject_policy le enforce_policy_manager actor p =
     next_do (read_transition_target le p) (\<lambda>r.
     next_do (enforce_policy_manager actor) (\<lambda>_.
     let ctx = context_of actor ''reject'' r in
     next_do (apply_transition le actor p
         \<lparr>ts_action = ''policy.reject'', ts_from = pol_status r, ts_target = ''draft''\<rparr> (tree_node_ids r)
         [self_gate ctx, status_gate ctx ''proposed'']) (\<lambda>_.
       give (transitioned p ''draft'' r))))"

definition revert_policy_to_draft :: "lifecycle_env \<Rightarrow> principal \<Rightarrow> string \<Rightarrow> transition_result lifecycle" where
  "revert_policy_to_draft le actor p =
     next_do (read_transition_target le p) (\<lambda>r.
     let ctx = context_of actor ''revert'' r in
     next_do (apply_transition le actor p
         \<lparr>ts_action = ''policy.revert'', ts_from = pol_status r, ts_target = ''draft''\<rparr> (tree_node_ids r)
         [owner_gate ctx, status_gate ctx ''proposed'']) (\<lambda>_.
       give (transitioned p ''draft'' r)))"

section \<open>Editing a draft\<close>

definition draft_visibility_override_roles :: "access_role set" where
  "draft_visibility_override_roles = {SYSTEM_OWNER, SYSTEM_ADMIN}"

definition authorize_draft_edit :: "lifecycle_context \<Rightarrow> unit lifecycle" where
  "authorize_draft_edit ctx =
     next_do
       (if require_owner ctx then give ()
        else Ask_active_roles (lc_actor ctx) (\<lambda>q. case q of
               Inl e \<Rightarrow> fail (Roles_refused e)
             | Inr active \<Rightarrow> if active \<inter> draft_visibility_override_roles = {} then fail PolicyDraftAccessDeniedError
                             else give ())) (\<lambda>_.
     if require_status ctx then give ()
     else fail (PolicyInvalidStatusTransitionError ''edit'' (lc_status ctx) ''draft''))"

definition update_policy_draft ::
    "lifecycle_env \<Rightarrow> principal \<Rightarrow> string \<Rightarrow> props \<Rightarrow> (string \<times> string list) lifecycle" where
  "update_policy_draft le actor p patch =
     next_do (read_transition_target le p) (\<lambda>r.
     next_do (authorize_draft_edit (context_of actor ''edit'' r)) (\<lambda>_.
     next_do (update_fields le ''Policy'' p patch) (\<lambda>_.
       give (p, sort (map fst patch)))))"

record standard_result =
  sr_standard :: string
  sr_policy :: string
  sr_title :: pyval
  sr_status :: string

definition add_standard_to_draft ::
    "lifecycle_env \<Rightarrow> principal \<Rightarrow> string \<Rightarrow> string \<Rightarrow> props \<Rightarrow> standard_result lifecycle" where
  "add_standard_to_draft le actor p title extra =
     next_do (read_transition_target le p) (\<lambda>r.
     next_do (authorize_draft_edit (context_of actor ''edit'' r)) (\<lambda>_.
     next_do (add_standard_to_policy le p (standard_id p title) title extra) (\<lambda>_.
       give \<lparr>sr_standard = standard_id p title, sr_policy = p, sr_title = PStr title, sr_status = ''draft''\<rparr>)))"

definition read_backfilled :: "lifecycle_env \<Rightarrow> lifecycle_error \<Rightarrow> (graph \<Rightarrow> 'a option) \<Rightarrow> ('a \<Rightarrow> string) \<Rightarrow> 'a lifecycle" where
  "read_backfilled le missing query policy_of =
     next_do (ask_graph query) (\<lambda>found.
       case found of
         None \<Rightarrow> fail missing
       | Some row \<Rightarrow>
           next_do (backfill_governance_status le (policy_of row)) (\<lambda>_.
           next_do (ask_graph query) (\<lambda>refreshed.
             case refreshed of None \<Rightarrow> fail missing | Some row' \<Rightarrow> give row')))"

definition read_standard_with_parent_backfilled :: "lifecycle_env \<Rightarrow> string \<Rightarrow> standard_with_parent lifecycle" where
  "read_standard_with_parent_backfilled le s =
     read_backfilled le PolicyStandardNotFoundError (find_standard_with_parent le s) sp_policy"

definition read_control_with_parent_backfilled :: "lifecycle_env \<Rightarrow> string \<Rightarrow> control_with_parent lifecycle" where
  "read_control_with_parent_backfilled le c =
     read_backfilled le PolicyControlNotFoundError (find_control_with_parent le c) cp_policy"

definition standard_context :: "principal \<Rightarrow> standard_with_parent \<Rightarrow> lifecycle_context" where
  "standard_context actor row =
     \<lparr>lc_actor = actor, lc_owner = (sp_owner_subject row, sp_owner_issuer row), lc_action = ''edit'',
      lc_status = sp_status row\<rparr>"

definition control_context :: "principal \<Rightarrow> control_with_parent \<Rightarrow> lifecycle_context" where
  "control_context actor row =
     \<lparr>lc_actor = actor, lc_owner = (cp_owner_subject row, cp_owner_issuer row), lc_action = ''edit'',
      lc_status = cp_status row\<rparr>"

definition update_standard_draft ::
    "lifecycle_env \<Rightarrow> principal \<Rightarrow> string \<Rightarrow> props \<Rightarrow> standard_result lifecycle" where
  "update_standard_draft le actor s patch =
     next_do (read_standard_with_parent_backfilled le s) (\<lambda>row.
     next_do (authorize_draft_edit (standard_context actor row)) (\<lambda>_.
     next_do (update_fields le ''Standard'' s patch) (\<lambda>_.
       give \<lparr>sr_standard = s, sr_policy = sp_policy row, sr_title = sp_title row, sr_status = ''draft''\<rparr>)))"

record control_result =
  cx_control :: string
  cx_standard :: string
  cx_policy :: string
  cx_title :: pyval
  cx_status :: string

definition add_control_to_draft ::
    "lifecycle_env \<Rightarrow> principal \<Rightarrow> string \<Rightarrow> string \<Rightarrow> string \<Rightarrow> props \<Rightarrow> control_result lifecycle" where
  "add_control_to_draft le actor s title control_type extra =
     next_do (read_standard_with_parent_backfilled le s) (\<lambda>row.
     next_do (authorize_draft_edit (standard_context actor row)) (\<lambda>_.
     next_do (add_control_to_standard le s (control_id s title) title control_type extra) (\<lambda>_.
       give \<lparr>cx_control = control_id s title, cx_standard = s, cx_policy = sp_policy row,
             cx_title = PStr title, cx_status = ''draft''\<rparr>)))"

definition update_control_draft ::
    "lifecycle_env \<Rightarrow> principal \<Rightarrow> string \<Rightarrow> props \<Rightarrow> control_result lifecycle" where
  "update_control_draft le actor c patch =
     next_do (read_control_with_parent_backfilled le c) (\<lambda>row.
     next_do (authorize_draft_edit (control_context actor row)) (\<lambda>_.
     next_do (update_fields le ''Control'' c patch) (\<lambda>_.
       give \<lparr>cx_control = c, cx_standard = cp_standard row, cx_policy = cp_policy row,
             cx_title = cp_title row, cx_status = ''draft''\<rparr>)))"

section \<open>The service\<close>

text \<open>
  What the tools of the MCP interface call.  \<open>audit_actor\<close> is whom a denial of the policy manager's role is
  attributed to (\<^verbatim>\<open>mcp_interface/tool_gates.py\<close>, \<^verbatim>\<open>lifecycle_role_enforcer\<close>).
\<close>

definition transition_role_gate :: "string \<Rightarrow> role_gate" where
  "transition_role_gate name = \<lparr>gate_operation = name, gate_minimum = POLICY_MANAGER\<rparr>"

definition lifecycle_role_enforcer :: "string \<Rightarrow> principal option \<Rightarrow> principal \<Rightarrow> unit lifecycle" where
  "lifecycle_role_enforcer name audit_actor p =
     Ask_manager (transition_role_gate name) p audit_actor (\<lambda>q. case q of
        Inl e \<Rightarrow> fail (Roles_refused e) | Inr u \<Rightarrow> give ())"

datatype lifecycle_call =
    Call_create principal string "standard_input list" "string option" "string list"
  | Call_read string
  | Call_propose principal string
  | Call_approve "principal option" principal string
  | Call_reject "principal option" principal string
  | Call_revert principal string
  | Call_update_policy principal string props
  | Call_add_standard principal string string props
  | Call_update_standard principal string props
  | Call_add_control principal string string string props
  | Call_update_control principal string props

datatype lifecycle_answer =
    Created draft_result
  | Policy_is policy_view
  | Moved transition_result
  | Approved approve_result
  | Edited_policy string "string list"
  | Standard_is standard_result
  | Control_is control_result

definition answering :: "('a \<Rightarrow> lifecycle_answer) \<Rightarrow> 'a lifecycle \<Rightarrow> lifecycle_answer lifecycle" where
  "answering h m = next_do m (\<lambda>x. give (h x))"

fun lifecycle_service :: "lifecycle_env \<Rightarrow> lifecycle_call \<Rightarrow> lifecycle_answer lifecycle" where
  "lifecycle_service le (Call_create a title inputs prior caps) =
     answering Created (create_policy_draft le a title inputs prior caps)"
| "lifecycle_service le (Call_read p) = answering Policy_is (get_policy le p)"
| "lifecycle_service le (Call_propose a p) = answering Moved (propose_policy le a p)"
| "lifecycle_service le (Call_approve aa a p) =
     answering Approved (approve_policy le (lifecycle_role_enforcer ''approve-policy'' aa) a p)"
| "lifecycle_service le (Call_reject aa a p) =
     answering Moved (reject_policy le (lifecycle_role_enforcer ''reject-policy'' aa) a p)"
| "lifecycle_service le (Call_revert a p) = answering Moved (revert_policy_to_draft le a p)"
| "lifecycle_service le (Call_update_policy a p patch) =
     answering (\<lambda>(q, ks). Edited_policy q ks) (update_policy_draft le a p patch)"
| "lifecycle_service le (Call_add_standard a p title extra) =
     answering Standard_is (add_standard_to_draft le a p title extra)"
| "lifecycle_service le (Call_update_standard a s patch) = answering Standard_is (update_standard_draft le a s patch)"
| "lifecycle_service le (Call_add_control a s title kind extra) =
     answering Control_is (add_control_to_draft le a s title kind extra)"
| "lifecycle_service le (Call_update_control a c patch) = answering Control_is (update_control_draft le a c patch)"

end
