(* ===== verification/Policy_Laws.thy ===== *)
theory Policy_Laws
  imports Policy_Service
begin

text \<open>
  What justifies each write of the policy lifecycle.  A request learns facts from the answers it gets;
  \<open>earns q P Q F\<close> says that, whatever the answers, every group the request \<open>q\<close> submits satisfies \<open>P\<close> of the
  facts learnt by then, from \<open>F\<close> on, and its result satisfies \<open>Q\<close>.  \<open>group_earned\<close> is the \<open>P\<close> of the lifecycle: a
  policy's status changes only by the transition that its gates allowed and its audit row tells of, and
  a write without an audit row is a backfill or an allowed edit.
\<close>

section \<open>Facts\<close>

datatype fact =
    Saw graph
  | Recorded audit_event string
  | Held principal "access_role set"
  | Enforced role_gate principal "principal option"

primrec earns ::
    "'r policy_request \<Rightarrow> (fact set \<Rightarrow> mutation_group \<Rightarrow> bool) \<Rightarrow> (fact set \<Rightarrow> 'r \<Rightarrow> bool) \<Rightarrow> fact set \<Rightarrow> bool" where
  "earns (Ended x) P Q F \<longleftrightarrow> Q F x"
| "earns (Ask_graph k) P Q F \<longleftrightarrow>
     (\<forall>e. earns (k (Inl e)) P Q F) \<and> (\<forall>g. earns (k (Inr g)) P Q (insert (Saw g) F))"
| "earns (Ask_submit grp k) P Q F \<longleftrightarrow> P F grp \<and> (\<forall>r. earns (k r) P Q F)"
| "earns (Ask_caught_up k) P Q F \<longleftrightarrow> (\<forall>r. earns (k r) P Q F)"
| "earns (Ask_stamp a k) P Q F \<longleftrightarrow> (\<forall>r. earns (k r) P Q F)"
| "earns (Ask_position k) P Q F \<longleftrightarrow> (\<forall>r. earns (k r) P Q F)"
| "earns (Ask_audit_row ev k) P Q F \<longleftrightarrow>
     (\<forall>e. earns (k (Inl e)) P Q F) \<and> (\<forall>i. earns (k (Inr i)) P Q (insert (Recorded ev i) F))"
| "earns (Ask_active_roles p k) P Q F \<longleftrightarrow>
     (\<forall>e. earns (k (Inl e)) P Q F) \<and> (\<forall>rs. earns (k (Inr rs)) P Q (insert (Held p rs) F))"
| "earns (Ask_manager g p a k) P Q F \<longleftrightarrow>
     (\<forall>e. earns (k (Inl e)) P Q F) \<and> (\<forall>u. earns (k (Inr u)) P Q (insert (Enforced g p a) F))"

lemma earns_bind: "earns (bind_policy m f) P Q F \<longleftrightarrow> earns m P (\<lambda>F x. earns (f x) P Q F) F"
  by (induction m arbitrary: F) simp_all

lemma earns_give [simp]: "earns (give x) P Q F \<longleftrightarrow> Q F (Inr x)"
  and earns_fail [simp]: "earns (fail e) P Q F \<longleftrightarrow> Q F (Inl e)"
  by (simp_all add: give_def fail_def)

lemma earns_next [simp]:
  "earns (next_do m f) P Q F \<longleftrightarrow>
     earns m P (\<lambda>F r. (\<forall>e. r = Inl e \<longrightarrow> Q F (Inl e)) \<and> (\<forall>x. r = Inr x \<longrightarrow> earns (f x) P Q F)) F"
  unfolding next_do_def earns_bind by (rule arg_cong [where f = "\<lambda>Q. earns m P Q F"]) (auto split: sum.splits)

lemma earns_on_error [simp]:
  "earns (on_error m h) P Q F \<longleftrightarrow>
     earns m P (\<lambda>F r. (\<forall>e. r = Inl e \<longrightarrow> (case h e of None \<Rightarrow> Q F (Inl e) | Some q \<Rightarrow> earns q P Q F))
       \<and> (\<forall>x. r = Inr x \<longrightarrow> Q F (Inr x))) F"
  unfolding on_error_def earns_bind
  by (rule arg_cong [where f = "\<lambda>Q. earns m P Q F"]) (auto split: sum.splits option.splits)

lemma earns_mono: "earns q P Q F \<Longrightarrow> (\<And>F r. Q F r \<Longrightarrow> R F r) \<Longrightarrow> earns q P R F"
  by (induction q arbitrary: F) auto

text \<open>A step that submits nothing: its result may use the facts it began with.\<close>

definition quiet :: "'r policy_request \<Rightarrow> bool" where
  "quiet q \<longleftrightarrow> (\<forall>P F. earns q P (\<lambda>F' r. F \<subseteq> F') F)"

lemma earns_any:
  assumes "earns q P (\<lambda>F' r. F \<subseteq> F') F" "\<And>F' r. F \<subseteq> F' \<Longrightarrow> Q F' r"
  shows "earns q P Q F"
  using earns_mono [OF assms(1)] assms(2) by blast

section \<open>The simple steps\<close>

lemma earns_ask_graph [simp]:
  "earns (ask_graph f) P Q F \<longleftrightarrow> (\<forall>e. Q F (Inl (Raised e))) \<and> (\<forall>g. Q (insert (Saw g) F) (Inr (f g)))"
  by (simp add: ask_graph_def)

lemma earns_record [simp]:
  "earns (record_with_event_id ev) P Q F \<longleftrightarrow>
     (\<forall>e. Q F (Inl (Audit_refused e))) \<and> (\<forall>i. Q (insert (Recorded ev i) F) (Inr i))"
  by (simp add: record_with_event_id_def)

lemma earns_validated [simp]:
  "earns (validated e ps) P Q F \<longleftrightarrow>
     (case those (map model_validate ps) of None \<Rightarrow> Q F (Inl e) | Some qs \<Rightarrow> Q F (Inr qs))"
  by (simp add: validated_def split: option.splits)

lemma earns_valid_ref [simp]:
  "earns (valid_node_ref r) P Q F \<longleftrightarrow> (if valid_ref r then Q F (Inr ()) else Q F (Inl Invalid_value))"
  by (simp add: valid_node_ref_def)

lemma earns_caught_up: "(\<And>r. Q F r) \<Longrightarrow> earns require_caught_up P Q F"
  by (auto simp: require_caught_up_def split: sum.splits)

lemma earns_stamped: "(\<And>r. Q F r) \<Longrightarrow> earns (ensure_stamped b a) P Q F"
  by (auto simp: ensure_stamped_def intro!: earns_caught_up split: sum.splits)

lemma earns_position: "(\<And>r. Q F r) \<Longrightarrow> earns lifecycle_log_position P Q F"
  by (auto simp: lifecycle_log_position_def split: sum.splits)

lemma earns_unless_stale:
  "earns m P (\<lambda>F r. \<forall>b. Q F b) F \<Longrightarrow> earns (unless_stale m) P Q F"
  unfolding unless_stale_def by (auto elim!: earns_mono)

section \<open>What justifies a write\<close>

definition policy_label :: string where
  "policy_label = ''Policy''"

fun policy_status_of :: "primitive \<Rightarrow> (string \<times> pyval) option" where
  "policy_status_of (UpsertNode l i ps e) =
     (if l = policy_label then map_option (Pair i) (map_of ps ''status'') else None)"
| "policy_status_of (MergeProperty l i ps) =
     (if l = policy_label then map_option (Pair i) (map_of ps ''status'') else None)"
| "policy_status_of (RemoveProperty l i ks) =
     (if l = policy_label \<and> ''status'' \<in> set ks then Some (i, PNone) else None)"
| "policy_status_of (DeleteNode l i) = (if l = policy_label then Some (i, PNone) else None)"
| "policy_status_of _ = None"

text \<open>What the reads of a transition showed, and what its gates allowed.\<close>

definition saw_policy :: "lifecycle_env \<Rightarrow> fact set \<Rightarrow> string \<Rightarrow> (policy_record \<Rightarrow> bool) \<Rightarrow> bool" where
  "saw_policy le F p R \<longleftrightarrow> (\<exists>g r. Saw g \<in> F \<and> read_policy_tree le p g = Some r \<and> R r)"

definition on_record :: "fact set \<Rightarrow> string option \<Rightarrow> principal \<Rightarrow> string \<Rightarrow> string \<Rightarrow> bool" where
  "on_record F audit actor action p \<longleftrightarrow>
     (\<exists>i d. audit = Some i \<and> Recorded (policy_event actor action p Effect_applied d) i \<in> F)"

definition ownership :: "principal \<Rightarrow> string \<Rightarrow> policy_record \<Rightarrow> bool" where
  "ownership actor action r \<longleftrightarrow> require_owner (context_of actor action r) \<and> require_status (context_of actor action r)"

definition review :: "principal \<Rightarrow> string \<Rightarrow> policy_record \<Rightarrow> bool" where
  "review actor action r \<longleftrightarrow> block_self_approval (context_of actor action r) \<and> require_status (context_of actor action r)"

definition enforced :: "fact set \<Rightarrow> string \<Rightarrow> principal \<Rightarrow> bool" where
  "enforced F name actor \<longleftrightarrow> (\<exists>a. Enforced (transition_role_gate name) actor a \<in> F)"

definition approval :: "lifecycle_env \<Rightarrow> fact set \<Rightarrow> principal \<Rightarrow> string \<Rightarrow> bool" where
  "approval le F actor p \<longleftrightarrow> saw_policy le F p (review actor ''approve'') \<and> enforced F ''approve-policy'' actor"

definition status_earned :: "lifecycle_env \<Rightarrow> fact set \<Rightarrow> string option \<Rightarrow> string \<Rightarrow> pyval \<Rightarrow> bool" where
  "status_earned le F audit p v \<longleftrightarrow>
     (\<exists>actor.
        v = PStr ''draft'' \<and> on_record F audit actor ''policy.create_draft'' p
          \<and> (\<exists>g. Saw g \<in> F \<and> find_existing_policy p g = None)
      \<or> v = PStr ''proposed'' \<and> on_record F audit actor ''policy.propose'' p
          \<and> saw_policy le F p (\<lambda>r. ownership actor ''propose'' r \<and> standard_ids r \<noteq> [])
      \<or> v = PStr ''approved'' \<and> on_record F audit actor ''policy.approve'' p \<and> approval le F actor p
      \<or> v = PStr ''draft'' \<and> on_record F audit actor ''policy.reject'' p
          \<and> saw_policy le F p (review actor ''reject'') \<and> enforced F ''reject-policy'' actor
      \<or> v = PStr ''draft'' \<and> on_record F audit actor ''policy.revert'' p
          \<and> saw_policy le F p (ownership actor ''revert'')
      \<or> v = PStr ''deprecated'' \<and> on_record F audit actor ''policy.auto_deprecate'' p
          \<and> (\<exists>successor g. approval le F actor successor \<and> Saw g \<in> F
               \<and> find_approved_prior le successor g = Some p))"

text \<open>\<open>edit_of pr n\<close>: the primitive \<open>pr\<close> patches the node \<open>n\<close>, or adds a child to it.\<close>

fun edit_of :: "primitive \<Rightarrow> nodekey \<Rightarrow> bool" where
  "edit_of (MergeProperty l i ps) n \<longleftrightarrow> n = (l, i)"
| "edit_of (RemoveProperty l i ks) n \<longleftrightarrow> n = (l, i)"
| "edit_of (UpsertEdge t i s d ps) n \<longleftrightarrow> n = ref_key s"
| "edit_of (UpsertNode l i ps e) n \<longleftrightarrow>
     (\<exists>title. l = ''Standard'' \<and> fst n = ''Policy'' \<and> i = standard_id (snd n) title
            \<or> l = ''Control'' \<and> fst n = ''Standard'' \<and> i = control_id (snd n) title)"
| "edit_of _ n \<longleftrightarrow> False"

definition saw_context :: "lifecycle_env \<Rightarrow> fact set \<Rightarrow> principal \<Rightarrow> nodekey \<Rightarrow> lifecycle_context \<Rightarrow> bool" where
  "saw_context le F actor n ctx \<longleftrightarrow>
     (\<exists>g. Saw g \<in> F \<and>
        ((\<exists>r. fst n = ''Policy'' \<and> read_policy_tree le (snd n) g = Some r \<and> ctx = context_of actor ''edit'' r)
       \<or> (\<exists>row. fst n = ''Standard'' \<and> find_standard_with_parent le (snd n) g = Some row \<and> ctx = standard_context actor row)
       \<or> (\<exists>row. fst n = ''Control'' \<and> find_control_with_parent le (snd n) g = Some row \<and> ctx = control_context actor row)))"

definition edit_allowed :: "fact set \<Rightarrow> lifecycle_context \<Rightarrow> bool" where
  "edit_allowed F ctx \<longleftrightarrow> require_status ctx
     \<and> (require_owner ctx
        \<or> (\<exists>roles. Held (lc_actor ctx) roles \<in> F \<and> roles \<inter> draft_visibility_override_roles \<noteq> {}))"

definition edit_earned :: "lifecycle_env \<Rightarrow> fact set \<Rightarrow> primitive \<Rightarrow> bool" where
  "edit_earned le F pr \<longleftrightarrow>
     (\<exists>actor n ctx. edit_of pr n \<and> saw_context le F actor n ctx \<and> edit_allowed F ctx)"

definition backfill_earned :: "lifecycle_env \<Rightarrow> fact set \<Rightarrow> primitive \<Rightarrow> bool" where
  "backfill_earned le F pr \<longleftrightarrow>
     (\<exists>g p q. Saw g \<in> F \<and> q \<in> set (backfill_primitives le p g) \<and> model_validate q = Some pr)"

definition prim_earned :: "lifecycle_env \<Rightarrow> fact set \<Rightarrow> string option \<Rightarrow> primitive \<Rightarrow> bool" where
  "prim_earned le F audit pr \<longleftrightarrow>
     (case policy_status_of pr of
        Some (p, v) \<Rightarrow> status_earned le F audit p v
      | None \<Rightarrow> audit = None \<longrightarrow> backfill_earned le F pr \<or> edit_earned le F pr)"

definition group_earned :: "lifecycle_env \<Rightarrow> fact set \<Rightarrow> mutation_group \<Rightarrow> bool" where
  "group_earned le F grp \<longleftrightarrow> (\<forall>pr \<in> set (mg_primitives grp). prim_earned le F (mg_audit_event_id grp) pr)"

text \<open>What the gateway is given besides: a valid group of the policy graph.\<close>

definition sound_group :: "lifecycle_env \<Rightarrow> fact set \<Rightarrow> mutation_group \<Rightarrow> bool" where
  "sound_group le F grp \<longleftrightarrow> group_earned le F grp \<and> mg_graph grp = le_graph le \<and> valid_group grp"

section \<open>Facts only accumulate\<close>

named_theorems later \<open>what facts justify, more facts justify\<close>

lemma saw_policy_later [later]: "saw_policy le F p R \<Longrightarrow> F \<subseteq> F' \<Longrightarrow> saw_policy le F' p R"
  unfolding saw_policy_def by blast

lemma on_record_later [later]: "on_record F audit actor action p \<Longrightarrow> F \<subseteq> F' \<Longrightarrow> on_record F' audit actor action p"
  unfolding on_record_def by blast

lemma enforced_later [later]: "enforced F name actor \<Longrightarrow> F \<subseteq> F' \<Longrightarrow> enforced F' name actor"
  unfolding enforced_def by blast

lemma approval_later [later]: "approval le F actor p \<Longrightarrow> F \<subseteq> F' \<Longrightarrow> approval le F' actor p"
  unfolding approval_def by (blast intro: later)

lemma saw_context_later [later]: "saw_context le F actor n ctx \<Longrightarrow> F \<subseteq> F' \<Longrightarrow> saw_context le F' actor n ctx"
  unfolding saw_context_def by (elim exE conjE) (intro exI conjI, erule (1) subsetD [rotated])

lemma edit_allowed_later [later]: "edit_allowed F ctx \<Longrightarrow> F \<subseteq> F' \<Longrightarrow> edit_allowed F' ctx"
  unfolding edit_allowed_def by blast

lemma edit_earned_later [later]: "edit_earned le F pr \<Longrightarrow> F \<subseteq> F' \<Longrightarrow> edit_earned le F' pr"
  unfolding edit_earned_def using saw_context_later edit_allowed_later by meson

lemma backfill_earned_later [later]: "backfill_earned le F pr \<Longrightarrow> F \<subseteq> F' \<Longrightarrow> backfill_earned le F' pr"
  unfolding backfill_earned_def by blast

lemma status_earned_later [later]:
  assumes "status_earned le F audit p v" "F \<subseteq> F'"
  shows "status_earned le F' audit p v"
proof -
  note l = saw_policy_later [OF _ assms(2)] on_record_later [OF _ assms(2)] enforced_later [OF _ assms(2)]
    approval_later [OF _ assms(2)] subsetD [OF assms(2)]
  from assms(1) show ?thesis
    unfolding status_earned_def by (elim exE, intro exI) (elim disjE conjE exE; simp add: l; blast intro: l)
qed

lemma prim_earned_later [later]: "prim_earned le F audit pr \<Longrightarrow> F \<subseteq> F' \<Longrightarrow> prim_earned le F' audit pr"
  using status_earned_later backfill_earned_later edit_earned_later
  unfolding prim_earned_def by (metis (mono_tags, lifting) option.case_eq_if prod.case_eq_if)

section \<open>Groups of validated primitives\<close>

lemma those_Some: "those xs = Some ys \<longleftrightarrow> xs = map Some ys"
  by (induction xs arbitrary: ys) (auto split: option.splits simp: Cons_eq_map_conv)

lemma validated_member:
  "those (map model_validate ps) = Some qs \<Longrightarrow> q \<in> set qs \<Longrightarrow> \<exists>p \<in> set ps. model_validate p = Some q"
  unfolding those_Some by (metis (no_types, opaque_lifting) image_iff list.set_map)

lemma validated_props: "valid_props reserved ps = Some ps' \<Longrightarrow> ps' = dict_map to_list ps"
  by (auto simp: valid_props_def validate_property_map_def split: sum.splits)

lemma validated_status:
  "model_validate p = Some q \<Longrightarrow> policy_status_of q = map_option (\<lambda>(i, v). (i, to_list v)) (policy_status_of p)"
  by (cases p) (auto split: if_splits simp: map_of_dict_map option.map_comp comp_def dest!: validated_props)

lemma group_earnedI:
  assumes "\<And>pr. pr \<in> set ps \<Longrightarrow> prim_earned le F a pr"
  shows "group_earned le F (lifecycle_group le ps a pre)"
  using assms by (simp add: group_earned_def lifecycle_group_def)

lemma prim_earnedI:
  "policy_status_of pr = None \<Longrightarrow> (a = None \<Longrightarrow> backfill_earned le F pr \<or> edit_earned le F pr) \<Longrightarrow> prim_earned le F a pr"
  by (simp add: prim_earned_def)

lemma linked_earnedI: "policy_status_of pr = None \<Longrightarrow> prim_earned le F (Some i) pr"
  by (simp add: prim_earned_def)

text \<open>A Python dict has no key twice; neither have the properties FalkorDB reports.\<close>

definition le_ok :: "lifecycle_env \<Rightarrow> bool" where
  "le_ok le \<longleftrightarrow> (\<forall>m. dict_ok (le_props le m))"

definition dicts :: "primitive list \<Rightarrow> bool" where
  "dicts ps \<longleftrightarrow> list_all (\<lambda>p. dict_ok (prim_props p)) ps"

lemma dicts_simps [simp]: "dicts []" "dicts (p # ps) \<longleftrightarrow> dict_ok (prim_props p) \<and> dicts ps"
    "dicts (ps @ qs) \<longleftrightarrow> dicts ps \<and> dicts qs"
  by (simp_all add: dicts_def)

lemma validated_wf:
  assumes "those (map model_validate ps) = Some qs" "dicts ps"
  shows "list_all wf_primitive qs"
  unfolding list_all_iff
proof
  fix q assume "q \<in> set qs"
  from validated_member [OF assms(1) this] obtain p where p: "p \<in> set ps" "model_validate p = Some q" by blast
  then have "dict_ok (prim_props p)" using assms(2) by (auto simp: dicts_def list_all_iff)
  with p(2) have "dict_ok (prim_props q)" by (cases p) (auto split: if_splits dest!: validated_props)
  with model_validate_idem [OF p(2)] show "wf_primitive q" by (simp add: wf_primitive_def)
qed

lemma earns_submit:
  assumes "group_earned le F (lifecycle_group le ps a pre)" "list_all wf_primitive ps" "\<And>r. Q F r"
  shows "earns (lifecycle_submit le b ps a pre) (sound_group le) Q F"
proof -
  have "sound_group le F (lifecycle_group le ps a pre)" if "ps \<noteq> []" "non_blank (le_graph le)"
    using that assms(1,2) by (simp add: sound_group_def valid_group_def lifecycle_group_def)
  then show ?thesis
    using assms(3)
    by (auto simp: lifecycle_submit_def submit_or_raise_def intro!: earns_stamped earns_caught_up split: sum.splits)
qed

lemma dict_ok_one [simp]: "dict_ok [x]" "dict_ok []"
  by (simp_all add: dict_ok_def)

lemma dict_ok_filter: "dict_ok d \<Longrightarrow> dict_ok (filter P d)"
  by (simp add: dict_ok_def distinct_map_filter)

lemma dict_ok_update [simp]: "dict_ok d \<Longrightarrow> dict_ok (AList.update k v d)"
  by (simp add: dict_ok_def distinct_update)

lemma dicts_map: "(\<And>x. x \<in> set xs \<Longrightarrow> dict_ok (prim_props (f x))) \<Longrightarrow> dicts (map f xs)"
  by (simp add: dicts_def list_all_iff)

lemma dicts_concat: "(\<And>x. x \<in> set xs \<Longrightarrow> dicts (f x)) \<Longrightarrow> dicts (concat (map f xs))"
  by (induction xs) auto

lemma dicts_status [simp]: "dicts (map (status_merge v) ns)"
  by (rule dicts_map) (simp add: status_merge_def split: prod.split)

lemma dicts_backfill [simp]: "dicts (backfill_primitives le p g)"
  by (simp add: backfill_primitives_def Let_def)

lemma dicts_cascade [simp]: "dicts (cascade_primitives le p v g)"
  by (simp add: cascade_primitives_def split: option.split)

lemma dicts_repoint [simp]: "dicts (repoint_edges p prior caps)"
  by (simp add: repoint_edges_def dicts_map lifecycle_edge_def)

lemma dicts_child [simp]: "dict_ok ps \<Longrightarrow> dicts (child_primitives parent label i ps t)"
  by (simp add: child_primitives_def lifecycle_edge_def)

lemma dicts_patch [simp]: "dict_ok patch \<Longrightarrow> dicts (patch_primitives label i patch)"
  by (simp add: patch_primitives_def Let_def dict_ok_filter)

definition draft_dicts :: "standard_draft \<Rightarrow> bool" where
  "draft_dicts sd \<longleftrightarrow> dict_ok (sd_extra sd) \<and> list_all (\<lambda>c. dict_ok (cd_extra c)) (sd_controls sd)"

lemma dicts_new_policy:
  assumes "list_all draft_dicts standards"
  shows "dicts (new_policy_primitives p title owner standards supersedes version)"
proof -
  have "dicts (standard_primitives r sd)" if "sd \<in> set standards" for sd r
    using that assms
    by (auto simp: standard_primitives_def standard_properties_def control_properties_def draft_dicts_def list_all_iff
        intro!: dicts_concat)
  moreover have "dict_ok [(''title'', a), (''status'', b), (''version'', c), (''owner_subject'', d), (''owner_issuer'', e)]"
    for a b c d e :: pyval by (simp add: dict_ok_def)
  ultimately show ?thesis
    by (auto simp: new_policy_primitives_def lifecycle_edge_def split: option.split intro!: dicts_concat)
qed

lemma dict_ok_supplied [simp]: "dict_ok d \<Longrightarrow> dict_ok (supplied_properties i d)"
proof -
  assume "dict_ok d"
  then have "dict_ok (filter (\<lambda>(k, v). v \<noteq> PNone) d)" by (rule dict_ok_filter)
  then show ?thesis
    by (auto simp: supplied_properties_def dict_setdefault_def dict_ok_def map_of_eq_None_iff split: option.split)
qed

lemma built_dicts: "draft_dicts (build_standard_draft p inp)"
  by (simp add: build_standard_draft_def draft_dicts_def Let_def list_all_iff)

lemma forked_dicts:
  assumes "le_ok le" "those (map (fork_standard p) (read_policy_tree_for_fork le prior g)) = Some ds"
  shows "list_all draft_dicts ds"
proof -
  have props: "dict_ok (all_properties le g n)" for n using assms(1) by (simp add: all_properties_def le_ok_def)
  define ok where "ok s \<longleftrightarrow> dict_ok (fs_props s) \<and> (\<forall>c \<in> set (fs_controls s). dict_ok (fc_props c))" for s :: forked_standard
  define good where "good d \<longleftrightarrow> (\<forall>(k, s) \<in> set d. ok s)" for d :: "(string, forked_standard) dict"
  have update: "good (AList.update k v d)" if "good d" "ok v" for k v d
    using that set_update_cases unfolding good_def by fastforce
  have step: "good (add_fork_row le g row d)" if "good d" for row d
  proof -
    obtain s c where row: "row = (s, c)" by (cases row)
    have "ok (case map_of d s of None \<Rightarrow> new_forked_standard le g s | Some a \<Rightarrow> a)"
    proof (cases "map_of d s")
      case None
      then show ?thesis by (simp add: ok_def new_forked_standard_def Let_def props)
    next
      case (Some a)
      with that map_of_SomeD [OF Some] show ?thesis by (auto simp: good_def)
    qed
    then show ?thesis
      unfolding row add_fork_row.simps Let_def
      by (intro update that) (auto simp: ok_def forked_control_of_def Let_def props split: option.split)
  qed
  have "good (run_ops (add_fork_row le g) (fork_rows le g prior) [])"
  proof (rule run_ops_invariant [where I = good])
    show "good []" by (simp add: good_def)
  qed (rule step)
  then have all: "dict_ok (fs_props s) \<and> (\<forall>c \<in> set (fs_controls s). dict_ok (fc_props c))"
    if "s \<in> set (read_policy_tree_for_fork le prior g)" for s
    using that by (auto simp: read_policy_tree_for_fork_def good_def ok_def)
  have one: "draft_dicts sd" if "fork_standard p s = Some sd" "s \<in> set (read_policy_tree_for_fork le prior g)" for s sd
  proof -
    from that(1) obtain title cs where t: "text_of (fs_title s) = Some title"
      "those (map (fork_control (standard_id p title)) (fs_controls s)) = Some cs"
      "sd_extra sd = without_keys forked_standard_stripped_keys (fs_props s)" "sd_controls sd = cs"
      by (auto simp: fork_standard_def Let_def split: option.splits)
    have "dict_ok (cd_extra c)" if "c \<in> set cs" for c
    proof -
      from t(2) have "map (fork_control (standard_id p title)) (fs_controls s) = map Some cs"
        by (simp add: those_Some)
      with that obtain fc where "fc \<in> set (fs_controls s)" "fork_control (standard_id p title) fc = Some c"
        by (metis (no_types, opaque_lifting) image_iff list.set_map)
      with all [OF \<open>s \<in> _\<close>] show ?thesis by (auto simp: fork_control_def without_keys_def dict_ok_filter)
    qed
    with t(3,4) all [OF that(2)] show ?thesis
      by (auto simp: draft_dicts_def list_all_iff without_keys_def dict_ok_filter)
  qed
  from assms(2) have "map (fork_standard p) (read_policy_tree_for_fork le prior g) = map Some ds"
    by (simp add: those_Some)
  then have "\<exists>s \<in> set (read_policy_tree_for_fork le prior g). fork_standard p s = Some d" if "d \<in> set ds" for d
    using that by (metis (no_types, opaque_lifting) image_iff list.set_map)
  then have "draft_dicts d" if "d \<in> set ds" for d using that one by blast
  then show ?thesis by (simp add: list_all_iff)
qed

section \<open>Reads before an operation\<close>

lemma set_dict_fromkeys [simp]: "set (dict_fromkeys xs) = set xs"
  by (simp add: dict_fromkeys_def)

lemma row_nodes_labels: "n \<in> set (row_nodes r) \<Longrightarrow> fst n \<noteq> policy_label"
  by (cases r) (auto simp: policy_label_def split: option.splits)

lemma backfill_no_status:
  assumes "q \<in> set (backfill_primitives le p g)" shows "policy_status_of q = None"
proof -
  from assms consider "q = MergeProperty ''Policy'' p [(''version'', PStr ''1'')]"
    | n r where "n \<in> set (row_nodes r)" "q = status_merge (node_property g (''Policy'', p) ''status'') n"
    by (auto simp: backfill_primitives_def Let_def split: if_splits)
  then show ?thesis
    by cases (auto simp: status_merge_def policy_label_def split: prod.splits dest: row_nodes_labels [unfolded policy_label_def])
qed

lemma earns_backfill:
  assumes later: "\<And>F' r. F \<subseteq> F' \<Longrightarrow> Q F' r"
  shows "earns (backfill_governance_status le p) (sound_group le) Q F"
proof -
  have "prim_earned le (insert (Saw g) F) None pr"
    if "those (map model_validate (backfill_primitives le p g)) = Some qs" "pr \<in> set qs" for g qs pr
  proof -
    from validated_member [OF that] obtain q where
      q: "q \<in> set (backfill_primitives le p g)" "model_validate q = Some pr" by blast
    from q(1) have "policy_status_of q = None" by (rule backfill_no_status)
    with validated_status [OF q(2)] have "policy_status_of pr = None" by simp
    moreover have "backfill_earned le (insert (Saw g) F) pr" using q by (auto simp: backfill_earned_def)
    ultimately show ?thesis by (simp add: prim_earnedI)
  qed
  then show ?thesis
    unfolding backfill_governance_status_def
    by (auto split: option.splits intro!: earns_submit group_earnedI later validated_wf)
qed

lemma earns_read_target:
  assumes "\<And>F' e. F \<subseteq> F' \<Longrightarrow> Q F' (Inl e)"
    and "\<And>F' g r. F \<subseteq> F' \<Longrightarrow> Saw g \<in> F' \<Longrightarrow> read_policy_tree le p g = Some r \<Longrightarrow> Q F' (Inr r)"
  shows "earns (read_transition_target le p) (sound_group le) Q F"
  unfolding read_transition_target_def earns_next
  by (rule earns_backfill)
    (auto split: option.splits intro!: assms(1) intro: assms(2) elim: subset_insertI2)

lemma earns_read_backfilled:
  assumes "\<And>F' e. F \<subseteq> F' \<Longrightarrow> Q F' (Inl e)"
    and "\<And>F' g row. F \<subseteq> F' \<Longrightarrow> Saw g \<in> F' \<Longrightarrow> query g = Some row \<Longrightarrow> Q F' (Inr row)"
  shows "earns (read_backfilled le missing query policy_of) (sound_group le) Q F"
proof -
  have "earns (backfill_governance_status le (policy_of row)) (sound_group le)
      (\<lambda>F' r. (\<forall>e. r = Inl e \<longrightarrow> Q F' (Inl e)) \<and>
        (\<forall>x. r = Inr x \<longrightarrow> earns (next_do (ask_graph query)
          (\<lambda>refreshed. case refreshed of None \<Rightarrow> fail missing | Some row' \<Rightarrow> give row')) (sound_group le) Q F'))
      (insert (Saw g) F)" for row g
    by (rule earns_backfill)
      (auto split: option.splits intro!: assms(1) intro: assms(2) elim: subset_insertI2)
  then show ?thesis
    unfolding read_backfilled_def by (auto split: option.splits intro!: assms(1))
qed

section \<open>Transitions\<close>

lemma earns_record_row [simp]:
  "earns (record_row ev) P Q F \<longleftrightarrow>
     (\<forall>e. Q F (Inl (Audit_refused e))) \<and> (\<forall>i. Q (insert (Recorded ev i) F) (Inr ()))"
  by (auto simp: record_row_def)

lemma earns_or_failed:
  assumes "earns m P (\<lambda>F' r. \<forall>F'' r'. F' \<subseteq> F'' \<longrightarrow> (r' = r \<or> (\<exists>e. r' = Inl e)) \<longrightarrow> Q F'' r') F"
  shows "earns (or_failed_row failed m) P Q F"
  unfolding or_failed_row_def earns_on_error
  by (rule earns_mono [OF assms]) (auto split: option.splits intro: subset_insertI2)

lemma earns_gates:
  assumes "\<And>F' e. F \<subseteq> F' \<Longrightarrow> Q F' (Inl e)" "list_all tg_allowed gates \<Longrightarrow> Q F (Inr ())"
  shows "earns (check_gates actor p spec gates) P Q F"
  using assms by (induction gates) (auto intro!: assms(1))

lemma read_tree_id: "read_policy_tree le p g = Some r \<Longrightarrow> pol_id r = p"
  by (auto simp: read_policy_tree_def Let_def split: list.splits)

lemma cascade_status_of:
  assumes "q \<in> set (cascade_primitives le p v g)"
  shows "policy_status_of q = None \<or> policy_status_of q = Some (p, PStr v)"
proof (cases "read_policy_tree le p g")
  case (Some r)
  with assms read_tree_id [OF Some] show ?thesis
    by (auto simp: cascade_primitives_def tree_nodes_def status_merge_def policy_label_def)
qed (use assms in \<open>simp add: cascade_primitives_def\<close>)

lemma group_earned_append [simp]:
  "group_earned le F (lifecycle_group le (ps @ qs) a pre) \<longleftrightarrow>
     group_earned le F (lifecycle_group le ps a pre) \<and> group_earned le F (lifecycle_group le qs a pre)"
  by (auto simp: group_earned_def lifecycle_group_def)

lemma cascade_earned:
  assumes "status_earned le F (Some i) p (PStr v)"
    and "those (map model_validate (cascade_primitives le p v g)) = Some qs"
  shows "group_earned le F (lifecycle_group le qs (Some i) pre)"
proof (rule group_earnedI)
  fix pr assume "pr \<in> set qs"
  from validated_member [OF assms(2) this] obtain q where
    q: "q \<in> set (cascade_primitives le p v g)" "model_validate q = Some pr" by blast
  from cascade_status_of [OF q(1)] validated_status [OF q(2)] assms(1) show "prim_earned le F (Some i) pr"
    by (auto simp: prim_earned_def)
qed

lemma repoint_no_status: "q \<in> set (repoint_edges p prior caps) \<Longrightarrow> policy_status_of q = None"
  by (auto simp: repoint_edges_def lifecycle_edge_def)

lemma repoint_earned:
  assumes "those (map model_validate (repoint_edges p prior caps)) = Some qs"
  shows "group_earned le F (lifecycle_group le qs (Some i) pre)"
  using validated_member [OF assms] validated_status repoint_no_status
  by (intro group_earnedI linked_earnedI) fastforce

lemma earns_write_cascade:
  assumes "\<And>F'. F \<subseteq> F' \<Longrightarrow> status_earned le F' (Some i) p (PStr v)" "\<And>F' r. F \<subseteq> F' \<Longrightarrow> Q F' r"
  shows "earns (write_cascade le p v rp i) (sound_group le) Q F"
proof (cases rp)
  case None
  then show ?thesis
    by (auto simp: write_cascade_def cascade_status_def read_cascade_def split: option.splits
        intro!: earns_submit assms cascade_earned validated_wf)
next
  case (Some r)
  then show ?thesis
    by (auto simp: write_cascade_def approve_fork_repoint_def read_cascade_def split: option.splits
        intro!: earns_caught_up earns_position earns_stamped earns_unless_stale earns_submit assms(2)
        intro: validated_wf [OF _ dicts_cascade] validated_wf [OF _ dicts_repoint] repoint_earned cascade_earned [OF assms(1)])
qed

lemma earns_cascade_with_audit:
  assumes "\<And>F' i. F \<subseteq> F' \<Longrightarrow> on_record F' (Some i) actor (ts_action spec) p
      \<Longrightarrow> status_earned le F' (Some i) p (PStr (ts_target spec))"
    and "\<And>F' r. F \<subseteq> F' \<Longrightarrow> Q F' r"
  shows "earns (cascade_with_audit le actor p spec affected rp) (sound_group le) Q F"
proof -
  have more: "F \<subseteq> F'" if "insert x F \<subseteq> F'" for x F' using that by blast
  have rec: "on_record F' (Some i) actor (ts_action spec) p"
    if "insert (Recorded (policy_event actor (ts_action spec) p Effect_applied d) i) F \<subseteq> F'" for i d F'
    using that unfolding on_record_def by blast
  show ?thesis
    unfolding cascade_with_audit_def Let_def
    by (auto intro!: assms(2) earns_or_failed earns_write_cascade assms(1) intro: more rec)
qed

lemma earns_apply_transition:
  assumes "\<And>F' i. F \<subseteq> F' \<Longrightarrow> list_all tg_allowed gates \<Longrightarrow> on_record F' (Some i) actor (ts_action spec) p
      \<Longrightarrow> status_earned le F' (Some i) p (PStr (ts_target spec))"
    and "\<And>F' r. F \<subseteq> F' \<Longrightarrow> Q F' r"
  shows "earns (apply_transition le actor p spec affected gates) (sound_group le) Q F"
  unfolding apply_transition_def
  by (auto intro!: earns_gates earns_cascade_with_audit assms)

lemma saw_policyI: "Saw g \<in> F \<Longrightarrow> read_policy_tree le p g = Some r \<Longrightarrow> R r \<Longrightarrow> saw_policy le F p R"
  unfolding saw_policy_def by blast

lemma earns_propose: "earns (propose_policy le actor p) (sound_group le) (\<lambda>F r. True) F"
proof -
  have "status_earned le F'' (Some i) p (PStr ''proposed'')"
    if "Saw g \<in> F''" "read_policy_tree le p g = Some r" "require_owner (context_of actor ''propose'' r)"
      "require_status (context_of actor ''propose'' r)" "standard_ids r \<noteq> []"
      "on_record F'' (Some i) actor ''policy.propose'' p" for F'' g r i
    using that saw_policyI [OF that(1,2), where R = "\<lambda>r. ownership actor ''propose'' r \<and> standard_ids r \<noteq> []"]
    unfolding status_earned_def ownership_def by blast
  then show ?thesis
    unfolding propose_policy_def Let_def earns_next
    by (intro earns_read_target)
      (auto simp: owner_gate_def status_gate_def intro!: earns_apply_transition dest: subsetD)
qed

lemma earns_revert: "earns (revert_policy_to_draft le actor p) (sound_group le) (\<lambda>F r. True) F"
proof -
  have "status_earned le F'' (Some i) p (PStr ''draft'')"
    if "Saw g \<in> F''" "read_policy_tree le p g = Some r" "require_owner (context_of actor ''revert'' r)"
      "require_status (context_of actor ''revert'' r)" "on_record F'' (Some i) actor ''policy.revert'' p" for F'' g r i
    using that saw_policyI [OF that(1,2), where R = "ownership actor ''revert''"]
    unfolding status_earned_def ownership_def by blast
  then show ?thesis
    unfolding revert_policy_to_draft_def Let_def earns_next
    by (intro earns_read_target)
      (auto simp: owner_gate_def status_gate_def intro!: earns_apply_transition dest: subsetD)
qed

lemma earns_enforcer:
  assumes "\<And>F' e. F \<subseteq> F' \<Longrightarrow> Q F' (Inl e)" "\<And>F'. F \<subseteq> F' \<Longrightarrow> enforced F' name p \<Longrightarrow> Q F' (Inr ())"
  shows "earns (lifecycle_role_enforcer name a p) P Q F"
  unfolding lifecycle_role_enforcer_def
  by (auto intro!: assms simp: enforced_def)

lemma earns_reject:
  "earns (reject_policy le (lifecycle_role_enforcer ''reject-policy'' a) actor p) (sound_group le) (\<lambda>F r. True) F"
proof -
  have earned: "status_earned le F3 (Some i) p (PStr ''draft'')"
    if "Saw g \<in> F1" "read_policy_tree le p g = Some r" "F1 \<subseteq> F2" "enforced F2 ''reject-policy'' actor" "F2 \<subseteq> F3"
      "on_record F3 (Some i) actor ''policy.reject'' p" "block_self_approval (context_of actor ''reject'' r)"
      "require_status (context_of actor ''reject'' r)" for F1 F2 F3 g r i
  proof -
    have "Saw g \<in> F3" using that(1,3,5) by blast
    then have "saw_policy le F3 p (review actor ''reject'')"
      using that(2,7,8) by (intro saw_policyI) (simp_all add: review_def)
    moreover have "enforced F3 ''reject-policy'' actor" by (rule enforced_later [OF that(4,5)])
    ultimately show ?thesis using that(6) unfolding status_earned_def by blast
  qed
  then show ?thesis
    unfolding reject_policy_def Let_def earns_next
    by (intro earns_read_target)
      (auto simp: self_gate_def status_gate_def intro!: earns_enforcer earns_apply_transition
        intro: earned)
qed

lemma earns_auto_deprecate:
  assumes "approval le F actor p"
  shows "earns (auto_deprecate le actor p) (sound_group le) (\<lambda>F r. True) F"
proof -
  have "status_earned le F' (Some i) q (PStr ''deprecated'')"
    if "insert (Saw g) F \<subseteq> F'" "find_approved_prior le p g = Some q"
      "on_record F' (Some i) actor ''policy.auto_deprecate'' q" for F' g q i
  proof -
    from that(1) assms have "approval le F' actor p" by (auto intro: later)
    moreover from that(1) have "Saw g \<in> F'" by blast
    ultimately show ?thesis using that(2,3) unfolding status_earned_def
      by (intro exI [of _ actor] disjI2 conjI) (simp, assumption, intro exI conjI, assumption+)
  qed
  then show ?thesis
    unfolding auto_deprecate_def
    by (auto split: option.splits intro!: earns_cascade_with_audit)
qed

lemma earns_approve:
  "earns (approve_policy le (lifecycle_role_enforcer ''approve-policy'' a) actor p) (sound_group le) (\<lambda>F r. True) F"
proof -
  have ok: "approval le F2 actor p"
    if "Saw g \<in> F1" "read_policy_tree le p g = Some r" "F1 \<subseteq> F2" "enforced F2 ''approve-policy'' actor"
      "block_self_approval (context_of actor ''approve'' r)" "require_status (context_of actor ''approve'' r)"
    for F1 F2 g r
  proof -
    have "Saw g \<in> F2" using that(1,3) by blast
    then have "saw_policy le F2 p (review actor ''approve'')"
      using that(2,5,6) by (intro saw_policyI) (simp_all add: review_def)
    with that(4) show ?thesis by (simp add: approval_def)
  qed
  have acts: "earns (cascade_with_audit le actor p \<lparr>ts_action = ''policy.approve'', ts_from = v, ts_target = ''approved''\<rparr>
        affected rp) (sound_group le)
      (\<lambda>F r. r = Inr () \<longrightarrow> earns (auto_deprecate le actor p) (sound_group le) (\<lambda>F r. True) F) (insert x F2)"
    if "approval le F2 actor p" for F2 x v rp affected
  proof (rule earns_cascade_with_audit)
    fix F' i assume "insert x F2 \<subseteq> F'"
    then have a: "approval le F' actor p" using that by (auto intro: approval_later)
    then show "r = Inr () \<longrightarrow> earns (auto_deprecate le actor p) (sound_group le) (\<lambda>F r. True) F'"
      for r :: "(lifecycle_error, unit) result"
      by (simp add: earns_auto_deprecate)
    assume "on_record F' (Some i) actor (ts_action \<lparr>ts_action = ''policy.approve'', ts_from = v, ts_target = ''approved''\<rparr>) p"
    with a show "status_earned le F' (Some i) p
        (PStr (ts_target \<lparr>ts_action = ''policy.approve'', ts_from = v, ts_target = ''approved''\<rparr>))"
      by (cases actor) (auto simp: status_earned_def)
  qed
  show ?thesis
    unfolding approve_policy_def Let_def earns_next read_repoint_def
    by (intro earns_read_target)
      (auto simp: self_gate_def status_gate_def intro!: earns_enforcer earns_gates acts intro: ok)
qed

section \<open>Drafts\<close>

lemma draft_status_of:
  assumes "q \<in> set (new_policy_primitives p title owner standards supersedes version)"
  shows "policy_status_of q = None \<or> policy_status_of q = Some (p, PStr ''draft'')"
  using assms
  by (auto simp: new_policy_primitives_def standard_primitives_def child_primitives_def lifecycle_edge_def
      policy_label_def split: option.splits)

lemma draft_earned:
  assumes "status_earned le F (Some i) p (PStr ''draft'')"
    and "those (map model_validate (new_policy_primitives p title owner standards supersedes version)) = Some qs"
  shows "group_earned le F (lifecycle_group le qs (Some i) pre)"
proof (rule group_earnedI)
  fix pr assume "pr \<in> set qs"
  from validated_member [OF assms(2) this] obtain q where
    q: "q \<in> set (new_policy_primitives p title owner standards supersedes version)" "model_validate q = Some pr"
    by blast
  from draft_status_of [OF q(1)] validated_status [OF q(2)] assms(1) show "prim_earned le F (Some i) pr"
    by (auto simp: prim_earned_def)
qed

lemma claim_earned:
  assumes "those (map (model_validate \<circ> (\<lambda>c. lifecycle_edge t (s c) d)) caps) = Some qs"
  shows "group_earned le F (lifecycle_group le qs (Some i) pre)"
proof (rule group_earnedI)
  fix pr assume "pr \<in> set qs"
  with assms validated_member [of "map (\<lambda>c. lifecycle_edge t (s c) d) caps" qs pr] obtain c
    where "model_validate (lifecycle_edge t (s c) d) = Some pr" by auto
  from validated_status [OF this] show "prim_earned le F (Some i) pr"
    by (intro linked_earnedI) (simp add: lifecycle_edge_def)
qed

lemma claim_wf:
  "those (map (model_validate \<circ> (\<lambda>c. lifecycle_edge t (s c) d)) caps) = Some qs \<Longrightarrow> list_all wf_primitive qs"
  by (rule validated_wf [of "map (\<lambda>c. lifecycle_edge t (s c) d) caps"])
    (simp_all add: dicts_map lifecycle_edge_def)

lemma earns_write_new:
  assumes "list_all draft_dicts (np_standards np)" "Saw g \<in> F" "find_existing_policy (np_id np) g = None"
    and "\<And>F' r. F \<subseteq> F' \<Longrightarrow> Q F' r"
  shows "earns (write_new_policy le actor np) (sound_group le) Q F"
proof -
  have earned: "status_earned le F' (Some i) (np_id np) (PStr ''draft'')"
    if "insert (Recorded (policy_event actor ''policy.create_draft'' (np_id np) Effect_applied d) i) F \<subseteq> F'"
    for F' i d
  proof -
    from that have "on_record F' (Some i) actor ''policy.create_draft'' (np_id np)"
      unfolding on_record_def by blast
    moreover from that assms(2) have "Saw g \<in> F'" by blast
    ultimately show ?thesis using assms(3) unfolding status_earned_def by blast
  qed
  have more: "F \<subseteq> F'" if "insert x F \<subseteq> F'" for x F' using that by blast
  show ?thesis
    unfolding write_new_policy_def create_claimed_policy_draft_def write_policy_draft_def create_primitives_def
    by (rule earns_or_failed)
      (auto split: option.splits
        intro!: assms(4) earns_caught_up earns_position earns_stamped earns_unless_stale earns_submit
        intro: more draft_earned [OF earned] claim_earned claim_wf validated_wf [OF _ dicts_new_policy [OF assms(1)]])
qed

lemma earns_create:
  assumes "le_ok le"
  shows "earns (create_policy_draft le actor title inputs supersedes caps) (sound_group le) (\<lambda>F r. True) F"
proof -
  have claims: "earns (validate_capability_claims le actor p cs) P Q F"
    if "\<And>F' r. F \<subseteq> F' \<Longrightarrow> Q F' r" for p cs P Q F
    unfolding validate_capability_claims_def record_create_draft_def Let_def
    by (auto intro!: that)
  have version: "earns (new_version_for le supersedes) (sound_group le) Q F"
    if "\<And>F' r. F \<subseteq> F' \<Longrightarrow> Q F' r" for Q F
    unfolding new_version_for_def
    by (auto split: option.splits intro!: earns_read_target that)
  have forked: "earns (build_forked_standard_drafts le p prior) P Q F"
    if "\<And>F' e. F \<subseteq> F' \<Longrightarrow> Q F' (Inl e)" "\<And>F' ds. F \<subseteq> F' \<Longrightarrow> list_all draft_dicts ds \<Longrightarrow> Q F' (Inr ds)" for p prior P Q F
    unfolding build_forked_standard_drafts_def
    by (auto split: option.split intro!: that intro: forked_dicts [OF assms])
  have built: "list_all draft_dicts (map (build_standard_draft p) inputs)" for p
    by (simp add: list_all_iff built_dicts)
  show ?thesis
    unfolding create_policy_draft_def Let_def record_create_draft_def earns_next
    by (rule version) (auto intro!: claims forked built earns_write_new simp del: not_None_eq)
qed

section \<open>Edits\<close>

lemma edit_of_validated: "model_validate p = Some q \<Longrightarrow> edit_of q n = edit_of p n"
  by (cases p) (auto split: if_splits)

lemma earns_authorize:
  assumes "\<And>F' e. F \<subseteq> F' \<Longrightarrow> Q F' (Inl e)" "\<And>F'. F \<subseteq> F' \<Longrightarrow> edit_allowed F' ctx \<Longrightarrow> Q F' (Inr ())"
  shows "earns (authorize_draft_edit ctx) P Q F"
  unfolding authorize_draft_edit_def
  by (auto intro!: assms simp: edit_allowed_def) (metis disjoint_iff insertI1)

lemma edits_earned:
  assumes "saw_context le F actor n ctx" "edit_allowed F ctx"
    and "those (map model_validate ps) = Some qs"
    and "\<And>q. q \<in> set ps \<Longrightarrow> policy_status_of q = None \<and> edit_of q n"
  shows "group_earned le F (lifecycle_group le qs None pre)"
proof (rule group_earnedI)
  fix pr assume "pr \<in> set qs"
  from validated_member [OF assms(3) this] obtain q where q: "q \<in> set ps" "model_validate q = Some pr" by blast
  with assms(4) validated_status [OF q(2)] edit_of_validated [OF q(2)]
  have "policy_status_of pr = None" "edit_of pr n" by auto
  moreover have "edit_earned le F pr" unfolding edit_earned_def using calculation(2) assms(1,2) by blast
  ultimately show "prim_earned le F None pr" by (simp add: prim_earned_def)
qed

lemma patch_edits:
  assumes "label = ''Policy'' \<longrightarrow> ''status'' \<notin> fst ` set patch" "q \<in> set (patch_primitives label i patch)"
  shows "policy_status_of q = None \<and> edit_of q (label, i)"
proof -
  have "map_of (filter (\<lambda>(k, v). v \<noteq> PNone) patch) ''status'' = None" if "''status'' \<notin> fst ` set patch"
    using that by (auto simp: map_of_eq_None_iff)
  with assms show ?thesis
    by (auto simp: patch_primitives_def Let_def policy_label_def split: if_splits)
qed

lemma earns_update:
  assumes "saw_context le F actor (label, i) ctx" "edit_allowed F ctx"
    and "label = ''Policy'' \<longrightarrow> ''status'' \<notin> fst ` set patch" "dict_ok patch" "\<And>r. Q F r"
  shows "earns (update_fields le label i patch) (sound_group le) Q F"
  unfolding update_fields_def
  by (auto split: option.splits intro!: assms(5) earns_submit edits_earned [OF assms(1,2)] patch_edits [OF assms(3)]
      intro: validated_wf [OF _ dicts_patch [OF assms(4)]])

lemma earns_add_child:
  assumes "saw_context le F actor (pl, i) ctx" "edit_allowed F ctx"
    and "edit_of (UpsertNode label c ps None) (pl, i)" "\<And>r. Q F r" "label \<noteq> policy_label" "dict_ok ps"
  shows "earns (add_child le (node_ref_of pl i) label c ps t) (sound_group le) Q F"
proof -
  let ?ps = "child_primitives (node_ref_of pl i) label c ps t"
  have "policy_status_of q = None \<and> edit_of q (pl, i)" if "q \<in> set ?ps" for q
    using that assms(3,5)
    by (auto simp: child_primitives_def lifecycle_edge_def node_ref_of_def ref_key_def simp del: edit_of.simps(4))
  then show ?thesis
    unfolding add_child_def
    by (auto split: option.splits intro!: assms(4) earns_submit edits_earned [OF assms(1,2), of ?ps]
        intro: validated_wf [OF _ dicts_child [OF assms(6)]])
qed

lemma earns_edit_policy:
  assumes "\<And>F' g r. saw_context le F' actor (''Policy'', p) (context_of actor ''edit'' r)
      \<Longrightarrow> edit_allowed F' (context_of actor ''edit'' r) \<Longrightarrow> earns (body r) (sound_group le) (\<lambda>F r. True) F'"
  shows "earns (next_do (read_transition_target le p) (\<lambda>r.
      next_do (authorize_draft_edit (context_of actor ''edit'' r)) (\<lambda>_. body r))) (sound_group le) (\<lambda>F r. True) F"
proof -
  have "saw_context le F' actor (''Policy'', p) (context_of actor ''edit'' r)"
    if "Saw g \<in> F0" "F0 \<subseteq> F'" "read_policy_tree le p g = Some r" for F0 F' g r
    using that unfolding saw_context_def by auto
  then show ?thesis
    by (auto intro!: earns_read_target earns_authorize intro: assms)
qed

lemma earns_edit_standard:
  assumes "\<And>F' g r. saw_context le F' actor (''Standard'', s) (standard_context actor r)
      \<Longrightarrow> edit_allowed F' (standard_context actor r) \<Longrightarrow> earns (body r) (sound_group le) (\<lambda>F r. True) F'"
  shows "earns (next_do (read_standard_with_parent_backfilled le s) (\<lambda>r.
      next_do (authorize_draft_edit (standard_context actor r)) (\<lambda>_. body r))) (sound_group le) (\<lambda>F r. True) F"
proof -
  have "saw_context le F' actor (''Standard'', s) (standard_context actor r)"
    if "Saw g \<in> F0" "F0 \<subseteq> F'" "find_standard_with_parent le s g = Some r" for F0 F' g r
    using that unfolding saw_context_def by auto
  then show ?thesis
    by (auto simp: read_standard_with_parent_backfilled_def intro!: earns_read_backfilled earns_authorize intro: assms)
qed

lemma earns_edit_control:
  assumes "\<And>F' g r. saw_context le F' actor (''Control'', c) (control_context actor r)
      \<Longrightarrow> edit_allowed F' (control_context actor r) \<Longrightarrow> earns (body r) (sound_group le) (\<lambda>F r. True) F'"
  shows "earns (next_do (read_control_with_parent_backfilled le c) (\<lambda>r.
      next_do (authorize_draft_edit (control_context actor r)) (\<lambda>_. body r))) (sound_group le) (\<lambda>F r. True) F"
proof -
  have "saw_context le F' actor (''Control'', c) (control_context actor r)"
    if "Saw g \<in> F0" "F0 \<subseteq> F'" "find_control_with_parent le c g = Some r" for F0 F' g r
    using that unfolding saw_context_def by auto
  then show ?thesis
    by (auto simp: read_control_with_parent_backfilled_def intro!: earns_read_backfilled earns_authorize intro: assms)
qed

section \<open>Every call of the service\<close>

text \<open>
  What the MCP tools let through: a patch of a policy names content fields only, never its status
  (\<^verbatim>\<open>mcp_interface/draft_input_models.py\<close> derives them from the schema).
\<close>

fun lifecycle_call_ok :: "lifecycle_call \<Rightarrow> bool" where
  "lifecycle_call_ok (Call_update_policy a p patch) \<longleftrightarrow> dict_ok patch \<and> ''status'' \<notin> fst ` set patch"
| "lifecycle_call_ok (Call_add_standard a p title extra) \<longleftrightarrow> dict_ok extra"
| "lifecycle_call_ok (Call_update_standard a s patch) \<longleftrightarrow> dict_ok patch"
| "lifecycle_call_ok (Call_add_control a s title kind extra) \<longleftrightarrow> dict_ok extra"
| "lifecycle_call_ok (Call_update_control a c patch) \<longleftrightarrow> dict_ok patch"
| "lifecycle_call_ok _ \<longleftrightarrow> True"

lemma earns_service:
  assumes "lifecycle_call_ok c" "le_ok le"
  shows "earns (lifecycle_service le c) (sound_group le) (\<lambda>F r. True) F"
proof -
  have answer: "earns (answering h m) P (\<lambda>F r. True) F" if "earns m P (\<lambda>F r. True) F"
    for h :: "'x \<Rightarrow> lifecycle_answer" and m :: "'x lifecycle" and P F
    unfolding answering_def earns_next by (rule earns_mono [OF that]) simp
  have own_id: "\<exists>t. h x = h t" for h :: "string \<Rightarrow> string" and x by blast
  show ?thesis
  proof (cases c)
    case (Call_read p)
    have "earns (get_policy le p) (sound_group le) (\<lambda>F r. True) F"
      by (auto simp: get_policy_def intro!: earns_read_target)
    with Call_read answer show ?thesis by simp
  next
    case (Call_update_policy a p patch)
    with assms show ?thesis
      by (auto simp: update_policy_draft_def intro!: answer earns_edit_policy earns_update)
  next
    case (Call_add_standard a p title extra)
    with assms show ?thesis
      by (auto simp: add_standard_to_draft_def add_standard_to_policy_def policy_label_def own_id
          intro!: answer earns_edit_policy earns_add_child)
  next
    case (Call_update_standard a s patch)
    with assms show ?thesis by (auto simp: update_standard_draft_def intro!: answer earns_edit_standard earns_update)
  next
    case (Call_add_control a s title kind extra)
    with assms show ?thesis
      by (auto simp: add_control_to_draft_def add_control_to_standard_def policy_label_def own_id
          intro!: answer earns_edit_standard earns_add_child)
  next
    case (Call_update_control a k patch)
    with assms show ?thesis by (auto simp: update_control_draft_def intro!: answer earns_edit_control earns_update)
  qed (simp_all add: answer earns_create [OF assms(2)] earns_propose earns_approve earns_reject earns_revert)
qed

end
