(* ===== verification/Policy_System.thy ===== *)
theory Policy_System
  imports Policy_Laws Gateway_Submit
begin

text \<open>
  The policy lifecycle as it runs: any number of requests, each taking one step at a time with any
  outcome, among recoveries and restarts of the gateway, writes to other graphs, and changes of roles and
  other audit rows.  The whole past is part of the state, so that what justified a write can be stated
  of the states in which it was read.
\<close>

section \<open>Facts are true of the past\<close>

primrec true_fact :: "policy_env \<Rightarrow> governance set \<Rightarrow> fact \<Rightarrow> bool" where
  "true_fact env past (Saw g) \<longleftrightarrow> (\<exists>gv \<in> past. w_graphs (gv_world gv) (pe_graph env) = g)"
| "true_fact env past (Recorded ev i) \<longleftrightarrow>
     (\<exists>gv \<in> past. \<exists>j d. j < length (audit_trail (gv_access gv)) \<and> i = pe_event_id env j
        \<and> audit_trail (gv_access gv) ! j = ev\<lparr>ev_details := d\<rparr>)"
| "true_fact env past (Held p roles) \<longleftrightarrow>
     (\<exists>gv \<in> past. \<exists>fs. fst (run_request (resolve_active_roles p) (pe_config env) fs (gv_access gv)) = Inr roles)"
| "true_fact env past (Enforced g p a) \<longleftrightarrow>
     (\<exists>gv \<in> past. \<exists>fs. fst (run_request (enforce_role_gate g (Some p) a) (pe_config env) fs (gv_access gv)) = Inr ())"

definition truths :: "policy_env \<Rightarrow> governance list \<Rightarrow> fact set" where
  "truths env past = {f. true_fact env (set past) f}"

lemma true_fact_later: "true_fact env past f \<Longrightarrow> past \<subseteq> past' \<Longrightarrow> true_fact env past' f"
  by (cases f) (auto; blast)+

lemma truths_later: "set past \<subseteq> set past' \<Longrightarrow> truths env past \<subseteq> truths env past'"
  by (auto simp: truths_def intro: true_fact_later)

section \<open>The system\<close>

type_synonym lifecycle_system = "governance list \<times> lifecycle_answer lifecycle list"

text \<open>
  The latest state is the first of the past.  Other writers, ingestion and graph cleanup, submit any group to
  any other graph, and to the policy graph \<open>g\<close> groups that are linked to an audit row and set no policy's
  status.  The writers that do set one, company merge, the import of the internal seed and restores, do not run.
\<close>

fun by_others :: "string \<Rightarrow> gateway_call \<Rightarrow> bool" where
  "by_others g (Submit grp) \<longleftrightarrow> valid_group grp
     \<and> (mg_graph grp = g \<longrightarrow> mg_audit_event_id grp \<noteq> None
          \<and> list_all (\<lambda>pr. policy_status_of pr = None) (mg_primitives grp))"
| "by_others g (Submit_Multi audit legs by_swap) \<longleftrightarrow> False"
| "by_others g (Stamp_Legacy h audit) \<longleftrightarrow> non_blank h"
| "by_others g _ \<longleftrightarrow> True"

inductive lifecycle_step :: "lifecycle_env \<Rightarrow> policy_env \<Rightarrow> lifecycle_system \<Rightarrow> lifecycle_system \<Rightarrow> bool" for le env where
  arrives: "lifecycle_call_ok c \<Longrightarrow> lifecycle_step le env (past, rs) (past, rs @ [lifecycle_service le c])"
| proceeds: "i < length rs \<Longrightarrow> serve_policy env os fs (rs ! i) gv = (q, gv') \<Longrightarrow>
    lifecycle_step le env (gv # past, rs) (gv' # gv # past, rs[i := q])"
| gateway_call: "by_others (pe_graph env) c \<Longrightarrow>
    lifecycle_step le env (gv # past, rs)
      (gv\<lparr>gv_world := after_call (pe_gateway env) c ((gv_world gv)\<lparr>w_faults := os\<rparr>)\<rparr> # gv # past, rs)"
| restarts: "lifecycle_step le env (gv # past, rs) (gv\<lparr>gv_world := restarted (gv_world gv)\<rparr> # gv # past, rs)"
| reconciles: "lifecycle_step le env (gv # past, rs)
    (gv\<lparr>gv_world := (gv_world gv)\<lparr>w_reconciling := gs\<rparr>\<rparr> # gv # past, rs)"
| others_record: "prefix (audit_trail (gv_access gv)) (audit_trail a) \<Longrightarrow>
    lifecycle_step le env (gv # past, rs)
      (gv\<lparr>gv_access := a, gv_world := run_ops audited ids (gv_world gv)\<rparr> # gv # past, rs)"

inductive lifecycle_run :: "lifecycle_env \<Rightarrow> policy_env \<Rightarrow> lifecycle_system \<Rightarrow> lifecycle_system \<Rightarrow> bool" for le env where
  begins: "lifecycle_run le env y y"
| goes_on: "lifecycle_run le env y z \<Longrightarrow> lifecycle_step le env z z' \<Longrightarrow> lifecycle_run le env y z'"

inductive_cases lifecycle_stepE: "lifecycle_step le env y z"

definition first_governance :: "(string \<Rightarrow> graph) \<Rightarrow> governance" where
  "first_governance base = \<lparr>gv_world = first_world base [], gv_access = empty_access\<rparr>"

section \<open>What is in the log\<close>

definition entry_earned :: "lifecycle_env \<Rightarrow> fact set \<Rightarrow> log_store \<Rightarrow> log_entry \<Rightarrow> bool" where
  "entry_earned le F s en \<longleftrightarrow>
     is_stamp (entry_prim en)
     \<or> (\<exists>row \<in> set (ls_groups s). gr_id row = en_group en \<and> gr_graph row = en_graph en
          \<and> prim_earned le F (gr_audit row) (entry_prim en))"

definition log_earned :: "lifecycle_env \<Rightarrow> fact set \<Rightarrow> log_store \<Rightarrow> bool" where
  "log_earned le F s \<longleftrightarrow> (\<forall>en \<in> set (ls_entries s). en_graph en = le_graph le \<longrightarrow> entry_earned le F s en)"

lemma log_earned_later: "log_earned le F s \<Longrightarrow> F \<subseteq> F' \<Longrightarrow> log_earned le F' s"
  unfolding log_earned_def entry_earned_def by (meson prim_earned_later)

lemma log_earned_rows: "log_earned le F s \<Longrightarrow> same_rows s s' \<Longrightarrow> log_earned le F s'"
  by (simp add: log_earned_def entry_earned_def same_rows_def)

lemma entry_rows_facts:
  assumes "en \<in> set (entry_rows g n gid (map encode_primitive ps))" "list_all wf_primitive ps"
  shows "en_graph en = g \<and> en_group en = gid \<and> entry_prim en \<in> set ps"
  using assms
proof (induction ps arbitrary: n)
  case (Cons p ps)
  have "entry_prim (recorded g n gid (encode_primitive p)) = p"
    using Cons.prems(2) by (simp add: entry_prim_def decode_encode wf_primitive_def)
  with Cons show ?case by (auto simp: recorded_def)
qed simp

lemma earned_more_groups:
  "entry_earned le F s en \<Longrightarrow> set (ls_groups s) \<subseteq> set (ls_groups s') \<Longrightarrow> entry_earned le F s' en"
  unfolding entry_earned_def by blast

lemma logged_wf:
  assumes "group_logged grp kept s s'" "valid_group grp"
  shows "list_all wf_primitive kept" "set kept \<subseteq> set (mg_primitives grp)"
proof -
  from assms(1) have "subseq kept (mg_primitives grp)" by (simp add: group_logged_def)
  then show "set kept \<subseteq> set (mg_primitives grp)" by (auto elim: list_emb_set)
  with assms(2) show "list_all wf_primitive kept" by (auto simp: valid_group_def list_all_iff)
qed

lemma group_logged_earned:
  assumes "group_logged grp kept s s'" "valid_group grp" "log_earned le F s"
    and "mg_graph grp = le_graph le \<Longrightarrow> group_earned le F grp"
  shows "log_earned le F s'"
proof -
  note wf = logged_wf [OF assms(1,2)]
  from assms(1) obtain gid where
    es: "ls_entries s' = ls_entries s
        @ entry_rows (mg_graph grp) (Suc (last_position (mg_graph grp) s)) gid (map encode_primitive kept)"
    and gs: "\<exists>row. ls_groups s' = ls_groups s @ [row] \<and> gr_id row = gid \<and> gr_graph row = mg_graph grp
        \<and> gr_audit row = mg_audit_event_id grp"
    by (auto simp: group_logged_def)
  from gs obtain row where row: "ls_groups s' = ls_groups s @ [row]" "gr_id row = gid"
    "gr_graph row = mg_graph grp" "gr_audit row = mg_audit_event_id grp" by blast
  have "entry_earned le F s' en" if "en \<in> set (ls_entries s')" "en_graph en = le_graph le" for en
  proof (cases "en \<in> set (ls_entries s)")
    case True
    with assms(3) that(2) have "entry_earned le F s en" by (simp add: log_earned_def)
    then show ?thesis by (rule earned_more_groups) (auto simp: row(1))
  next
    case False
    with that(1) es entry_rows_facts [OF _ wf(1)]
    have en: "en_graph en = mg_graph grp" "en_group en = gid" "entry_prim en \<in> set kept" by auto
    with that(2) assms(4) wf(2) have "prim_earned le F (mg_audit_event_id grp) (entry_prim en)"
      by (auto simp: group_earned_def)
    with en row show ?thesis unfolding entry_earned_def by (intro disjI2 bexI [of _ row]) simp_all
  qed
  then show ?thesis by (simp add: log_earned_def)
qed

text \<open>The legacy stamp logs stamps only.\<close>

definition stamps_only :: "log_store \<Rightarrow> log_store \<Rightarrow> bool" where
  "stamps_only s0 s \<longleftrightarrow> set (ls_groups s0) \<subseteq> set (ls_groups s)
     \<and> (\<exists>es. ls_entries s = ls_entries s0 @ es \<and> (\<forall>en \<in> set es. is_stamp (entry_prim en)))"

definition stamping_world :: "gateway_env \<Rightarrow> (string \<Rightarrow> graph) \<Rightarrow> log_store \<Rightarrow> world \<Rightarrow> bool" where
  "stamping_world env base s0 w \<longleftrightarrow> settings_ok (ge_settings env) \<and> world_ok base w \<and> stamps_only s0 (w_log w)"

lemma stamps_only_rows: "stamps_only s0 s \<Longrightarrow> same_rows s s' \<Longrightarrow> stamps_only s0 s'"
  by (simp add: stamps_only_def same_rows_def)

lemma stamps_only_earned: "log_earned le F s0 \<Longrightarrow> stamps_only s0 s \<Longrightarrow> log_earned le F s"
  unfolding log_earned_def stamps_only_def
  by (metis Un_iff earned_more_groups entry_earned_def set_append)

interpretation stamping: staging_invariant "stamping_world env base s0" env for env base s0
proof
  fix w w' g before r
  show "stamping_world env base s0 w \<Longrightarrow> settings_ok (ge_settings env)" by (simp add: stamping_world_def)
  show "stamping_world env base s0 w'" if "stamping_world env base s0 w" "memory_only w w'"
    using that world_ok_memory [OF that(2), of base] by (simp add: stamping_world_def memory_only_def)
  show "stamping_world env base s0 w'"
    if "stamping_world env base s0 w" "apply_pending (ge_settings env) g before w = (r, w')"
    using that(1) apply_pending_keeps(1) [OF that(2), of base]
      stamps_only_rows [OF _ pending_rows [OF that(2), of base], of s0]
    by (simp add: stamping_world_def)
qed

lemma submit_world_ok:
  assumes "submit_group env grp w = (r, w')" "settings_ok (ge_settings env)" "world_ok base w" "valid_group grp"
    and "no_swaps (w_log w)"
  shows "world_ok base w'"
proof -
  have "sound_world env base (w_log w) w" using assms(2,3,5) by (simp add: sound_world_def)
  moreover have "list_all wf_primitive (mg_primitives grp)" using assms(4) by (simp add: valid_group_def)
  ultimately have "sound_world env base (w_log w) w'"
    using preservesD [OF sound.preserves_submit _ assms(1)] by blast
  then show ?thesis by (simp add: sound_world_def)
qed

lemma submit_rows:
  assumes "submit_group env grp w = (r, w')" "settings_ok (ge_settings env)" "world_ok base w" "valid_group grp"
  shows "same_rows (w_log w) (w_log w') \<or> (\<exists>kept. group_logged grp kept (w_log w) (w_log w'))"
proof (cases "require_open (w_gate w) (mg_graph grp)")
  case (Inl e)
  with assms(1) have "w' = w"
    by (auto simp: submit_group_def gate_open_def bind_op_def lift_result_def raise_op_def)
  then show ?thesis by simp
next
  case (Inr u)
  with assms(1) have "submit_locked env grp w = (r, w')"
    by (simp add: submit_group_def gate_open_def bind_op_def lift_result_def return_op_def)
  from submit_locked_result [OF this assms(3,2,4)] show ?thesis by (auto split: sum.splits if_splits)
qed

lemma stamps_logged:
  assumes "group_logged grp kept s s'" "valid_group grp" "list_all is_stamp (mg_primitives grp)" "stamps_only s0 s"
  shows "stamps_only s0 s'"
proof -
  note wf = logged_wf [OF assms(1,2)]
  from assms(1) obtain gid row where
    es: "ls_entries s' = ls_entries s
        @ entry_rows (mg_graph grp) (Suc (last_position (mg_graph grp) s)) gid (map encode_primitive kept)"
    and gs: "ls_groups s' = ls_groups s @ [row]"
    by (auto simp: group_logged_def)
  have "is_stamp (entry_prim en)"
    if "en \<in> set (entry_rows (mg_graph grp) (Suc (last_position (mg_graph grp) s)) gid (map encode_primitive kept))" for en
    using entry_rows_facts [OF that wf(1)] wf(2) assms(3) by (auto simp: list_all_iff)
  with assms(4) es gs show ?thesis unfolding stamps_only_def by fastforce
qed

lemma preserves_stamp_group:
  assumes "valid_group grp" "list_all is_stamp (mg_primitives grp)"
  shows "preserves (\<lambda>w. stamping_world env base s0 w \<and> no_swaps (w_log w)) (submit_group env grp) (\<lambda>_. True)"
proof (rule preservesI)
  fix w r w'
  assume w: "stamping_world env base s0 w \<and> no_swaps (w_log w)" and run: "submit_group env grp w = (r, w')"
  then have ok: "settings_ok (ge_settings env)" "world_ok base w" "stamps_only s0 (w_log w)" "no_swaps (w_log w)"
    by (simp_all add: stamping_world_def)
  from submit_rows [OF run ok(1,2) assms(1)] stamps_logged [OF _ assms] stamps_only_rows [OF ok(3)] ok(3)
  have "stamps_only s0 (w_log w')" by blast
  moreover have "world_ok base w'" by (rule submit_world_ok [OF run ok(1,2) assms(1) ok(4)])
  moreover from submit_rows [OF run ok(1,2) assms(1)] ok(4) have "no_swaps (w_log w')"
    by (auto simp: no_swaps_def same_rows_def group_logged_def)
  ultimately show "(stamping_world env base s0 w' \<and> no_swaps (w_log w')) \<and> (\<forall>x. r = Inr x \<longrightarrow> True)"
    using ok(1) by (simp add: stamping_world_def)
qed

interpretation stamped: staging_invariant "\<lambda>w. stamping_world env base s0 w \<and> no_swaps (w_log w)" env for env base s0
proof
  fix w w' g before r
  show "stamping_world env base s0 w \<and> no_swaps (w_log w) \<Longrightarrow> settings_ok (ge_settings env)"
    by (simp add: stamping_world_def)
  show "stamping_world env base s0 w' \<and> no_swaps (w_log w')"
    if "stamping_world env base s0 w \<and> no_swaps (w_log w)" "memory_only w w'"
    using that stamping.memory [of env base s0 w w'] by (simp add: memory_only_def)
  show "stamping_world env base s0 w' \<and> no_swaps (w_log w')"
    if "stamping_world env base s0 w \<and> no_swaps (w_log w)" "apply_pending (ge_settings env) g before w = (r, w')"
    using that(1) stamping.pending [OF _ that(2), of base s0] pending_rows [OF that(2), of base]
    by (auto simp: no_swaps_def same_rows_def stamping_world_def)
qed

lemma preserves_legacy_stamp:
  assumes "non_blank g"
  shows "preserves (\<lambda>w. stamping_world env base s0 w \<and> no_swaps (w_log w))
    (stamp_legacy_edge_identity env g audit) (\<lambda>_. True)"
proof -
  have found: "preserves (\<lambda>w. stamping_world env base s0 w \<and> no_swaps (w_log w))
      (graph_call g (\<lambda>x. (scan_unidentified_edges (ge_layout env x) scan_chunk_rows, x))) (\<lambda>_. True)"
    by (intro stamped.preserves_graph_read) simp
  have group: "valid_group \<lparr>mg_graph = g, mg_audit_event_id = audit,
        mg_primitives = map (\<lambda>(t, s, d). legacy_edge_stamp t s d) edges,
        mg_preconditions = [], mg_checkpoint_requested = False\<rparr>
      \<and> list_all is_stamp (map (\<lambda>(t, s, d). legacy_edge_stamp t s d) edges)"
    if "list_all buildable (map (\<lambda>(t, s, d). legacy_edge_stamp t s d) edges)" "edges \<noteq> []" for edges
    using that assms
    by (auto simp: valid_group_def list_all_iff buildable_def wf_primitive_def dict_ok_def legacy_edge_stamp_def)
  have "preserves (\<lambda>w. stamping_world env base s0 w \<and> no_swaps (w_log w)) (backfill_edge_identity env g audit) (\<lambda>_. True)"
    unfolding backfill_edge_identity_def
    by (rule preserves_bind [OF found])
      (auto intro!: keep preserves_stamp_group group [THEN conjunct1] group [THEN conjunct2, simplified] split: option.split)
  then show ?thesis
    unfolding stamp_legacy_edge_identity_def
    by (auto intro!: keep stamped.preserves_gate stamped.preserves_is_caught_up stamped.preserves_catch_up
        simp: sanitize_redis_def split: if_splits)
qed

section \<open>Steps keep the log earned\<close>

lemma sound_group_later: "sound_group le F grp \<Longrightarrow> F \<subseteq> F' \<Longrightarrow> sound_group le F' grp"
  unfolding sound_group_def group_earned_def by (meson prim_earned_later)

lemma earns_more:
  assumes "earns q (sound_group le) (\<lambda>F r. True) F" "F \<subseteq> F'"
  shows "earns q (sound_group le) (\<lambda>F r. True) F'"
  using assms
proof (induction q arbitrary: F F')
  case (Ended x)
  show ?case by simp
next
  case (Ask_graph k)
  note ih = Ask_graph.IH [OF rangeI]
  from Ask_graph.prems show ?case by (simp add: ih insert_mono) (blast intro: ih insert_mono)?
next
  case (Ask_submit grp k)
  note ih = Ask_submit.IH [OF rangeI]
  from Ask_submit.prems show ?case by (simp add: ih insert_mono) (blast intro: sound_group_later ih insert_mono)?
next
  case (Ask_caught_up k)
  note ih = Ask_caught_up.IH [OF rangeI]
  from Ask_caught_up.prems show ?case by (simp add: ih insert_mono) (blast intro: ih insert_mono)?
next
  case (Ask_stamp a k)
  note ih = Ask_stamp.IH [OF rangeI]
  from Ask_stamp.prems show ?case by (simp add: ih insert_mono) (blast intro: ih insert_mono)?
next
  case (Ask_position k)
  note ih = Ask_position.IH [OF rangeI]
  from Ask_position.prems show ?case by (simp add: ih insert_mono) (blast intro: ih insert_mono)?
next
  case (Ask_audit_row ev k)
  note ih = Ask_audit_row.IH [OF rangeI]
  from Ask_audit_row.prems show ?case by (simp add: ih insert_mono) (blast intro: ih insert_mono)?
next
  case (Ask_active_roles p k)
  note ih = Ask_active_roles.IH [OF rangeI]
  from Ask_active_roles.prems show ?case by (simp add: ih insert_mono) (blast intro: ih insert_mono)?
next
  case (Ask_manager g p a k)
  note ih = Ask_manager.IH [OF rangeI]
  from Ask_manager.prems show ?case by (simp add: ih insert_mono) (blast intro: ih insert_mono)?
qed

lemma call_rows:
  assumes "settings_ok (ge_settings env)" "world_ok base w" "no_swaps (w_log w)" "log_earned le F (w_log w)"
    and "by_others (le_graph le) c"
  shows "log_earned le F (w_log (after_call env c w))"
proof -
  have start: "unwritten_world env base (w_log w) w" using assms(1,2) by (simp add: unwritten_world_def)
  have rows: "log_earned le F (w_log (snd (m w)))" if "preserves (unwritten_world env base (w_log w)) m Q"
    for m :: "'x op" and Q
  proof -
    obtain r w' where run: "m w = (r, w')" by (cases "m w")
    have "same_rows (w_log w) (w_log w')"
      using preservesD [OF that start run] by (simp add: unwritten_world_def)
    with assms(4) run log_earned_rows show ?thesis by simp
  qed
  show ?thesis
  proof (cases c)
    case (Submit grp)
    obtain r w' where run: "submit_group env grp w = (r, w')" by (cases "submit_group env grp w")
    from Submit assms(5) have grp: "valid_group grp" "mg_graph grp = le_graph le \<Longrightarrow> group_earned le F grp"
      by (auto simp: group_earned_def prim_earned_def list_all_iff)
    from submit_rows [OF run assms(1,2) grp(1)] show ?thesis
    proof (elim disjE exE)
      assume "same_rows (w_log w) (w_log w')"
      with assms(4) log_earned_rows Submit run show ?thesis by simp
    next
      fix kept assume "group_logged grp kept (w_log w) (w_log w')"
      from group_logged_earned [OF this grp(1) assms(4) grp(2)] Submit run show ?thesis by simp
    qed
  next
    case (Submit_Multi audit legs by_swap)
    with assms(5) show ?thesis by simp
  next
    case (Stamp_Legacy g audit)
    obtain r w' where run: "stamp_legacy_edge_identity env g audit w = (r, w')"
      by (cases "stamp_legacy_edge_identity env g audit w")
    from Stamp_Legacy assms(5) have "non_blank g" by simp
    moreover have start: "stamping_world env base (w_log w) w" using assms(1,2) by (simp add: stamping_world_def stamps_only_def)
    ultimately have "stamps_only (w_log w) (w_log w')"
      using preservesD [OF preserves_legacy_stamp [of g env base "w_log w"] _ run] assms(3)
      by (simp add: stamping_world_def)
    with stamps_only_earned [OF assms(4)] Stamp_Legacy run show ?thesis by simp
  qed (simp_all add: rows [OF unwritten.preserves_catch_up] rows [OF unwritten.preserves_recover]
      rows [OF unwritten.preserves_is_caught_up] rows [OF unwritten.preserves_read_position]
      rows [OF unwritten.preserves_read_elements])
qed

lemma graph_read_only:
  assumes "graph_call g (\<lambda>x. (x, x)) w = (r, w')"
  shows "\<exists>fs. w' = w\<lparr>w_faults := fs\<rparr>" "\<And>x. r = Inr x \<Longrightarrow> x = w_graphs w g"
proof -
  obtain f v where n: "next_outcome w = (f, v)" by (cases "next_outcome w")
  from next_outcome_only [OF n] obtain fs where v: "v = w\<lparr>w_faults := fs\<rparr>" by (auto simp: outcomes_only_def)
  show "\<exists>fs. w' = w\<lparr>w_faults := fs\<rparr>" "\<And>x. r = Inr x \<Longrightarrow> x = w_graphs w g"
    using assms n v by (auto simp: graph_call_def Let_def simp del: next_outcome.simps split: outcome.splits)
qed

definition lifecycle_ok :: "lifecycle_env \<Rightarrow> policy_env \<Rightarrow> bool" where
  "lifecycle_ok le env \<longleftrightarrow>
     settings_ok (ge_settings (pe_gateway env)) \<and> le_ok le \<and> le_graph le = pe_graph env \<and> non_blank (pe_graph env)"

definition world_run :: "policy_env \<Rightarrow> (string \<Rightarrow> graph) \<Rightarrow> governance \<Rightarrow> bool" where
  "world_run env base gv \<longleftrightarrow> (gateway_step (pe_gateway env))\<^sup>*\<^sup>* (first_world base []) (gv_world gv)"

lemma world_runD:
  assumes "lifecycle_ok le env" "world_run env base gv"
  shows "settings_ok (ge_settings (pe_gateway env))" "world_ok base (gv_world gv)" "no_swaps (w_log (gv_world gv))"
proof -
  show s: "settings_ok (ge_settings (pe_gateway env))" using assms(1) by (simp add: lifecycle_ok_def)
  show "world_ok base (gv_world gv)" "no_swaps (w_log (gv_world gv))"
    using first_run [OF s assms(2) [unfolded world_run_def]] by simp_all
qed

lemma world_run_call:
  "world_run env base gv \<Longrightarrow> valid_call c \<Longrightarrow> gv_world gv' = after_call (pe_gateway env) c ((gv_world gv)\<lparr>w_faults := os\<rparr>)
     \<Longrightarrow> world_run env base gv'"
  unfolding world_run_def
  by (auto intro: rtranclp.rtrancl_into_rtrancl [OF rtranclp.rtrancl_into_rtrancl] gateway_step.Environment
      gateway_step.Call)

lemma faulted_ok: "world_ok base (w\<lparr>w_faults := os\<rparr>) = world_ok base w"
  by (intro world_ok_memory) (simp add: memory_only_def)

definition step_ok :: "lifecycle_env \<Rightarrow> policy_env \<Rightarrow> (string \<Rightarrow> graph) \<Rightarrow> governance list \<Rightarrow> governance \<Rightarrow> bool" where
  "step_ok le env base past gv \<longleftrightarrow>
     world_run env base gv \<and> log_earned le (truths env past) (w_log (gv_world gv))"

lemma step_ok_call:
  assumes "lifecycle_ok le env" "step_ok le env base past gv" "by_others (pe_graph env) c" "valid_call c"
    and "gv_world gv' = after_call (pe_gateway env) c ((gv_world gv)\<lparr>w_faults := os\<rparr>)" "set past \<subseteq> set past'"
  shows "step_ok le env base past' gv'"
proof -
  from assms(2) have run: "world_run env base gv" and log: "log_earned le (truths env past) (w_log (gv_world gv))"
    by (simp_all add: step_ok_def)
  note ok = world_runD [OF assms(1) run]
  have "log_earned le (truths env past) (w_log (gv_world gv'))"
    unfolding assms(5)
    using call_rows [OF ok(1), of base "(gv_world gv)\<lparr>w_faults := os\<rparr>" le "truths env past" c] ok log assms(1,3)
    by (simp add: faulted_ok lifecycle_ok_def)
  then show ?thesis
    using world_run_call [OF run assms(4,5)] log_earned_later [OF _ truths_later [OF assms(6)]]
    by (simp add: step_ok_def)
qed

lemma step_ok_submit:
  assumes "lifecycle_ok le env" "step_ok le env base past gv" "sound_group le (truths env past) grp"
    and "submit_group (pe_gateway env) grp ((gv_world gv)\<lparr>w_faults := os\<rparr>) = (r, gv_world gv')" "set past \<subseteq> set past'"
  shows "step_ok le env base past' gv'"
proof -
  let ?w = "(gv_world gv)\<lparr>w_faults := os\<rparr>"
  from assms(2) have run: "world_run env base gv" and log: "log_earned le (truths env past) (w_log ?w)"
    by (simp_all add: step_ok_def)
  note ok = world_runD [OF assms(1) run]
  from assms(3) have grp: "valid_group grp" "group_earned le (truths env past) grp" by (simp_all add: sound_group_def)
  have "log_earned le (truths env past) (w_log (gv_world gv'))"
    using submit_rows [OF assms(4) ok(1) _ grp(1), of base] ok(2) log_earned_rows [OF log]
      group_logged_earned [OF _ grp(1) log grp(2)]
    by (auto simp: faulted_ok)
  moreover have "world_run env base gv'"
    by (rule world_run_call [OF run, of "Submit grp" gv' os]) (simp_all add: grp(1) assms(4))
  ultimately show ?thesis
    using log_earned_later [OF _ truths_later [OF assms(5)]] by (simp add: step_ok_def)
qed

lemma turn_world:
  assumes "gateway_turn os m gv = (q, gv')"
  shows "m ((gv_world gv)\<lparr>w_faults := os\<rparr>) = (q, gv_world gv')" "gv_access gv' = gv_access gv"
  using assms by (auto simp: gateway_turn_def split: prod.splits)

lemma step_ok_audit:
  assumes "lifecycle_ok le env" "step_ok le env base past gv" "audit_step env f ev gv = (q, gv')" "set past \<subseteq> set past'"
  shows "step_ok le env base past' gv'"
proof -
  have w: "gv_world gv' = gv_world gv \<or> (\<exists>a. gv_world gv' = audited a (gv_world gv))"
    using assms(3) by (auto simp: audit_step_def Let_def audited_def split: prod.splits if_splits)
  from w have "log_earned le (truths env past) (w_log (gv_world gv'))"
    using assms(2) by (auto simp: step_ok_def audited_def log_earned_def entry_earned_def)
  moreover from w have "world_run env base gv'"
    using assms(2) unfolding step_ok_def world_run_def
    by (elim disjE exE) (auto intro: run_audited)
  ultimately show ?thesis
    using log_earned_later [OF _ truths_later [OF assms(4)]] by (simp add: step_ok_def)
qed

lemma audit_fact:
  assumes "audit_step env f ev gv = (Inr i, gv')" "gv' \<in> set past"
  shows "Recorded ev i \<in> truths env past"
proof -
  let ?t = "audit_trail (gv_access gv)"
  obtain r t' where rec: "record_standalone (pe_registry env) f ev ?t = (r, t')"
    by (cases "record_standalone (pe_registry env) f ev ?t")
  with assms(1) have r: "r = Inr ()" "i = pe_event_id env (length ?t)"
    by (cases r; simp add: audit_step_def Let_def)+
  from record_standalone_written [of "pe_registry env" f ev ?t] rec r(1) obtain d where
    t': "t' = ?t @ [ev\<lparr>ev_details := d\<rparr>]" by auto
  have "audit_trail (gv_access gv') = t'"
    using assms(1) rec t' by (auto simp: audit_step_def Let_def split: if_splits)
  with t' r(2) have "true_fact env (set past) (Recorded ev i)"
    by (auto intro!: bexI [OF _ assms(2)] exI [of _ "length ?t"] exI [of _ d] simp: nth_append)
  then show ?thesis by (simp add: truths_def)
qed

lemma step_ok_same:
  "step_ok le env base past gv \<Longrightarrow> gv_world gv' = gv_world gv \<Longrightarrow> set past \<subseteq> set past' \<Longrightarrow> step_ok le env base past' gv'"
  using log_earned_later [OF _ truths_later] by (auto simp: step_ok_def world_run_def)

text \<open>An answer is a new truth of the state it was given in.\<close>

lemma earns_answer:
  assumes "\<forall>e. earns (k (Inl e)) (sound_group le) (\<lambda>F r. True) F"
    and "\<forall>x. earns (k (Inr x)) (sound_group le) (\<lambda>F r. True) (insert (f x) F)"
    and "\<And>x. r = Inr x \<Longrightarrow> f x \<in> F'" "F \<subseteq> F'"
  shows "earns (k r) (sound_group le) (\<lambda>F r. True) F'"
proof (cases r)
  case (Inl e)
  with earns_more [OF assms(1) [THEN spec] assms(4)] show ?thesis by simp
next
  case (Inr x)
  with assms(3,4) have "insert (f x) F \<subseteq> F'" by simp
  with earns_more [OF assms(2) [THEN spec]] Inr show ?thesis by simp
qed

lemma earns_keep:
  "\<forall>x. earns (k x) (sound_group le) (\<lambda>F r. True) F \<Longrightarrow> F \<subseteq> F' \<Longrightarrow> earns (k r) (sound_group le) (\<lambda>F r. True) F'"
  using earns_more by blast

lemma serve_ok:
  assumes "lifecycle_ok le env" "step_ok le env base (gv # past) gv"
    and "earns q (sound_group le) (\<lambda>F r. True) (truths env (gv # past))"
    and "serve_policy env os fs q gv = (q', gv')"
  shows "step_ok le env base (gv' # gv # past) gv'"
    and "earns q' (sound_group le) (\<lambda>F r. True) (truths env (gv' # gv # past))"
proof -
  let ?old = "gv # past" and ?new = "gv' # gv # past"
  have sub: "set ?old \<subseteq> set ?new" by auto
  note mono = truths_later [OF sub, of env]
  note answer = earns_answer [OF _ _ _ mono]
  have calls: "step_ok le env base ?new gv'"
    if "gateway_turn os m gv = (r, gv')" "by_others (pe_graph env) c" "valid_call c"
      "\<And>w. snd (m w) = after_call (pe_gateway env) c w" for m :: "'x op" and r c
  proof -
    have "gv_world gv' = snd (m ((gv_world gv)\<lparr>w_faults := os\<rparr>))" using turn_world(1) [OF that(1)] by simp
    with that(4) show ?thesis by (intro step_ok_call [OF assms(1,2) that(2,3) _ sub]) simp
  qed
  have "step_ok le env base ?new gv' \<and> earns q' (sound_group le) (\<lambda>F r. True) (truths env ?new)"
  proof (cases q)
    case (Ended x)
    with assms(4) have "gv' = gv" "q' = q" by auto
    with assms(2,3) earns_more [OF assms(3) mono] step_ok_same [OF assms(2) _ sub] show ?thesis by simp
  next
    case (Ask_graph k)
    then obtain r where run: "gateway_turn os (graph_call (pe_graph env) (\<lambda>x. (x, x))) gv = (r, gv')" "q' = k r"
      using assms(4) by (auto simp: apfst_def map_prod_def split: prod.splits)
    note w = turn_world [OF run(1)]
    note read = graph_read_only [OF w(1)]
    from read(1) obtain fs' where fs': "gv_world gv' = (gv_world gv)\<lparr>w_faults := fs'\<rparr>" by auto
    have "step_ok le env base ?new gv'"
      using assms(2) log_earned_later [OF _ mono] unfolding step_ok_def world_run_def fs'
      by (auto intro: rtranclp.rtrancl_into_rtrancl gateway_step.Environment)
    moreover have "Saw g \<in> truths env ?new" if "r = Inr g" for g
      using read(2) [OF that] by (auto simp: truths_def)
    ultimately show ?thesis
      using assms(3) Ask_graph run(2) answer [of k le Saw r] by simp
  next
    case (Ask_submit grp k)
    then obtain r where run: "gateway_turn os (submit_group (pe_gateway env) grp) gv = (r, gv')" "q' = k r"
      using assms(4) by (auto simp: apfst_def map_prod_def split: prod.splits)
    from assms(3) Ask_submit have grp: "sound_group le (truths env ?old) grp" by simp
    show ?thesis
      using step_ok_submit [OF assms(1,2) grp turn_world(1) [OF run(1)] sub] assms(3) Ask_submit run(2)
        earns_keep [OF _ mono, of k le r] by simp
  next
    case (Ask_caught_up k)
    then obtain r where run: "gateway_turn os (is_caught_up (pe_graph env)) gv = (r, gv')" "q' = k r"
      using assms(4) by (auto simp: apfst_def map_prod_def split: prod.splits)
    show ?thesis
      using calls [OF run(1), of "Is_Caught_Up (pe_graph env)"] assms(3) Ask_caught_up run(2)
        earns_keep [OF _ mono, of k le r] by simp
  next
    case (Ask_stamp a k)
    then obtain r where run:
      "gateway_turn os (stamp_legacy_edge_identity (pe_gateway env) (pe_graph env) a) gv = (r, gv')" "q' = k r"
      using assms(4) by (auto simp: apfst_def map_prod_def split: prod.splits)
    have "by_others (pe_graph env) (Stamp_Legacy (pe_graph env) a)" using assms(1) by (simp add: lifecycle_ok_def)
    then show ?thesis
      using calls [OF run(1), of "Stamp_Legacy (pe_graph env) a"] assms(3) Ask_stamp run(2)
        earns_keep [OF _ mono, of k le r] by simp
  next
    case (Ask_position k)
    then obtain r where run: "gateway_turn os (read_log_position (pe_gateway env) (pe_graph env)) gv = (r, gv')" "q' = k r"
      using assms(4) by (auto simp: apfst_def map_prod_def split: prod.splits)
    show ?thesis
      using calls [OF run(1), of "Read_Position (pe_graph env)"] assms(3) Ask_position run(2)
        earns_keep [OF _ mono, of k le r] by simp
  next
    case (Ask_audit_row ev k)
    then obtain r where run: "audit_step env (next_fate fs) ev gv = (r, gv')" "q' = k r"
      using assms(4) by (auto simp: apfst_def map_prod_def split: prod.splits)
    have "Recorded ev i \<in> truths env ?new" if "r = Inr i" for i
      using audit_fact [of env "next_fate fs" ev gv i gv' ?new] run(1) that by simp
    then show ?thesis
      using step_ok_audit [OF assms(1,2) run(1) sub] assms(3) Ask_audit_row run(2)
        answer [of k le "Recorded ev" r] by simp
  next
    case (Ask_active_roles p k)
    then obtain r where run: "access_step_of env fs (resolve_active_roles p) gv = (r, gv')" "q' = k r"
      using assms(4) by (auto simp: apfst_def map_prod_def split: prod.splits)
    then have r: "fst (run_request (resolve_active_roles p) (pe_config env) fs (gv_access gv)) = r"
        "gv_world gv' = gv_world gv"
      by (auto simp: access_step_of_def split: prod.splits)
    have "Held p rs \<in> truths env ?new" if "r = Inr rs" for rs using that r(1) by (auto simp: truths_def)
    then show ?thesis
      using step_ok_same [OF assms(2) r(2) sub] assms(3) Ask_active_roles run(2)
        answer [of k le "Held p" r] by simp
  next
    case (Ask_manager g p a k)
    then obtain r where run: "access_step_of env fs (enforce_role_gate g (Some p) a) gv = (r, gv')" "q' = k r"
      using assms(4) by (auto simp: apfst_def map_prod_def split: prod.splits)
    then have r: "fst (run_request (enforce_role_gate g (Some p) a) (pe_config env) fs (gv_access gv)) = r"
        "gv_world gv' = gv_world gv"
      by (auto simp: access_step_of_def split: prod.splits)
    have "Enforced g p a \<in> truths env ?new" if "r = Inr u" for u using that r(1) by (auto simp: truths_def)
    then show ?thesis
      using step_ok_same [OF assms(2) r(2) sub] assms(3) Ask_manager run(2)
        answer [of k le "\<lambda>_. Enforced g p a" r] by simp
  qed
  then show "step_ok le env base ?new gv'" "earns q' (sound_group le) (\<lambda>F r. True) (truths env ?new)" by auto
qed

end
