(* ===== verification/Policy_Safety.thy ===== *)
theory Policy_Safety
  imports Policy_System
begin

text \<open>
  What holds of the policy lifecycle whatever its requests, its other users and its failures do: the
  status a policy has was earned, by a transition whose gates the caller passed and that is on record.
\<close>

section \<open>The invariant\<close>

definition lifecycle_inv :: "lifecycle_env \<Rightarrow> policy_env \<Rightarrow> (string \<Rightarrow> graph) \<Rightarrow> lifecycle_system \<Rightarrow> bool" where
  "lifecycle_inv le env base y \<longleftrightarrow>
     (case y of (past, rs) \<Rightarrow>
        past \<noteq> [] \<and> step_ok le env base past (hd past)
        \<and> (\<forall>q \<in> set rs. earns q (sound_group le) (\<lambda>F r. True) (truths env past)))"

lemma earns_past:
  assumes "\<forall>q \<in> set rs. earns q (sound_group le) (\<lambda>F r. True) (truths env past)" "set past \<subseteq> set past'"
  shows "\<forall>q \<in> set rs. earns q (sound_group le) (\<lambda>F r. True) (truths env past')"
  using assms earns_more [OF _ truths_later] by blast

lemma by_others_valid: "by_others g c \<Longrightarrow> valid_call c"
  by (cases c) simp_all

lemma step_ok_world:
  assumes "step_ok le env base past gv" "set past \<subseteq> set past'"
    and "world_run env base gv \<Longrightarrow> world_run env base gv'" "same_rows (w_log (gv_world gv)) (w_log (gv_world gv'))"
  shows "step_ok le env base past' gv'"
  using assms log_earned_later [OF _ truths_later [OF assms(2)]] log_earned_rows [OF _ assms(4)]
  by (auto simp: step_ok_def)

lemma audited_rows: "same_rows (w_log w) (w_log (run_ops audited ids w))"
proof (induction ids arbitrary: w)
  case (Cons a ids)
  have "same_rows (w_log w) (w_log (audited a w))"
    by (simp add: audited_def same_rows_def read_applied_position_def)
  with Cons show ?case by (auto intro: same_rows_trans)
qed simp

lemma audited_run: "(gateway_step env)\<^sup>*\<^sup>* w0 w \<Longrightarrow> (gateway_step env)\<^sup>*\<^sup>* w0 (run_ops audited ids w)"
  by (induction ids arbitrary: w) (auto intro: run_audited)

lemma lifecycle_inv_next:
  assumes "lifecycle_inv le env base (gv # past, rs)"
    and "step_ok le env base (gv # past) gv \<Longrightarrow> step_ok le env base (gv' # gv # past) gv'"
  shows "lifecycle_inv le env base (gv' # gv # past, rs)"
  using assms earns_past [of rs le env "gv # past" "gv' # gv # past"] by (auto simp: lifecycle_inv_def)

lemma lifecycle_inv_serve:
  assumes "lifecycle_ok le env" "lifecycle_inv le env base (gv # past, rs)" "i < length rs"
    and "serve_policy env os fs (rs ! i) gv = (q, gv')"
  shows "lifecycle_inv le env base (gv' # gv # past, rs[i := q])"
proof -
  from assms(2) have before: "step_ok le env base (gv # past) gv"
    "\<forall>q \<in> set rs. earns q (sound_group le) (\<lambda>F r. True) (truths env (gv # past))"
    by (simp_all add: lifecycle_inv_def)
  with assms(3) have "earns (rs ! i) (sound_group le) (\<lambda>F r. True) (truths env (gv # past))" by simp
  note after = serve_ok [OF assms(1) before(1) this assms(4)]
  have "\<forall>p \<in> set (rs[i := q]). earns p (sound_group le) (\<lambda>F r. True) (truths env (gv' # gv # past))"
    using earns_past [OF before(2), of "gv' # gv # past"] after(2) set_update_subset_insert [of rs i q] by auto
  with after(1) show ?thesis by (simp add: lifecycle_inv_def)
qed

lemma lifecycle_inv_step:
  assumes "lifecycle_ok le env" "lifecycle_inv le env base y" "lifecycle_step le env y z"
  shows "lifecycle_inv le env base z"
  using assms(3)
proof (cases rule: lifecycle_step.cases)
  case (arrives c past rs)
  have "earns (lifecycle_service le c) (sound_group le) (\<lambda>F r. True) (truths env past)"
    using earns_service arrives(3) assms(1) by (simp add: lifecycle_ok_def)
  with assms(2) show ?thesis by (simp add: arrives(1,2) lifecycle_inv_def)
next
  case (proceeds i rs os fs gv q gv' past)
  with assms(2) lifecycle_inv_serve [OF assms(1)] show ?thesis by simp
next
  case (gateway_call c gv past rs os)
  have "step_ok le env base (gv # past) gv \<Longrightarrow> step_ok le env base
      (gv\<lparr>gv_world := after_call (pe_gateway env) c ((gv_world gv)\<lparr>w_faults := os\<rparr>)\<rparr> # gv # past)
      (gv\<lparr>gv_world := after_call (pe_gateway env) c ((gv_world gv)\<lparr>w_faults := os\<rparr>)\<rparr>)"
    by (erule step_ok_call [OF assms(1) _ gateway_call(3) by_others_valid [OF gateway_call(3)], where os = os]) auto
  with assms(2) lifecycle_inv_next show ?thesis by (simp add: gateway_call(1,2))
next
  case (restarts gv past rs)
  have "step_ok le env base (gv # past) gv \<Longrightarrow> step_ok le env base
      (gv\<lparr>gv_world := restarted (gv_world gv)\<rparr> # gv # past) (gv\<lparr>gv_world := restarted (gv_world gv)\<rparr>)"
    by (erule step_ok_world) (auto simp: world_run_def run_restart, simp add: restarted_def)
  with assms(2) lifecycle_inv_next show ?thesis by (simp add: restarts)
next
  case (reconciles gv past rs gs)
  have "step_ok le env base (gv # past) gv \<Longrightarrow> step_ok le env base
      (gv\<lparr>gv_world := (gv_world gv)\<lparr>w_reconciling := gs\<rparr>\<rparr> # gv # past)
      (gv\<lparr>gv_world := (gv_world gv)\<lparr>w_reconciling := gs\<rparr>\<rparr>)"
    by (erule step_ok_world)
      (auto simp: world_run_def intro: rtranclp.rtrancl_into_rtrancl gateway_step.Reconciled)
  with assms(2) lifecycle_inv_next show ?thesis by (simp add: reconciles)
next
  case (others_record gv a past rs ids)
  let ?gv = "gv\<lparr>gv_access := a, gv_world := run_ops audited ids (gv_world gv)\<rparr>"
  have "step_ok le env base (gv # past) gv \<Longrightarrow> step_ok le env base (?gv # gv # past) ?gv"
    by (erule step_ok_world) (auto simp: world_run_def audited_run audited_rows)
  with assms(2) lifecycle_inv_next show ?thesis by (simp add: others_record(1,2))
qed

lemma lifecycle_inv_run:
  assumes "lifecycle_run le env y z" "lifecycle_ok le env" "lifecycle_inv le env base y"
  shows "lifecycle_inv le env base z"
  using assms by (induction rule: lifecycle_run.induct) (auto intro: lifecycle_inv_step)

lemma lifecycle_inv_first: "lifecycle_inv le env base ([first_governance base], [])"
  by (simp add: lifecycle_inv_def step_ok_def world_run_def first_governance_def log_earned_def first_world_def
      empty_log_def)

lemma lifecycle_invD:
  assumes "lifecycle_ok le env" "lifecycle_run le env ([first_governance base], []) (gv # past, rs)"
  shows "world_run env base gv" "log_earned le (truths env (gv # past)) (w_log (gv_world gv))"
  using lifecycle_inv_run [OF assms(2,1) lifecycle_inv_first] by (simp_all add: lifecycle_inv_def step_ok_def)

section \<open>Statuses\<close>

lemma logged_status:
  assumes "lifecycle_ok le env" "lifecycle_run le env ([first_governance base], []) (gv # past, rs)"
    and "en \<in> set (entries_of (pe_graph env) (w_log (gv_world gv)))" "policy_status_of (entry_prim en) = Some (p, v)"
  obtains row where "row \<in> set (ls_groups (w_log (gv_world gv)))" "gr_id row = en_group en" "gr_graph row = pe_graph env"
    "status_earned le (truths env (gv # past)) (gr_audit row) p v"
proof -
  have "le_graph le = pe_graph env" using assms(1) by (simp add: lifecycle_ok_def)
  moreover have "\<not> is_stamp (entry_prim en)" using assms(4) by (cases "entry_prim en") auto
  ultimately show ?thesis
    using lifecycle_invD(2) [OF assms(1,2)] assms(3,4) that
    by (auto simp: log_earned_def entry_earned_def prim_earned_def entries_of_def)
qed

section \<open>What the graph says\<close>

lemma status_write:
  assumes "node_property (apply_primitive pr g) (''Policy'', p) ''status'' = PStr s"
  shows "node_property g (''Policy'', p) ''status'' = PStr s \<or> policy_status_of pr = Some (p, PStr s)"
proof (cases pr)
  case (UpsertNode l i ps e)
  with assms show ?thesis
    by (cases "map_of ps ''status''"; cases e)
      (auto simp: node_property_def merged_node_def embedding_key_def policy_label_def map_add_def Let_def
        split: option.splits if_splits)
next
  case (MergeProperty l i ps)
  with assms show ?thesis
    by (cases "map_of ps ''status''")
      (auto simp: node_property_def policy_label_def map_add_def split: option.splits if_splits)
next
  case (RemoveProperty l i ks)
  with assms show ?thesis
    by (auto simp: node_property_def cy_remove_property_def restrict_map_def split: option.splits if_splits)
next
  case (DeleteNode l i)
  with assms show ?thesis
    by (auto simp: node_property_def cy_delete_node_def split: option.splits if_splits)
next
  case (UpsertEdge t i a b ps)
  have "g_nodes (apply_primitive pr g) = g_nodes g" by (simp add: UpsertEdge)
  with assms show ?thesis by (simp add: node_property_def)
qed (use assms in \<open>auto simp: node_property_def\<close>)

lemma status_written:
  assumes "node_property (apply_all prs g) (''Policy'', p) ''status'' = PStr s"
  shows "node_property g (''Policy'', p) ''status'' = PStr s \<or> (\<exists>pr \<in> set prs. policy_status_of pr = Some (p, PStr s))"
  using assms by (induction prs arbitrary: g) (auto dest: status_write)

lemma approved_earned:
  "status_earned le F audit p (PStr ''approved'') \<Longrightarrow> \<exists>actor. on_record F audit actor ''policy.approve'' p \<and> approval le F actor p"
  by (auto simp: status_earned_def)

lemma approved_facts:
  assumes "approval le (truths env past) actor p"
  shows "\<exists>before \<in> set past. \<exists>r. read_policy_tree le p (w_graphs (gv_world before) (pe_graph env)) = Some r
      \<and> pol_status r = PStr ''proposed'' \<and> (pol_owner_subject r, pol_owner_issuer r) \<noteq> as_values actor"
    "\<exists>before \<in> set past. \<exists>audit_actor fs.
      fst (run_request (enforce_role_gate (transition_role_gate ''approve-policy'') (Some actor) audit_actor)
        (pe_config env) fs (gv_access before)) = Inr ()"
proof -
  from assms obtain g r where r: "Saw g \<in> truths env past" "read_policy_tree le p g = Some r" "review actor ''approve'' r"
    by (auto simp: approval_def saw_policy_def)
  from r(3) have "pol_status r = PStr ''proposed''" "(pol_owner_subject r, pol_owner_issuer r) \<noteq> as_values actor"
    by (auto simp: review_def block_self_approval_def require_status_def required_status_by_action_def context_of_def)
  with r(1,2) show "\<exists>before \<in> set past. \<exists>r. read_policy_tree le p (w_graphs (gv_world before) (pe_graph env)) = Some r
      \<and> pol_status r = PStr ''proposed'' \<and> (pol_owner_subject r, pol_owner_issuer r) \<noteq> as_values actor"
    by (auto simp: truths_def)
  show "\<exists>before \<in> set past. \<exists>audit_actor fs.
      fst (run_request (enforce_role_gate (transition_role_gate ''approve-policy'') (Some actor) audit_actor)
        (pe_config env) fs (gv_access before)) = Inr ()"
    using assms by (auto simp: approval_def enforced_def truths_def)
qed

end
