(* ===== verification/Policy_Runs.thy ===== *)
theory Policy_Runs
  imports Policy_Safety
begin

text \<open>
  The properties of the policy lifecycle over all its runs, with runs that show them: Bob, a policy manager,
  approves Ada's proposed policy, and Ada edits her draft.
\<close>

section \<open>A run\<close>

text \<open>A request that is answered at once, by itself, is a run.\<close>

definition served_run :: "lifecycle_env \<Rightarrow> policy_env \<Rightarrow> lifecycle_system \<Rightarrow> lifecycle_answer lifecycle
     \<Rightarrow> governance \<Rightarrow> governance list \<Rightarrow> bool" where
  "served_run le env y q gv past \<longleftrightarrow>
     (\<exists>past'. set past \<subseteq> set past'
        \<and> lifecycle_run le env y (snd (run_policy q env gv) # past', [Ended (fst (run_policy q env gv))]))"

lemma run_policy_serve:
  "run_policy q env gv = (case serve_policy env [] [] q gv of (q', gv') \<Rightarrow> run_policy q' env gv')"
  by (cases q) (auto simp: next_fate_def split: prod.split)

lemma next_served:
  assumes "\<And>q' gv' past'. q' \<in> range k \<Longrightarrow> lifecycle_run le env y (gv' # past', [q']) \<Longrightarrow> served_run le env y q' gv' past'"
    and "lifecycle_run le env y (gv # past, [q])" "fst (serve_policy env [] [] q gv) \<in> range k"
  shows "served_run le env y q gv past"
proof -
  obtain q' gv' where serve: "serve_policy env [] [] q gv = (q', gv')" by (cases "serve_policy env [] [] q gv")
  have "lifecycle_run le env y (gv' # gv # past, [q'])"
    using goes_on [OF assms(2) proceeds [of 0 "[q]" env "[]" "[]" gv q' gv' le past]] serve by simp
  with assms(1,3) serve have "served_run le env y q' gv' (gv # past)" by simp
  then show ?thesis unfolding served_run_def run_policy_serve [of q] serve by auto
qed

lemma run_policy_serves: "lifecycle_run le env y (gv # past, [q]) \<Longrightarrow> served_run le env y q gv past"
proof (induction q arbitrary: gv past)
  case (Ended x)
  then show ?case by (auto simp: served_run_def)
qed (rule next_served, assumption, assumption, simp add: range_eqI)+


definition sample_base :: "string \<Rightarrow> string \<Rightarrow> graph" where
  "sample_base status g =
     (if g = ''policies''
      then \<lparr>g_nodes = [(''Policy'', ''p'') \<mapsto> [''title'' \<mapsto> PStr ''Access'', ''status'' \<mapsto> PStr status,
                 ''version'' \<mapsto> PStr ''1'', ''owner_subject'' \<mapsto> PStr ''ada'', ''owner_issuer'' \<mapsto> PStr ''idp'']],
            g_edges = {#}\<rparr>
      else empty_graph)"

definition sample_lifecycle :: lifecycle_env where
  "sample_lifecycle = \<lparr>le_edges = (\<lambda>_. []), le_props = (\<lambda>_. []), le_graph = ''policies''\<rparr>"

definition sample_config :: access_config where
  "sample_config = \<lparr>bootstrap_owner_subject = Some ''ada'', bootstrap_owner_issuer = Some ''idp'',
     bypass_active = False, registered_actions = [], registered_resource_types = [],
     collation_key = map of_char, row_stamp = (\<lambda>n. (n, int n)), session_zone = id\<rparr>"

definition sample_policy_env :: policy_env where
  "sample_policy_env = \<lparr>pe_gateway = sample_env, pe_graph = ''policies'', pe_config = sample_config,
     pe_registry = lifecycle_registry, pe_event_id = (\<lambda>n. replicate n CHR ''e'')\<rparr>"

definition bob_manages :: access_state where
  "bob_manages = empty_access\<lparr>assignments := [\<lparr>holder = (''bob'', ''idp''), held_role = POLICY_MANAGER,
     granted_by = (''ada'', ''idp'')\<rparr>]\<rparr>"

definition bob_arrives :: "string \<Rightarrow> governance" where
  "bob_arrives status = (first_governance (sample_base status))\<lparr>gv_access := bob_manages\<rparr>"

definition bob_approves :: "lifecycle_answer lifecycle" where
  "bob_approves = lifecycle_service sample_lifecycle (Call_approve None (''bob'', ''idp'') ''p'')"

lemma sample_lifecycle_ok: "lifecycle_ok sample_lifecycle sample_policy_env"
proof -
  have "settings_ok (ge_settings (pe_gateway sample_policy_env))" by (simp add: sample_policy_env_def sample_settings)
  moreover have "le_ok sample_lifecycle" by (simp add: le_ok_def sample_lifecycle_def)
  moreover have "non_blank ''policies''" by code_simp
  ultimately show ?thesis by (simp add: lifecycle_ok_def sample_lifecycle_def sample_policy_env_def)
qed

lemma sample_run:
  assumes "lifecycle_call_ok c"
  shows "\<exists>past rs. lifecycle_run sample_lifecycle sample_policy_env ([first_governance (sample_base status)], [])
    (snd (run_policy (lifecycle_service sample_lifecycle c) sample_policy_env (bob_arrives status)) # past, rs)"
proof -
  let ?y = "([first_governance (sample_base status)], [])"
  have "lifecycle_run sample_lifecycle sample_policy_env ?y ([bob_arrives status, first_governance (sample_base status)], [])"
    using goes_on [OF begins others_record [of "first_governance (sample_base status)" bob_manages _ _ "[]" "[]" "[]"]]
    by (simp add: bob_arrives_def bob_manages_def first_governance_def empty_access_def)
  from run_policy_serves [OF goes_on [OF this arrives [OF assms], simplified]]
  show ?thesis unfolding served_run_def by blast
qed

definition bob_approved :: governance where
  "bob_approved = snd (run_policy bob_approves sample_policy_env (bob_arrives ''proposed''))"

definition ada_edits :: "lifecycle_answer lifecycle" where
  "ada_edits = lifecycle_service sample_lifecycle (Call_update_policy (''ada'', ''idp'') ''p'' [(''title'', PStr ''Access rules'')])"

lemma bob_approved_run:
  obtains past rs where "lifecycle_run sample_lifecycle sample_policy_env ([first_governance (sample_base ''proposed'')], [])
    (bob_approved # past, rs)"
  using sample_run [of "Call_approve None (''bob'', ''idp'') ''p''" "''proposed''"]
  by (auto simp: bob_approved_def bob_approves_def)

text \<open>What is checked of a run is one predicate of its last state, so that the run is evaluated once.\<close>

definition approved_checks :: "governance \<Rightarrow> bool" where
  "approved_checks gv \<longleftrightarrow>
     (case entries_of ''policies'' (w_log (gv_world gv)) of
        [en] \<Rightarrow> policy_status_of (entry_prim en) = Some (''p'', PStr ''approved'') | _ \<Rightarrow> False)
     \<and> read_applied_position ''policies'' (w_log (gv_world gv)) = last_position ''policies'' (w_log (gv_world gv))
     \<and> node_property (w_graphs (gv_world gv) ''policies'') (''Policy'', ''p'') ''status'' = PStr ''approved''
     \<and> list_all (\<lambda>row. gr_audit row = Some []) (ls_groups (w_log (gv_world gv)))"

lemma bob_approved_checks: "approved_checks bob_approved"
  by code_simp

text \<open>
  C28. Whatever lifecycle requests run interleaved, with whatever failures, restarts and other writers: an entry
  of the policy graph's log that sets, removes or deletes the status of a policy \<open>p\<close> belongs to a group
  linked to an applied audit row that tells of a transition of \<open>p\<close> to that status, and, before, the gates of
  that transition had passed on a graph and on roles as they were: creation found no such policy,
  a proposal or a revert came from the owner, an approval or a rejection from a policy manager who is not
  the owner, and an automatic deprecation followed the approval of a successor. Nothing deletes a policy.

  The other writers are those of \<open>by_others\<close>: they link their groups to audit rows and set no policy's status, so
  company merge, the internal seed and restores do not run. \<open>lifecycle_ok\<close> asks for settings that the gateway
  accepts, with waits that do not overflow within the budget, and a name of the policy graph, \<open>lifecycle_call_ok\<close> for patches as the MCP tools let them through.
\<close>

theorem status_changes_are_earned:
  assumes "lifecycle_ok le env" "lifecycle_run le env ([first_governance base], []) (gv # past, rs)"
    and "en \<in> set (entries_of (pe_graph env) (w_log (gv_world gv)))" "policy_status_of (entry_prim en) = Some (p, v)"
  shows "\<exists>row \<in> set (ls_groups (w_log (gv_world gv))). gr_id row = en_group en \<and> gr_graph row = pe_graph env
    \<and> status_earned le (truths env (gv # past)) (gr_audit row) p v"
  using logged_status [OF assms] by blast

theorem status_changes_are_earned_witness:
  "\<exists>past. \<exists>row \<in> set (ls_groups (w_log (gv_world bob_approved))). gr_graph row = ''policies''
     \<and> status_earned sample_lifecycle (truths sample_policy_env (bob_approved # past)) (gr_audit row) ''p'' (PStr ''approved'')"
proof -
  obtain past rs where run: "lifecycle_run sample_lifecycle sample_policy_env
      ([first_governance (sample_base ''proposed'')], []) (bob_approved # past, rs)"
    by (rule bob_approved_run)
  obtain en where "en \<in> set (entries_of (pe_graph sample_policy_env) (w_log (gv_world bob_approved)))"
    "policy_status_of (entry_prim en) = Some (''p'', PStr ''approved'')"
    using bob_approved_checks by (auto simp: approved_checks_def sample_policy_env_def split: list.splits)
  from status_changes_are_earned [OF sample_lifecycle_ok run this] show ?thesis
    by (auto simp: sample_policy_env_def)
qed


lemma backfill_keys: "backfill_earned le F (MergeProperty l i ps) \<Longrightarrow> fst ` set ps \<subseteq> {''status'', ''version''}"
  by (auto simp: backfill_earned_def backfill_primitives_def Let_def status_merge_def valid_props_def
      validate_property_map_Inr dict_map_def split: if_splits prod.splits sum.splits)

definition ada_edited :: governance where
  "ada_edited = snd (run_policy ada_edits sample_policy_env (bob_arrives ''draft''))"

definition edited_checks :: "governance \<Rightarrow> bool" where
  "edited_checks gv \<longleftrightarrow>
     (case entries_of ''policies'' (w_log (gv_world gv)) of
        [en] \<Rightarrow> entry_prim en = MergeProperty ''Policy'' ''p'' [(''title'', PStr ''Access rules'')] | _ \<Rightarrow> False)
     \<and> list_all (\<lambda>row. gr_audit row = None) (ls_groups (w_log (gv_world gv)))"

lemma ada_edited_checks: "edited_checks ada_edited"
  by code_simp


text \<open>
  C27. The four-eyes principle. If the policy graph says that the policy \<open>p\<close> is approved, and did not say so at
  first, and its marker is at the end of its log, then some actor approved it: an audit row on the trail tells of
  the approval and a logged group is linked to it; at some moment of the past \<open>p\<close> was proposed and owned by
  somebody else than the actor; and at some moment of the past the actor passed the policy managers' gate.
  The conditions are again those of the first property.
\<close>

theorem approved_by_the_book:
  assumes "lifecycle_ok le env" "lifecycle_run le env ([first_governance base], []) (gv # past, rs)"
    and "read_applied_position (pe_graph env) (w_log (gv_world gv)) = last_position (pe_graph env) (w_log (gv_world gv))"
    and "node_property (w_graphs (gv_world gv) (pe_graph env)) (''Policy'', p) ''status'' = PStr ''approved''"
    and "node_property (base (pe_graph env)) (''Policy'', p) ''status'' \<noteq> PStr ''approved''"
  shows "\<exists>actor.
      (\<exists>row \<in> set (ls_groups (w_log (gv_world gv))). gr_graph row = pe_graph env
         \<and> on_record (truths env (gv # past)) (gr_audit row) actor ''policy.approve'' p)
    \<and> (\<exists>before \<in> set (gv # past). \<exists>r. read_policy_tree le p (w_graphs (gv_world before) (pe_graph env)) = Some r
         \<and> pol_status r = PStr ''proposed'' \<and> (pol_owner_subject r, pol_owner_issuer r) \<noteq> as_values actor)
    \<and> (\<exists>before \<in> set (gv # past). \<exists>audit_actor fs.
         fst (run_request (enforce_role_gate (transition_role_gate ''approve-policy'') (Some actor) audit_actor)
           (pe_config env) fs (gv_access before)) = Inr ())"
proof -
  have "(gateway_step (pe_gateway env))\<^sup>*\<^sup>* (first_world base []) (gv_world gv)"
    using lifecycle_invD(1) [OF assms(1,2)] by (simp add: world_run_def)
  moreover have settings: "settings_ok (ge_settings (pe_gateway env))" using assms(1) by (simp add: lifecycle_ok_def)
  ultimately have "world_ok base (gv_world gv)" by (rule first_run(1) [rotated])
  then have ok: "log_ok (w_log (gv_world gv))" "in_step base (pe_graph env) (gv_world gv)"
    by (simp_all add: world_ok_def)
  have "w_graphs (gv_world gv) (pe_graph env)
      = apply_all (entry_prims (entries_of (pe_graph env) (w_log (gv_world gv)))) (base (pe_graph env))"
    using ok(2) glog.pending_none [OF ok(1), of "pe_graph env"] assms(3)
    by (simp add: in_step_def read_entries_all [OF ok(1)] entry_prims_def)
  with assms(4,5) status_written obtain en where
    "en \<in> set (entries_of (pe_graph env) (w_log (gv_world gv)))" "policy_status_of (entry_prim en) = Some (p, PStr ''approved'')"
    unfolding entry_prims_def by fastforce
  with logged_status [OF assms(1,2)] obtain row actor where row: "row \<in> set (ls_groups (w_log (gv_world gv)))"
      "gr_graph row = pe_graph env" "on_record (truths env (gv # past)) (gr_audit row) actor ''policy.approve'' p"
    and approval: "approval le (truths env (gv # past)) actor p"
    by (metis (no_types, lifting) approved_earned)
  from approved_facts [OF approval] row show ?thesis by blast
qed

theorem approved_by_the_book_witness:
  "\<exists>past actor. on_record (truths sample_policy_env (bob_approved # past)) (Some []) actor ''policy.approve'' ''p''"
proof -
  obtain past rs where run: "lifecycle_run sample_lifecycle sample_policy_env
      ([first_governance (sample_base ''proposed'')], []) (bob_approved # past, rs)"
    by (rule bob_approved_run)
  have "node_property (sample_base ''proposed'' ''policies'') (''Policy'', ''p'') ''status'' \<noteq> PStr ''approved''"
    by code_simp
  with bob_approved_checks show ?thesis
    using approved_by_the_book [OF sample_lifecycle_ok run, of "''p''"]
    by (fastforce simp: approved_checks_def sample_policy_env_def list_all_iff)
qed

section \<open>A deprecated policy\<close>

text \<open>
  A refused transition of a deprecated policy does not end with the error its gate gives: its rejected row
  names \<^verbatim>\<open>deprecated\<close> as the status it came from, which the details model of transitions does not admit, so the row is
  refused and that error ends the request.
\<close>

lemma deprecated_transition_unrecorded:
  "fst (run_policy (lifecycle_service sample_lifecycle (Call_propose (''ada'', ''idp'') ''p'')) sample_policy_env
     (bob_arrives ''deprecated'')) = Inl (Audit_refused AuditInvalidDetailsError)"
  by code_simp

end
