(* ===== verification/Spec2Isabelle.thy ===== *)
theory Spec2Isabelle
  imports Gateway_Complete Gateway_Multi Access_Safety Policy_Runs
begin

text \<open>
  A verification development for the policy-system service (\<^verbatim>\<open>ps-service/src/ps_service\<close>, Python).

  \<^bold>\<open>The program.\<close> The service keeps policies, capabilities, obligations and roles in property graphs
  (FalkorDB) and records in Postgres what was done to them. Three parts carry its state:
    \<^item> the Graph Write Gateway (\<^verbatim>\<open>graph_gateway/\<close>), the only writer of the graphs: a group of mutations is checked,
      reduced to what changes something, appended to an insert-only log in one transaction and then applied; a
      marker per graph tells how far the graph follows its log, and what was not applied is caught up later;
    \<^item> the access roles (\<^verbatim>\<open>authz/\<close>) with the audit trail (\<^verbatim>\<open>audit/\<close>): who may grant, revoke and see what, each
      change and each denial with its audit row in the same database;
    \<^item> the policy lifecycle (\<^verbatim>\<open>policy_lifecycle/\<close>): drafts, proposals, approval by somebody else, supersession,
      all of it reads of the policy graph, groups of the gateway, audit rows and looks at the caller's roles.

  \<^bold>\<open>How code and model correspond.\<close> A frozen dataclass or pydantic model is a \<open>record\<close> or \<open>datatype\<close>, a
  dictionary an association list in insertion order, a raised error a value of \<open>error + 'a\<close>. The database and
  the graph are values, and an operation is a function on them; every call to FalkorDB or Postgres consumes an
  outcome of the environment: answered, unreachable, refused, or broken off with the commit's answer lost.
  Properties quantify over these outcomes. An operation of the gateway holds the locks of its graphs and is one
  step; restarts and other operations come between steps. A request of the access roles or of the lifecycle is a resumption,
  a tree whose nodes are its calls; a step relation interleaves any number of requests call by call.

  \<^bold>\<open>Theories.\<close>
    \<^item> \<open>Prelude\<close>: dictionaries, folds, batches; the locales \<open>keyed_ops\<close>, \<open>resumable\<close>, \<open>overwriting_ops\<close> and
      \<open>first_wins_ops\<close> of operations that may be regrouped or repeated.
    \<^item> \<open>Models\<close>, \<open>Vocabulary\<close> (\<^verbatim>\<open>models.py\<close>, \<^verbatim>\<open>label_allow_list.py\<close>, \<^verbatim>\<open>validation.py\<close>, \<^verbatim>\<open>errors.py\<close>): property values, the
      seven primitives and their validation, groups, the allow-list, the gateway's errors.
    \<^item> \<open>Graph_Store\<close>, \<open>Row_Laws\<close> (\<^verbatim>\<open>cypher.py\<close>): the property graph, the write statements, and the algebra of their
      rows. \<open>apply_primitive\<close> is the abstract specification of one mutation.
    \<^item> \<open>Applier\<close> (\<^verbatim>\<open>applier.py\<close>): runs, batches, reported positions. Batched application equals
      sequential application, and a call cut off anywhere can be resumed.
    \<^item> \<open>Graph_Reader\<close>, \<open>Scan\<close>, \<open>Noop_Filter\<close> (\<^verbatim>\<open>graph_reader.py\<close>, \<^verbatim>\<open>noop_filter.py\<close>): batched reads, chunked scans, and
      the overlay that a group is walked over; it refines the graph and keeps what changes it.
    \<^item> \<open>Entry_Codec\<close>, \<open>Graph_Log\<close> (\<^verbatim>\<open>entry_codec.py\<close>, \<^verbatim>\<open>store.py\<close>): the log's rows and transactions; the locale
      \<open>mutation_log\<close> states what a log promises.
    \<^item> \<open>Retry\<close>, \<open>Replay_Gate\<close> (\<^verbatim>\<open>retry.py\<close>, \<^verbatim>\<open>startup_retry.py\<close>, \<^verbatim>\<open>replay_gate.py\<close>): bounded and unbounded retrying, and the
      gate of graphs under replay. \<open>Replace\<close> (\<^verbatim>\<open>replace.py\<close>, \<^verbatim>\<open>edge_identity_backfill.py\<close>): replacing and merging legs.
    \<^item> \<open>Gateway_World\<close>, \<open>Gateway_Apply\<close>, \<open>Gateway\<close> (\<^verbatim>\<open>gateway.py\<close>): the world, \<^verbatim>\<open>_apply_pending\<close>, and the public operations
      \<^verbatim>\<open>submit_group\<close>, \<^verbatim>\<open>submit_multi_graph_group\<close>, \<^verbatim>\<open>catch_up\<close>, \<^verbatim>\<open>recover\<close>, \<^verbatim>\<open>stamp_legacy_edge_identity\<close> and the reads.
    \<^item> \<open>Gateway_Laws\<close> (the locales \<open>staging_invariant\<close>, \<open>applying_invariant\<close>, \<open>commit_invariant\<close>: what keeps an
      invariant through an operation), \<open>Gateway_Safety\<close> (graphs follow the log, under every run), \<open>Gateway_Submit\<close>,
      \<open>Gateway_Multi\<close> (what a submission led to, for every outcome), \<open>Gateway_Complete\<close> (what is reached when calls
      are answered).
    \<^item> \<open>Audit_Trail\<close> (\<^verbatim>\<open>audit/\<close>): typed details, the writers of rows, the paginated query.
    \<^item> \<open>Access_Store\<close>, \<open>Access_Service\<close> (\<^verbatim>\<open>authz/store.py\<close>, \<^verbatim>\<open>rules.py\<close>, \<^verbatim>\<open>service.py\<close>, \<^verbatim>\<open>request_gate.py\<close>): tables, rules and
      requests. \<open>Access_Laws\<close> (\<open>store_move\<close>, the store's contract, and the locale \<open>access_invariant\<close>),
      \<open>Access_Authority\<close> (what roles of the past a request rests on), \<open>Access_Safety\<close> (what the trail shows).
    \<^item> \<open>Identity\<close> (\<^verbatim>\<open>domain_mapper/identity.py\<close>): ids from slugs and SHA-1 digests.
    \<^item> \<open>Policy_World\<close>, \<open>Policy_Graph\<close>, \<open>Policy_Write\<close>, \<open>Policy_Service\<close> (\<^verbatim>\<open>graph_writer.py\<close>, \<^verbatim>\<open>graph_submission.py\<close>,
      \<^verbatim>\<open>rules.py\<close>, \<^verbatim>\<open>audit_actions.py\<close>, \<^verbatim>\<open>service.py\<close> of \<^verbatim>\<open>policy_lifecycle/\<close>): reads, writes and requests. \<open>Policy_Laws\<close> (what
      justifies each write), \<open>Policy_System\<close> (the system, and what its steps keep), \<open>Policy_Safety\<close>, \<open>Policy_Runs\<close> (the
      properties over all runs, and example runs).

  \<^bold>\<open>Bounds and fuel.\<close> Numbers of attempts, batch and page sizes are parameters of the settings. \<open>walk_pages\<close> takes as
  fuel one page more than there are matching rows, and the theorem says that this is enough.
  \<open>retry_through_outage\<close> has no bound in the code either and is a partial function; the theorem says when it
  returns. All other recursion terminates.

  \<^bold>\<open>Conditions that recur.\<close> \<open>settings_ok\<close>: the settings passed \<^verbatim>\<open>__post_init__\<close> and no wait within the retry
  budget overflows a double; the default settings, the only ones in use, satisfy it, but a code path without
  a budget, the startup retry, does overflow after 1024 failures. \<open>unique_keys\<close>: a graph has no two edges with the
  same type, ends and identity; pre-gateway graphs may have such duplicates. \<open>stamps_fresh\<close>: no stamp gives an edge
  an identity in use, without which the no-op filter drops a write that has an effect. \<open>by_others\<close>: the other
  writers of the policy graph link their groups to audit rows and set no policy's status; company merge, the
  internal seed and restores do, and are taken not to run beside the lifecycle.

  \<^bold>\<open>Times and texts.\<close> A time is a number, with or without an offset, and a time without one is read through a
  time zone that is a parameter. Text is a list of code points below 256. Floating-point property values are kept as
  their 64 bits; waits are rationals. Row ids, event ids, the collation of the database and the order of a graph's
  replies are parameters.

  \<^bold>\<open>Not modelled.\<close> Log events, metrics and health marks; connections; the hash chain of the audit trail, which a
  database trigger computes; swapping graph copies in, replay, drift digests and submission inside a caller's
  transaction of the gateway; and the parts of the service above it: the HTTP and MCP interfaces, sign-in, ingestion,
  graph cleanup, company merge, restore and export, monitoring, the query engine and the language-model interface.
\<close>

end
